(* ===== verification/Prelude.thy ===== *)
theory Prelude
  imports Main "HOL-Library.Word"
begin

text \<open>
  The prelude of the development: the machine types of the Rust sources as words, the result
  type with the combinator that plays the role of the question-mark operator, the checked
  integer conversions of the standard library, little- and big-endian byte strings with their
  round trips, the UTF-8 test of \<^verbatim>\<open>core::str::from_utf8\<close>, and time as nanosecond counts with
  the checked operations the sources call. Everything here models the Rust language and its
  standard library; the repository's own code starts in theory \<open>Wire\<close>.
\<close>

unbundle bit_operations_syntax

section \<open>Machine types, results\<close>

type_synonym u8 = "8 word"
type_synonym u16 = "16 word"
type_synonym u32 = "32 word"
type_synonym u64 = "64 word"

type_synonym bytes = "u8 list"

text \<open>
  A Rust \<^verbatim>\<open>String\<close> is its UTF-8 bytes. A \<^verbatim>\<open>&'static str\<close> label of an error is a HOL \<open>string\<close>.
  The signed types share the words of the unsigned ones and are read through \<open>sint\<close>; the
  floating-point types of the wire layer are their IEEE bit patterns, since that layer only
  moves the bits.
\<close>

type_synonym rstr = bytes

named_theorems wire_simps \<open>evaluation of the cursor and of the writers\<close>
named_theorems wf_intros \<open>well-formedness is kept\<close>
named_theorems code_tables \<open>from_code and code of the wire enumerations\<close>

text \<open>\<open>ok_then m f\<close> is \<^verbatim>\<open>let x = m?; f(x)\<close>.\<close>

definition ok_then :: "'e + 'a \<Rightarrow> ('a \<Rightarrow> 'e + 'b) \<Rightarrow> 'e + 'b" where
  "ok_then m f = (case m of Inl e \<Rightarrow> Inl e | Inr x \<Rightarrow> f x)"

definition map_err :: "('e \<Rightarrow> 'f) \<Rightarrow> 'e + 'a \<Rightarrow> 'f + 'a" where
  "map_err g m = (case m of Inl e \<Rightarrow> Inl (g e) | Inr x \<Rightarrow> Inr x)"

definition ok_or :: "'a option \<Rightarrow> 'e \<Rightarrow> 'e + 'a" where
  "ok_or m e = (case m of None \<Rightarrow> Inl e | Some x \<Rightarrow> Inr x)"

definition ok :: "'e + 'a \<Rightarrow> 'a option" where
  "ok m = (case m of Inl _ \<Rightarrow> None | Inr x \<Rightarrow> Some x)"

lemma ok_then_simps [simp]:
  "ok_then (Inl e) f = Inl e"
  "ok_then (Inr x) f = f x"
  by (simp_all add: ok_then_def)

lemma map_err_simps [simp]:
  "map_err g (Inl e) = Inl (g e)"
  "map_err g (Inr x) = Inr x"
  by (simp_all add: map_err_def)

lemma ok_or_simps [simp]:
  "ok_or None e = Inl e"
  "ok_or (Some x) e = Inr x"
  by (simp_all add: ok_or_def)

lemma ok_simps [simp]:
  "ok (Inl e) = None"
  "ok (Inr x) = Some x"
  by (simp_all add: ok_def)

lemma ok_then_Inr_iff: "ok_then m f = Inr y \<longleftrightarrow> (\<exists>x. m = Inr x \<and> f x = Inr y)"
  by (cases m) auto

lemma ok_then_InrE [elim]:
  assumes "ok_then m f = Inr y"
  obtains x where "m = Inr x" and "f x = Inr y"
  using assms by (auto simp: ok_then_Inr_iff)

lemma map_err_Inr_iff [simp]: "map_err g m = Inr y \<longleftrightarrow> m = Inr y"
  by (cases m) auto

lemma ok_or_Inr_iff [simp]: "ok_or m e = Inr y \<longleftrightarrow> m = Some y"
  by (cases m) auto

lemma ok_Some_iff [simp]: "ok m = Some y \<longleftrightarrow> m = Inr y"
  by (cases m) auto

section \<open>Sizes and checked conversions\<close>

text \<open>
  \<^verbatim>\<open>usize\<close> is a \<open>nat\<close> with the 64-bit bound written out where the code checks it. No slice of a
  Rust program is longer than \<^verbatim>\<open>isize::MAX\<close> bytes.
\<close>

definition usize_max :: nat where
  "usize_max = 2 ^ 64 - 1"

definition isize_max :: nat where
  "isize_max = 2 ^ 63 - 1"

definition checked_add_usize :: "nat \<Rightarrow> nat \<Rightarrow> nat option" where
  "checked_add_usize a b = (if a + b \<le> usize_max then Some (a + b) else None)"

definition checked_mul_usize :: "nat \<Rightarrow> nat \<Rightarrow> nat option" where
  "checked_mul_usize a b = (if a * b \<le> usize_max then Some (a * b) else None)"

definition u8_try_from :: "nat \<Rightarrow> u8 option" where
  "u8_try_from n = (if n < 2 ^ 8 then Some (of_nat n) else None)"

definition u16_try_from :: "nat \<Rightarrow> u16 option" where
  "u16_try_from n = (if n < 2 ^ 16 then Some (of_nat n) else None)"

definition u32_try_from :: "nat \<Rightarrow> u32 option" where
  "u32_try_from n = (if n < 2 ^ 32 then Some (of_nat n) else None)"

definition checked_add_u32 :: "u32 \<Rightarrow> u32 \<Rightarrow> u32 option" where
  "checked_add_u32 a b = (if unat a + unat b < 2 ^ 32 then Some (a + b) else None)"

text \<open>\<^verbatim>\<open>u32::saturating_add\<close>.\<close>

definition saturating_add_u32 :: "u32 \<Rightarrow> u32 \<Rightarrow> u32" where
  "saturating_add_u32 a b = (if unat a + unat b < 2 ^ 32 then a + b else - 1)"

lemma unat8_less [simp]: "unat (w :: u8) < 256"
  using unsigned_less [of w, where ?'a = nat] by simp

lemma unat16_less [simp]: "unat (w :: u16) < 65536"
  using unsigned_less [of w, where ?'a = nat] by simp

lemma unat32_less [simp]: "unat (w :: u32) < 4294967296"
  using unsigned_less [of w, where ?'a = nat] by simp

lemma unat64_less [simp]: "unat (w :: u64) < 18446744073709551616"
  using unsigned_less [of w, where ?'a = nat] by simp

lemma unat_of_nat_small:
  assumes "n < 2 ^ LENGTH('a)"
  shows "unat (of_nat n :: 'a::len word) = n"
  using assms by (simp add: unat_of_nat take_bit_nat_eq_self)

lemma word_of_natI: "unat w = n \<Longrightarrow> w = of_nat n"
  by auto

lemma unat_inject [simp]: "unat v = unat w \<longleftrightarrow> v = w"
  by (metis word_of_natI)

lemma ucast_narrow:
  fixes w :: "'a::len word"
  assumes "unat w < 2 ^ LENGTH('b::len)"
  shows "ucast (ucast w :: 'b word) = w"
proof -
  have "unat (ucast (ucast w :: 'b word) :: 'a word) = unat w"
    using assms
    by (simp add: unsigned_ucast_eq take_bit_nat_eq_self unsigned_take_bit_eq unsigned_of_nat)
  then show ?thesis by (simp only: word_eq_iff_unsigned [where 'a = nat])
qed

lemma u8_try_from_Some: "u8_try_from n = Some w \<Longrightarrow> unat w = n"
  by (auto simp: u8_try_from_def unat_of_nat_small split: if_splits)

lemma u16_try_from_Some: "u16_try_from n = Some w \<Longrightarrow> unat w = n"
  by (auto simp: u16_try_from_def unat_of_nat_small split: if_splits)

lemma u32_try_from_Some: "u32_try_from n = Some w \<Longrightarrow> unat w = n"
  by (auto simp: u32_try_from_def unat_of_nat_small split: if_splits)

lemma checked_add_u32_Some: "checked_add_u32 a b = Some c \<Longrightarrow> unat c = unat a + unat b"
  by (auto simp: checked_add_u32_def unat_word_ariths split: if_splits)

lemma usize_bounds:
  "n \<le> isize_max \<Longrightarrow> n \<le> usize_max"
  "n \<le> isize_max \<Longrightarrow> m \<le> isize_max \<Longrightarrow> n + m \<le> usize_max"
  by (simp_all add: isize_max_def usize_max_def)

section \<open>Byte order\<close>

primrec le_bytes :: "nat \<Rightarrow> 'a::len word \<Rightarrow> bytes" where
  "le_bytes 0 w = []"
| "le_bytes (Suc n) w = ucast w # le_bytes n (drop_bit 8 w)"

primrec from_le_bytes :: "bytes \<Rightarrow> 'a::len word" where
  "from_le_bytes [] = 0"
| "from_le_bytes (b # bs) = ucast b OR push_bit 8 (from_le_bytes bs)"

definition be_bytes :: "nat \<Rightarrow> 'a::len word \<Rightarrow> bytes" where
  "be_bytes n w = rev (le_bytes n w)"

definition from_be_bytes :: "bytes \<Rightarrow> 'a::len word" where
  "from_be_bytes bs = from_le_bytes (rev bs)"

lemma length_le_bytes [simp]: "length (le_bytes n w) = n"
  by (induction n arbitrary: w) auto

lemma length_be_bytes [simp]: "length (be_bytes n w) = n"
  by (simp add: be_bytes_def)

lemma bit_le_bytes:
  fixes w :: "'a::len word"
  assumes "k < n"
  shows "bit (le_bytes n w ! k) j \<longleftrightarrow> j < 8 \<and> bit w (8 * k + j)"
  using assms
proof (induction n arbitrary: w k)
  case (Suc n)
  then show ?case
    by (cases k) (auto simp: bit_simps add.assoc dest: bit_imp_le_length)
qed simp

lemma bit_from_le_bytes:
  "bit (from_le_bytes bs :: 'a::len word) i \<longleftrightarrow>
     i < LENGTH('a) \<and> i < 8 * length bs \<and> bit (bs ! (i div 8)) (i mod 8)"
proof (induction bs arbitrary: i)
  case (Cons b bs)
  show ?case
  proof (cases "i < 8")
    case True
    then show ?thesis by (auto simp: bit_simps)
  next
    case False
    define j where "j = i - 8"
    with False have i: "i = j + 8" and d: "i div 8 = Suc (j div 8)" and m: "i mod 8 = j mod 8"
      by (auto simp: le_div_geq le_mod_geq not_less)
    have b: "bit (ucast b :: 'a word) i = False"
      using False bit_imp_le_length [of b i] by (auto simp: bit_simps)
    have "bit (from_le_bytes (b # bs) :: 'a word) i \<longleftrightarrow>
        i < LENGTH('a) \<and> bit (from_le_bytes bs :: 'a word) j"
      using b i
      by (auto simp only: from_le_bytes.simps bit_or_iff bit_push_bit_iff possible_bit_word
          add_diff_cancel_right')
    also have "\<dots> \<longleftrightarrow> i < LENGTH('a) \<and> j < 8 * length bs \<and> bit (bs ! (j div 8)) (j mod 8)"
      unfolding Cons [of j] i by (metis add_lessD1)
    finally show ?thesis using d m i by simp
  qed
qed simp

lemma from_le_le_bytes:
  fixes w :: "'a::len word"
  assumes "LENGTH('a) \<le> 8 * n"
  shows "from_le_bytes (le_bytes n w) = w"
proof (rule bit_word_eqI)
  fix i assume "i < LENGTH('a)"
  with assms have "i div 8 < n" by auto
  with \<open>i < LENGTH('a)\<close> assms show "bit (from_le_bytes (le_bytes n w) :: 'a word) i = bit w i"
    by (auto simp: bit_from_le_bytes bit_le_bytes)
qed

lemma le_from_le_bytes:
  assumes "8 * length bs \<le> LENGTH('a::len)"
  shows "le_bytes (length bs) (from_le_bytes bs :: 'a word) = bs"
proof (rule nth_equalityI)
  fix k assume "k < length (le_bytes (length bs) (from_le_bytes bs :: 'a word))"
  then have k: "k < length bs" by simp
  show "le_bytes (length bs) (from_le_bytes bs :: 'a word) ! k = bs ! k"
  proof (rule bit_word_eqI)
    fix j assume "j < LENGTH(8)"
    then have j: "j < 8" by simp
    with k have "(8 * k + j) div 8 = k" "(8 * k + j) mod 8 = j" "8 * k + j < 8 * length bs"
      by auto
    with k j assms show "bit (le_bytes (length bs) (from_le_bytes bs :: 'a word) ! k) j = bit (bs ! k) j"
      by (auto simp: bit_le_bytes bit_from_le_bytes)
  qed
qed simp

text \<open>The widths the sources use, as rewrite rules in both directions.\<close>

lemma le_round [simp]:
  "from_le_bytes (le_bytes (Suc 0) (w1 :: u8)) = w1"
  "from_le_bytes (le_bytes 1 (w1 :: u8)) = w1"
  "from_le_bytes (le_bytes 2 (w2 :: u16)) = w2"
  "from_le_bytes (le_bytes 4 (w4 :: u32)) = w4"
  "from_le_bytes (le_bytes 8 (w8 :: u64)) = w8"
  by (simp_all add: from_le_le_bytes)

lemma be_round [simp]:
  "from_be_bytes (be_bytes 2 (w2 :: u16)) = w2"
  "from_be_bytes (be_bytes 4 (w4 :: u32)) = w4"
  by (simp_all add: from_be_bytes_def be_bytes_def)

lemma le_back:
  "length bs = 1 \<Longrightarrow> le_bytes 1 (from_le_bytes bs :: u8) = bs"
  "length bs = 2 \<Longrightarrow> le_bytes 2 (from_le_bytes bs :: u16) = bs"
  "length bs = 4 \<Longrightarrow> le_bytes 4 (from_le_bytes bs :: u32) = bs"
  "length bs = 8 \<Longrightarrow> le_bytes 8 (from_le_bytes bs :: u64) = bs"
  using le_from_le_bytes [of bs, where 'a = 8] le_from_le_bytes [of bs, where 'a = 16]
    le_from_le_bytes [of bs, where 'a = 32] le_from_le_bytes [of bs, where 'a = 64]
  by auto

lemma be_back:
  "length bs = 2 \<Longrightarrow> be_bytes 2 (from_be_bytes bs :: u16) = bs"
  "length bs = 4 \<Longrightarrow> be_bytes 4 (from_be_bytes bs :: u32) = bs"
  by (simp_all add: be_bytes_def from_be_bytes_def le_back)

lemma le_bytes_inject [simp]:
  "le_bytes 2 (a :: u16) = le_bytes 2 b \<longleftrightarrow> a = b"
  "le_bytes 4 (c :: u32) = le_bytes 4 d \<longleftrightarrow> c = d"
  "le_bytes 8 (e :: u64) = le_bytes 8 f \<longleftrightarrow> e = f"
  by (metis le_round)+

lemma le_bytes_1 [simp]: "le_bytes 1 (w :: u8) = [w]"
  by (simp add: numeral_eq_Suc)

lemma le_bytes_unfold:
  "le_bytes 2 w = [ucast w, ucast (drop_bit 8 w)]"
  "le_bytes 4 v = [ucast v, ucast (drop_bit 8 v), ucast (drop_bit 16 v), ucast (drop_bit 24 v)]"
  by (simp_all add: numeral_eq_Suc drop_bit_drop_bit)

section \<open>UTF-8\<close>

text \<open>
  The test \<^verbatim>\<open>core::str::from_utf8\<close> performs: one to four byte sequences without overlong
  forms, surrogates or values above U+10FFFF.
\<close>

definition utf8_cont :: "u8 \<Rightarrow> bool" where
  "utf8_cont b \<longleftrightarrow> 0x80 \<le> b \<and> b \<le> 0xBF"

definition utf8_second3 :: "u8 \<Rightarrow> u8 \<Rightarrow> bool" where
  "utf8_second3 b c \<longleftrightarrow>
     (if b = 0xE0 then 0xA0 \<le> c \<and> c \<le> 0xBF
      else if b = 0xED then 0x80 \<le> c \<and> c \<le> 0x9F
      else utf8_cont c)"

definition utf8_second4 :: "u8 \<Rightarrow> u8 \<Rightarrow> bool" where
  "utf8_second4 b c \<longleftrightarrow>
     (if b = 0xF0 then 0x90 \<le> c \<and> c \<le> 0xBF
      else if b = 0xF4 then 0x80 \<le> c \<and> c \<le> 0x8F
      else utf8_cont c)"

fun from_utf8_ok :: "bytes \<Rightarrow> bool" where
  "from_utf8_ok [] = True"
| "from_utf8_ok (b # bs) =
     (if b < 0x80 then from_utf8_ok bs
      else if 0xC2 \<le> b \<and> b \<le> 0xDF then
        (case bs of c # bs' \<Rightarrow> utf8_cont c \<and> from_utf8_ok bs' | _ \<Rightarrow> False)
      else if 0xE0 \<le> b \<and> b \<le> 0xEF then
        (case bs of c # d # bs' \<Rightarrow> utf8_second3 b c \<and> utf8_cont d \<and> from_utf8_ok bs' | _ \<Rightarrow> False)
      else if 0xF0 \<le> b \<and> b \<le> 0xF4 then
        (case bs of c # d # e # bs' \<Rightarrow>
           utf8_second4 b c \<and> utf8_cont d \<and> utf8_cont e \<and> from_utf8_ok bs' | _ \<Rightarrow> False)
      else False)"

text \<open>The bytes of an ASCII literal.\<close>

definition ascii :: "string \<Rightarrow> bytes" where
  "ascii s = map of_char s"

text \<open>The \<^verbatim>\<open>{:02X}\<close> and \<^verbatim>\<open>{:04X}\<close> renderings: \<open>k\<close> upper-case hexadecimal digits, zero-padded.\<close>

definition hex_digit :: "nat \<Rightarrow> char" where
  "hex_digit d = ''0123456789ABCDEF'' ! (d mod 16)"

primrec hex_pad :: "nat \<Rightarrow> nat \<Rightarrow> string" where
  "hex_pad 0 n = []"
| "hex_pad (Suc k) n = hex_pad k (n div 16) @ [hex_digit n]"

lemma length_hex_pad [simp]: "length (hex_pad k n) = k"
  by (induction k arbitrary: n) auto

lemma from_utf8_ok_ascii: "(\<And>b. b \<in> set bs \<Longrightarrow> b < 0x80) \<Longrightarrow> from_utf8_ok bs"
  by (induction bs) auto

section \<open>Text\<close>

text \<open>ASCII classes, \<^verbatim>\<open>str::split\<close> at one ASCII character, and decimal integers.\<close>

definition is_ascii_digit :: "u8 \<Rightarrow> bool" where
  "is_ascii_digit b \<longleftrightarrow> 48 \<le> b \<and> b \<le> 57"

definition is_ascii_alphabetic :: "u8 \<Rightarrow> bool" where
  "is_ascii_alphabetic b \<longleftrightarrow> 65 \<le> b \<and> b \<le> 90 \<or> 97 \<le> b \<and> b \<le> 122"

definition is_ascii_alphanumeric :: "u8 \<Rightarrow> bool" where
  "is_ascii_alphanumeric b \<longleftrightarrow> is_ascii_alphabetic b \<or> is_ascii_digit b"

primrec split_on :: "'a \<Rightarrow> 'a list \<Rightarrow> 'a list list" where
  "split_on c [] = [[]]"
| "split_on c (b # bs) =
     (if b = c then [] # split_on c bs
      else case split_on c bs of [] \<Rightarrow> [[b]] | piece # pieces \<Rightarrow> (b # piece) # pieces)"

definition strip_prefix :: "'a \<Rightarrow> 'a list \<Rightarrow> 'a list option" where
  "strip_prefix c bs = (case bs of b # rest \<Rightarrow> if b = c then Some rest else None | [] \<Rightarrow> None)"

definition strip_suffix :: "'a \<Rightarrow> 'a list \<Rightarrow> 'a list option" where
  "strip_suffix c bs = (if bs \<noteq> [] \<and> last bs = c then Some (butlast bs) else None)"

definition parse_dec :: "bytes \<Rightarrow> nat" where
  "parse_dec bs = foldl (\<lambda>acc b. acc * 10 + unat (b - 48)) 0 bs"

text \<open>\<^verbatim>\<open>str::parse::<u32>\<close> on a non-empty string of digits.\<close>

definition parse_u32 :: "bytes \<Rightarrow> u32 option" where
  "parse_u32 bs = u32_try_from (parse_dec bs)"

fun dec_digits :: "nat \<Rightarrow> bytes" where
  "dec_digits n = (if n < 10 then [48 + of_nat n] else dec_digits (n div 10) @ [48 + of_nat (n mod 10)])"

declare dec_digits.simps [simp del]

lemma split_on_not_in: "c \<notin> set bs \<Longrightarrow> split_on c bs = [bs]"
  by (induction bs) auto

lemma split_on_append: "c \<notin> set a \<Longrightarrow> split_on c (a @ c # b) = a # split_on c b"
  by (induction a) auto

lemma split_on_not_Nil [simp]: "split_on c bs \<noteq> []"
  by (induction bs) (auto split: list.splits)

lemma split_on_pieces: "p \<in> set (split_on c bs) \<Longrightarrow> set p \<subseteq> set bs - {c}"
  by (induction bs arbitrary: p) (auto split: list.splits if_splits, (fastforce+)?)

fun join_with :: "'a \<Rightarrow> 'a list list \<Rightarrow> 'a list" where
  "join_with c [] = []"
| "join_with c [p] = p"
| "join_with c (p # q # ps) = p @ c # join_with c (q # ps)"

lemma split_join:
  "ps \<noteq> [] \<Longrightarrow> (\<And>p. p \<in> set ps \<Longrightarrow> c \<notin> set p) \<Longrightarrow> split_on c (join_with c ps) = ps"
  by (induction c ps rule: join_with.induct) (auto simp: split_on_not_in split_on_append)

lemma join_split [simp]: "join_with c (split_on c bs) = bs"
proof (induction bs)
  case (Cons b bs)
  show ?case
    using Cons by (cases "split_on c bs"; cases "tl (split_on c bs)") auto
qed simp

lemma digit_byte:
  assumes "n < 10"
  shows "is_ascii_digit (48 + of_nat n)" and "unat ((48 + of_nat n :: u8) - 48) = n"
proof -
  have "n \<in> {0..9}" using assms by auto
  then have "n = 0 \<or> n = 1 \<or> n = 2 \<or> n = 3 \<or> n = 4 \<or> n = 5 \<or> n = 6 \<or> n = 7 \<or> n = 8 \<or> n = 9"
    by auto
  then show "is_ascii_digit (48 + of_nat n)" by (elim disjE) (simp_all add: is_ascii_digit_def)
  show "unat ((48 + of_nat n :: u8) - 48) = n"
    using assms by (simp add: unat_of_nat_small)
qed

lemma dec_digits_digits: "b \<in> set (dec_digits n) \<Longrightarrow> is_ascii_digit b"
  by (induction n rule: dec_digits.induct)
    (subst (asm) dec_digits.simps, auto simp: digit_byte split: if_splits)

lemma dec_digits_not_Nil [simp]: "dec_digits n \<noteq> []"
  by (subst dec_digits.simps) simp

lemma parse_dec_digits [simp]: "parse_dec (dec_digits n) = n"
proof (induction n rule: dec_digits.induct)
  case (1 n)
  have "n mod 10 < 10" by simp
  then have "n mod 10 < 256" by (rule order.strict_trans) simp
  with 1 show ?case
    by (subst dec_digits.simps) (auto simp: parse_dec_def unat_of_nat_small)
qed

lemma parse_u32_digits [simp]: "parse_u32 (dec_digits (unat v)) = Some v"
  by (simp add: parse_u32_def u32_try_from_def)

section \<open>Time\<close>

text \<open>
  A \<^verbatim>\<open>Duration\<close> is a number of nanoseconds, at most \<^verbatim>\<open>Duration::MAX\<close> (64-bit seconds plus
  999999999 ns). An \<^verbatim>\<open>Instant\<close> is a number of nanoseconds of the monotonic clock, whose
  representation holds 63-bit seconds; \<^verbatim>\<open>checked_add\<close> fails past it.
\<close>

type_synonym duration = nat
type_synonym instant = nat

definition duration_max :: duration where
  "duration_max = (2 ^ 64 - 1) * 1000000000 + 999999999"

definition instant_max :: instant where
  "instant_max = (2 ^ 63 - 1) * 1000000000 + 999999999"

definition from_nanos :: "nat \<Rightarrow> duration" where
  "from_nanos n = n"

definition from_micros :: "nat \<Rightarrow> duration" where
  "from_micros n = n * 1000"

definition from_millis :: "nat \<Rightarrow> duration" where
  "from_millis n = n * 1000000"

definition from_secs :: "nat \<Rightarrow> duration" where
  "from_secs n = n * 1000000000"

definition as_micros :: "duration \<Rightarrow> nat" where
  "as_micros d = d div 1000"

definition duration_checked_mul :: "duration \<Rightarrow> u32 \<Rightarrow> duration option" where
  "duration_checked_mul d n = (if d * unat n \<le> duration_max then Some (d * unat n) else None)"

definition duration_checked_div :: "duration \<Rightarrow> u32 \<Rightarrow> duration option" where
  "duration_checked_div d n = (if n = 0 then None else Some (d div unat n))"

definition instant_checked_add :: "instant \<Rightarrow> duration \<Rightarrow> instant option" where
  "instant_checked_add i d = (if i + d \<le> instant_max then Some (i + d) else None)"

text \<open>\<^verbatim>\<open>saturating_duration_since\<close> is the truncating subtraction of \<open>nat\<close>.\<close>

definition saturating_duration_since :: "instant \<Rightarrow> instant \<Rightarrow> duration" where
  "saturating_duration_since i j = i - j"

end
