(* ===== verification/Wire.thy ===== *)
theory Wire
  imports Prelude
begin

text \<open>
  The checked cursor and the append-only writer of \<^verbatim>\<open>crates/enip/src/wire.rs\<close>, with the decode
  error of \<^verbatim>\<open>crates/enip/src/error.rs\<close>. A reading operation takes the cursor and returns the
  error or the pair of the value and the advanced cursor. The interface the decoders rely on is
  the pair of locales \<open>wire_item\<close> and \<open>wire_item_exact\<close>: a reader that undoes a writer, and a
  reader that accepts nothing but written bytes.
\<close>

section \<open>Errors\<close>

datatype wire_error =
    Truncated (needed: nat) (remaining: nat) string
  | Malformed string string
  | Overflow string
  | InvalidUtf8 string

section \<open>The cursor\<close>

record wire_reader =
  rd_buf :: bytes
  rd_pos :: nat
  rd_context :: string

type_synonym 'a decoder = "wire_reader \<Rightarrow> wire_error + ('a \<times> wire_reader)"

definition r_new :: "bytes \<Rightarrow> wire_reader" where
  "r_new buf = \<lparr>rd_buf = buf, rd_pos = 0, rd_context = ''wire''\<rparr>"

definition r_with_context :: "bytes \<Rightarrow> string \<Rightarrow> wire_reader" where
  "r_with_context buf c = \<lparr>rd_buf = buf, rd_pos = 0, rd_context = c\<rparr>"

definition r_at :: "string \<Rightarrow> wire_reader \<Rightarrow> wire_reader" where
  "r_at c r = r\<lparr>rd_context := c\<rparr>"

definition r_remaining :: "wire_reader \<Rightarrow> nat" where
  "r_remaining r = length (rd_buf r) - rd_pos r"

definition r_is_empty :: "wire_reader \<Rightarrow> bool" where
  "r_is_empty r \<longleftrightarrow> r_remaining r = 0"

definition r_expect_end :: "wire_reader \<Rightarrow> wire_error + unit" where
  "r_expect_end r =
     (if r_remaining r = 0 then Inr ()
      else Inl (Malformed (rd_context r) ''trailing bytes after expected end''))"

text \<open>\<^verbatim>\<open>buf.get(a..b)\<close>: \<open>None\<close> unless \<open>a \<le> b \<le> len\<close>.\<close>

definition slice_get :: "bytes \<Rightarrow> nat \<Rightarrow> nat \<Rightarrow> bytes option" where
  "slice_get buf a b = (if a \<le> b \<and> b \<le> length buf then Some (take (b - a) (drop a buf)) else None)"

definition r_take :: "nat \<Rightarrow> bytes decoder" where
  "r_take n r =
     ok_then (ok_or (checked_add_usize (rd_pos r) n) (Overflow (rd_context r))) (\<lambda>end_pos.
     ok_then (ok_or (slice_get (rd_buf r) (rd_pos r) end_pos)
                    (Truncated n (r_remaining r) (rd_context r))) (\<lambda>slice.
     Inr (slice, r\<lparr>rd_pos := end_pos\<rparr>)))"

definition r_skip :: "nat \<Rightarrow> unit decoder" where
  "r_skip n r = ok_then (r_take n r) (\<lambda>(_, r). Inr ((), r))"

definition r_take_rest :: "wire_reader \<Rightarrow> bytes \<times> wire_reader" where
  "r_take_rest r = (drop (rd_pos r) (rd_buf r), r\<lparr>rd_pos := length (rd_buf r)\<rparr>)"

definition r_peek_u8 :: "wire_reader \<Rightarrow> u8 option" where
  "r_peek_u8 r = (if rd_pos r < length (rd_buf r) then Some (rd_buf r ! rd_pos r) else None)"

text \<open>\<open>r_num n\<close> is \<^verbatim>\<open>T::from_le_bytes(self.take_array::<n>()?)\<close>, \<open>r_num_be n\<close> its big-endian twin.\<close>

definition r_num :: "nat \<Rightarrow> 'a::len word decoder" where
  "r_num n r = ok_then (r_take n r) (\<lambda>(bs, r). Inr (from_le_bytes bs, r))"

definition r_num_be :: "nat \<Rightarrow> 'a::len word decoder" where
  "r_num_be n r = ok_then (r_take n r) (\<lambda>(bs, r). Inr (from_be_bytes bs, r))"

definition r_u8 :: "u8 decoder" where "r_u8 = r_num 1"
definition r_u16 :: "u16 decoder" where "r_u16 = r_num 2"
definition r_u32 :: "u32 decoder" where "r_u32 = r_num 4"
definition r_u64 :: "u64 decoder" where "r_u64 = r_num 8"
definition r_u16_be :: "u16 decoder" where "r_u16_be = r_num_be 2"
definition r_u32_be :: "u32 decoder" where "r_u32_be = r_num_be 4"

definition r_short_string :: "rstr decoder" where
  "r_short_string r =
     ok_then (r_u8 r) (\<lambda>(len, r).
     ok_then (r_take (unat len) r) (\<lambda>(bs, r).
     if from_utf8_ok bs then Inr (bs, r) else Inl (InvalidUtf8 (rd_context r))))"

text \<open>\<open>r_repeat f n\<close> is the loop \<^verbatim>\<open>for _ in 0..n { v.push(f(r)?); }\<close> of the counted decoders.\<close>

primrec r_repeat :: "'a decoder \<Rightarrow> nat \<Rightarrow> 'a list decoder" where
  "r_repeat f 0 r = Inr ([], r)"
| "r_repeat f (Suc n) r =
     ok_then (f r) (\<lambda>(x, r). ok_then (r_repeat f n r) (\<lambda>(xs, r). Inr (x # xs, r)))"

section \<open>The writer\<close>

text \<open>
  A \<^verbatim>\<open>WireWriter\<close> is the bytes written so far; each operation appends.
\<close>

definition w_put_slice :: "bytes \<Rightarrow> bytes \<Rightarrow> bytes" where "w_put_slice bs w = w @ bs"
definition w_u8 :: "u8 \<Rightarrow> bytes \<Rightarrow> bytes" where "w_u8 v w = w @ [v]"
definition w_u16 :: "u16 \<Rightarrow> bytes \<Rightarrow> bytes" where "w_u16 v w = w @ le_bytes 2 v"
definition w_u32 :: "u32 \<Rightarrow> bytes \<Rightarrow> bytes" where "w_u32 v w = w @ le_bytes 4 v"
definition w_u64 :: "u64 \<Rightarrow> bytes \<Rightarrow> bytes" where "w_u64 v w = w @ le_bytes 8 v"
definition w_u16_be :: "u16 \<Rightarrow> bytes \<Rightarrow> bytes" where "w_u16_be v w = w @ be_bytes 2 v"
definition w_u32_be :: "u32 \<Rightarrow> bytes \<Rightarrow> bytes" where "w_u32_be v w = w @ be_bytes 4 v"

lemmas writer_defs [wire_simps] =
  w_put_slice_def w_u8_def w_u16_def w_u32_def w_u64_def w_u16_be_def w_u32_be_def

section \<open>What a cursor sees\<close>

definition wf_reader :: "wire_reader \<Rightarrow> bool" where
  "wf_reader r \<longleftrightarrow> rd_pos r \<le> length (rd_buf r) \<and> length (rd_buf r) \<le> isize_max"

definition r_rest :: "wire_reader \<Rightarrow> bytes" where
  "r_rest r = drop (rd_pos r) (rd_buf r)"

definition r_adv :: "nat \<Rightarrow> wire_reader \<Rightarrow> wire_reader" where
  "r_adv n r = r\<lparr>rd_pos := rd_pos r + n\<rparr>"

lemma wf_new [simp, wf_intros]:
  "length bs \<le> isize_max \<Longrightarrow> wf_reader (r_new bs)"
  "length bs \<le> isize_max \<Longrightarrow> wf_reader (r_with_context bs c)"
  by (simp_all add: wf_reader_def r_new_def r_with_context_def)

lemma wf_at [simp]: "wf_reader (r_at c r) = wf_reader r"
  by (simp add: wf_reader_def r_at_def)

lemma wf_adv [simp, wf_intros]: "wf_reader r \<Longrightarrow> n \<le> length (r_rest r) \<Longrightarrow> wf_reader (r_adv n r)"
  by (auto simp: wf_reader_def r_adv_def r_rest_def)

lemma rest_simps [simp]:
  "r_rest (r_new bs) = bs"
  "r_rest (r_with_context bs c) = bs"
  "r_rest (r_at c r) = r_rest r"
  "r_rest (r_adv n r) = drop n (r_rest r)"
  "r_rest (r\<lparr>rd_pos := length (rd_buf r)\<rparr>) = []"
  by (simp_all add: r_rest_def r_new_def r_with_context_def r_at_def r_adv_def add.commute)

lemma context_simps [simp]:
  "rd_context (r_new bs) = ''wire''"
  "rd_context (r_with_context bs c) = c"
  "rd_context (r_at c r) = c"
  "rd_context (r_adv n r) = rd_context r"
  by (simp_all add: r_new_def r_with_context_def r_at_def r_adv_def)

lemma r_adv_simps [simp]:
  "r_adv 0 r = r"
  "r_adv m (r_adv n r) = r_adv (n + m) r"
  "r_at c (r_adv n r) = r_adv n (r_at c r)"
  "r_at c (r_at d r) = r_at c r"
  by (simp_all add: r_adv_def r_at_def add.assoc)

lemma r_remaining_rest [simp]: "r_remaining r = length (r_rest r)"
  by (simp add: r_remaining_def r_rest_def)

lemma r_take_rest_rest [simp]: "fst (r_take_rest r) = r_rest r"
  by (simp add: r_take_rest_def r_rest_def)

lemma r_take_rest_pair [wire_simps]: "r_take_rest r = (r_rest r, r\<lparr>rd_pos := length (rd_buf r)\<rparr>)"
  by (simp add: r_take_rest_def r_rest_def)

lemma r_peek_rest: "r_peek_u8 r = (case r_rest r of [] \<Rightarrow> None | b # _ \<Rightarrow> Some b)"
  by (auto simp: r_peek_u8_def r_rest_def Cons_nth_drop_Suc [symmetric] split: list.split)

lemma r_expect_end_rest [wire_simps]:
  "r_expect_end r =
     (if r_rest r = [] then Inr ()
      else Inl (Malformed (rd_context r) ''trailing bytes after expected end''))"
  by (simp add: r_expect_end_def)

lemma rest_le_isize: "wf_reader r \<Longrightarrow> length (r_rest r) \<le> isize_max"
  by (auto simp: wf_reader_def r_rest_def)

text \<open>The characteristic equation of the cursor: the whole of its behaviour in terms of what it sees.\<close>

lemma r_take_eq:
  assumes "wf_reader r" and "n \<le> isize_max"
  shows "r_take n r =
    (if n \<le> length (r_rest r) then Inr (take n (r_rest r), r_adv n r)
     else Inl (Truncated n (length (r_rest r)) (rd_context r)))"
proof -
  have "checked_add_usize (rd_pos r) n = Some (rd_pos r + n)"
    using assms usize_bounds(2) [of "rd_pos r" n]
    by (auto simp: checked_add_usize_def wf_reader_def)
  then show ?thesis
    using assms by (auto simp: r_take_def slice_get_def r_rest_def wf_reader_def r_adv_def)
qed

lemma small_le_isize [simp]: "n \<le> 8589934592 \<Longrightarrow> n \<le> isize_max"
  by (simp add: isize_max_def)

lemma unat_le_isize [simp]:
  "unat (w1 :: u8) \<le> isize_max" "unat (w2 :: u16) \<le> isize_max" "unat (w4 :: u32) \<le> isize_max"
  by (rule small_le_isize, rule less_imp_le, rule order.strict_trans2 [OF unat8_less], simp,
      rule small_le_isize, rule less_imp_le, rule order.strict_trans2 [OF unat16_less], simp,
      rule small_le_isize, rule less_imp_le, rule order.strict_trans2 [OF unat32_less], simp)

lemma r_take_Inr:
  assumes "wf_reader r" and "r_take n r = Inr (bs, r')"
  shows "r' = r_adv n r" and "bs = take n (r_rest r)" and "n \<le> length (r_rest r)"
    and "wf_reader r'" and "r_rest r = bs @ r_rest r'"
  using assms
  by (auto simp: r_take_def slice_get_def checked_add_usize_def r_rest_def wf_reader_def r_adv_def
      ok_then_def add.commute split: if_splits)
    (metis append_take_drop_id drop_drop)

lemma r_num_eq:
  assumes "wf_reader r" and "n \<le> isize_max"
  shows "r_num n r =
    (if n \<le> length (r_rest r) then Inr (from_le_bytes (take n (r_rest r)), r_adv n r)
     else Inl (Truncated n (length (r_rest r)) (rd_context r)))"
  using assms by (simp add: r_num_def r_take_eq)

lemma r_num_be_eq:
  assumes "wf_reader r" and "n \<le> isize_max"
  shows "r_num_be n r =
    (if n \<le> length (r_rest r) then Inr (from_be_bytes (take n (r_rest r)), r_adv n r)
     else Inl (Truncated n (length (r_rest r)) (rd_context r)))"
  using assms by (simp add: r_num_be_def r_take_eq)

lemma from_le_single [simp]: "from_le_bytes [b] = (b :: u8)"
  by simp

lemma take_one_hd: "Suc 0 \<le> length xs \<Longrightarrow> take (Suc 0) xs = [hd xs]"
  by (cases xs) auto

lemma r_u8_eq [wire_simps]:
  assumes "wf_reader r"
  shows "r_u8 r = (if 1 \<le> length (r_rest r) then Inr (hd (r_rest r), r_adv 1 r)
     else Inl (Truncated 1 0 (rd_context r)))"
  using assms by (auto simp: r_u8_def r_num_eq take_one_hd not_le)

lemma r_int_eq [wire_simps]:
  assumes "wf_reader r"
  shows "r_u16 r = (if 2 \<le> length (r_rest r) then Inr (from_le_bytes (take 2 (r_rest r)), r_adv 2 r)
     else Inl (Truncated 2 (length (r_rest r)) (rd_context r)))"
    and "r_u32 r = (if 4 \<le> length (r_rest r) then Inr (from_le_bytes (take 4 (r_rest r)), r_adv 4 r)
     else Inl (Truncated 4 (length (r_rest r)) (rd_context r)))"
    and "r_u64 r = (if 8 \<le> length (r_rest r) then Inr (from_le_bytes (take 8 (r_rest r)), r_adv 8 r)
     else Inl (Truncated 8 (length (r_rest r)) (rd_context r)))"
    and "r_u16_be r = (if 2 \<le> length (r_rest r) then Inr (from_be_bytes (take 2 (r_rest r)), r_adv 2 r)
     else Inl (Truncated 2 (length (r_rest r)) (rd_context r)))"
    and "r_u32_be r = (if 4 \<le> length (r_rest r) then Inr (from_be_bytes (take 4 (r_rest r)), r_adv 4 r)
     else Inl (Truncated 4 (length (r_rest r)) (rd_context r)))"
  using assms
  by (simp_all add: r_u16_def r_u32_def r_u64_def r_u16_be_def r_u32_be_def r_num_eq r_num_be_eq)

lemma r_skip_eq [wire_simps]:
  assumes "wf_reader r" and "n \<le> isize_max"
  shows "r_skip n r = (if n \<le> length (r_rest r) then Inr ((), r_adv n r)
     else Inl (Truncated n (length (r_rest r)) (rd_context r)))"
  using assms by (simp add: r_skip_def r_take_eq)

section \<open>The interface of the decoders\<close>

text \<open>
  \<open>reads f r x t\<close>: on the cursor \<open>r\<close> the decoder \<open>f\<close> succeeds with \<open>x\<close> and leaves the bytes \<open>t\<close>.
\<close>

definition reads :: "'a decoder \<Rightarrow> wire_reader \<Rightarrow> 'a \<Rightarrow> bytes \<Rightarrow> bool" where
  "reads f r x t \<longleftrightarrow> (\<exists>r'. f r = Inr (x, r') \<and> wf_reader r' \<and> r_rest r' = t)"

lemma readsI: "f r = Inr (x, r') \<Longrightarrow> wf_reader r' \<Longrightarrow> r_rest r' = t \<Longrightarrow> reads f r x t"
  by (auto simp: reads_def)

lemma readsE:
  assumes "reads f r x t"
  obtains r' where "f r = Inr (x, r')" "wf_reader r'" "r_rest r' = t"
  using assms by (auto simp: reads_def)

text \<open>A decoder only moves forward inside its buffer.\<close>

locale wire_decoder =
  fixes get :: "'a decoder"
  assumes consumes: "wf_reader r \<Longrightarrow> get r = Inr (x, r') \<Longrightarrow>
    wf_reader r' \<and> (\<exists>bs. r_rest r = bs @ r_rest r')"
begin

lemma repeat_consumes:
  "wf_reader r \<Longrightarrow> r_repeat get n r = Inr (xs, r') \<Longrightarrow>
     wf_reader r' \<and> length xs = n \<and> (\<exists>bs. r_rest r = bs @ r_rest r')"
proof (induction n arbitrary: r xs)
  case (Suc n)
  from Suc.prems(2) obtain x r1 ys where step: "get r = Inr (x, r1)"
    and rest: "r_repeat get n r1 = Inr (ys, r')" and xs: "xs = x # ys"
    by (auto simp: ok_then_Inr_iff)
  from consumes [OF Suc.prems(1) step] obtain bs where "wf_reader r1" "r_rest r = bs @ r_rest r1"
    by auto
  moreover from Suc.IH [OF this(1) rest] obtain cs
    where "wf_reader r'" "length ys = n" "r_rest r1 = cs @ r_rest r'" by auto
  ultimately show ?case using xs by simp
qed auto

lemma repeat_shrinks:
  "wf_reader r \<Longrightarrow> r_repeat get n r = Inr (xs, r') \<Longrightarrow> length (r_rest r') \<le> length (r_rest r)"
  by (drule (1) repeat_consumes) auto

end

text \<open>A reader that undoes a writer on the valid values, whatever follows.\<close>

locale wire_item =
  fixes put :: "'a \<Rightarrow> bytes"
    and get :: "'a decoder"
    and valid :: "'a \<Rightarrow> bool"
  assumes read_write: "wf_reader r \<Longrightarrow> valid x \<Longrightarrow> r_rest r = put x @ t \<Longrightarrow> reads get r x t"
begin

lemma repeat_read_write:
  "wf_reader r \<Longrightarrow> list_all valid xs \<Longrightarrow> r_rest r = concat (map put xs) @ t \<Longrightarrow>
     reads (r_repeat get (length xs)) r xs t"
proof (induction xs arbitrary: r)
  case (Cons x xs)
  then obtain r1 where 1: "get r = Inr (x, r1)" "wf_reader r1" "r_rest r1 = concat (map put xs) @ t"
    using read_write [of r x "concat (map put xs) @ t"] by (auto elim: readsE)
  with Cons obtain r2 where "r_repeat get (length xs) r1 = Inr (xs, r2)" "wf_reader r2" "r_rest r2 = t"
    by (auto elim: readsE)
  with 1 show ?case by (auto intro: readsI)
qed (auto intro: readsI)

lemma prefix_free:
  assumes "valid x" "valid y" "put x @ s = put y @ t" "length (put x @ s) \<le> isize_max"
  shows "x = y \<and> s = t"
proof -
  let ?r = "r_new (put x @ s)"
  have "reads get ?r x s" by (rule read_write) (use assms in auto)
  moreover have "reads get ?r y t" by (rule read_write) (use assms in auto)
  ultimately show ?thesis by (auto simp: reads_def)
qed

lemma concat_injective:
  assumes "list_all valid xs" "list_all valid ys" "length xs = length ys"
    and "concat (map put xs) = concat (map put ys)"
    and "length (concat (map put xs)) \<le> isize_max"
  shows "xs = ys"
proof -
  let ?r = "r_new (concat (map put xs))"
  have "reads (r_repeat get (length xs)) ?r xs []"
    by (rule repeat_read_write) (use assms in auto)
  moreover have "reads (r_repeat get (length xs)) ?r ys []"
    unfolding assms(3) by (rule repeat_read_write) (use assms in auto)
  ultimately show ?thesis by (auto simp: reads_def)
qed

lemma stream_injective:
  assumes "\<And>x. valid x \<Longrightarrow> put x \<noteq> []"
  shows "list_all valid xs \<Longrightarrow> list_all valid ys \<Longrightarrow>
    concat (map put xs) = concat (map put ys) \<Longrightarrow> length (concat (map put xs)) \<le> isize_max \<Longrightarrow> xs = ys"
proof (induction xs arbitrary: ys)
  case Nil
  then show ?case using assms by (cases ys) auto
next
  case (Cons x xs)
  then obtain y zs where ys: "ys = y # zs" using assms by (cases ys) auto
  with Cons.prems have "x = y \<and> concat (map put xs) = concat (map put zs)"
    by (intro prefix_free) auto
  with Cons ys show ?case by auto
qed

end

text \<open>A reader that accepts nothing but written bytes.\<close>

locale wire_item_exact = wire_item +
  assumes write_read: "wf_reader r \<Longrightarrow> get r = Inr (x, r') \<Longrightarrow>
    valid x \<and> wf_reader r' \<and> r_rest r = put x @ r_rest r'"
begin

lemma repeat_write_read:
  "wf_reader r \<Longrightarrow> r_repeat get n r = Inr (xs, r') \<Longrightarrow>
     list_all valid xs \<and> length xs = n \<and> wf_reader r' \<and> r_rest r = concat (map put xs) @ r_rest r'"
proof (induction n arbitrary: r xs)
  case (Suc n)
  from Suc.prems(2) obtain x r1 ys where step: "get r = Inr (x, r1)"
    and rest: "r_repeat get n r1 = Inr (ys, r')" and xs: "xs = x # ys"
    by (auto simp: ok_then_Inr_iff)
  note 1 = write_read [OF Suc.prems(1) step]
  then have "wf_reader r1" by simp
  from Suc.IH [OF this rest] 1 xs show ?case by simp
qed auto

lemma reads_iff:
  assumes "wf_reader r"
  shows "reads get r x t \<longleftrightarrow> valid x \<and> r_rest r = put x @ t"
  using assms read_write write_read by (auto simp: reads_def; blast)

end

sublocale wire_item_exact \<subseteq> wire_decoder get
  by unfold_locales (use write_read in blast)

text \<open>The primitive reads, as instances of the interface.\<close>

lemma read_primitive:
  assumes "wf_reader r"
  shows "r_rest r = [b] @ t \<Longrightarrow> reads r_u8 r b t"
    and "r_rest r = le_bytes 2 v2 @ t \<Longrightarrow> reads r_u16 r v2 t"
    and "r_rest r = le_bytes 4 v4 @ t \<Longrightarrow> reads r_u32 r v4 t"
    and "r_rest r = le_bytes 8 v8 @ t \<Longrightarrow> reads r_u64 r v8 t"
    and "r_rest r = be_bytes 2 v2 @ t \<Longrightarrow> reads r_u16_be r v2 t"
    and "r_rest r = be_bytes 4 v4 @ t \<Longrightarrow> reads r_u32_be r v4 t"
  using assms by (auto simp: wire_simps intro!: readsI)

lemma r_u8_exact:
  assumes "wf_reader r" and "r_u8 r = Inr (v, r')"
  shows "wf_reader r' \<and> r_rest r = v # r_rest r'"
  using assms by (cases "r_rest r") (auto simp: wire_simps)

lemma r_int_exact:
  assumes "wf_reader r"
  shows "r_u16 r = Inr (v2, r') \<Longrightarrow> wf_reader r' \<and> r_rest r = le_bytes 2 v2 @ r_rest r'"
    and "r_u32 r = Inr (v4, r') \<Longrightarrow> wf_reader r' \<and> r_rest r = le_bytes 4 v4 @ r_rest r'"
    and "r_u64 r = Inr (v8, r') \<Longrightarrow> wf_reader r' \<and> r_rest r = le_bytes 8 v8 @ r_rest r'"
    and "r_u16_be r = Inr (v2, r') \<Longrightarrow> wf_reader r' \<and> r_rest r = be_bytes 2 v2 @ r_rest r'"
    and "r_u32_be r = Inr (v4, r') \<Longrightarrow> wf_reader r' \<and> r_rest r = be_bytes 4 v4 @ r_rest r'"
  using assms by (auto simp: r_int_eq le_back be_back split: if_splits)

lemma r_take_exact:
  assumes "wf_reader r" and "r_take n r = Inr (bs, r')"
  shows "wf_reader r' \<and> length bs = n \<and> r_rest r = bs @ r_rest r'"
proof -
  have "length bs = n"
    unfolding r_take_Inr(2) [OF assms] using r_take_Inr(3) [OF assms] by simp
  with r_take_Inr(4,5) [OF assms] show ?thesis by blast
qed

text \<open>Destruction rules: a successful read splits what the cursor sees.\<close>

lemmas exactD = r_u8_exact [rotated] r_int_exact [rotated] r_take_exact [rotated]

interpretation w8: wire_item_exact "\<lambda>v. [v]" r_u8 "\<lambda>_. True"
  by (unfold_locales; (rule read_primitive | drule (1) r_u8_exact); simp)

interpretation w16: wire_item_exact "le_bytes 2" r_u16 "\<lambda>_. True"
  by (unfold_locales; (rule read_primitive | drule (1) r_int_exact); simp)

interpretation w32: wire_item_exact "le_bytes 4" r_u32 "\<lambda>_. True"
  by (unfold_locales; (rule read_primitive | drule (1) r_int_exact); simp)

interpretation w64: wire_item_exact "le_bytes 8" r_u64 "\<lambda>_. True"
  by (unfold_locales; (rule read_primitive | drule (1) r_int_exact); simp)

interpretation w16be: wire_item_exact "be_bytes 2" r_u16_be "\<lambda>_. True"
  by (unfold_locales; (rule read_primitive | drule (1) r_int_exact); simp)

interpretation w32be: wire_item_exact "be_bytes 4" r_u32_be "\<lambda>_. True"
  by (unfold_locales; (rule read_primitive | drule (1) r_int_exact); simp)

end
