(* ===== verification/Encap.thy ===== *)
theory Encap
  imports Wire
begin

text \<open>
  The encapsulation layer, \<^verbatim>\<open>crates/enip/src/encap/mod.rs\<close>: the command and status tables, the
  24-byte header and the frame. The two tables are instances of the locale \<open>code_table\<close>, the
  contract every total wire enumeration of the crate obeys; the header is an instance of
  \<open>wire_item_exact\<close>.
\<close>

section \<open>Total wire enumerations\<close>

text \<open>
  \<^verbatim>\<open>from_code\<close> maps every code to a value that \<^verbatim>\<open>code\<close> maps back. A value is canonical when it is
  the one \<^verbatim>\<open>from_code\<close> produces; an \<^verbatim>\<open>Unknown\<close> carrying a known code is the only other kind.
\<close>

locale code_table =
  fixes from_code :: "'c \<Rightarrow> 'a"
    and code :: "'a \<Rightarrow> 'c"
  assumes code_from_code [simp]: "code (from_code c) = c"
begin

lemma from_code_inj: "from_code c = from_code d \<longleftrightarrow> c = d"
  using code_from_code by metis

lemma canonical_iff: "from_code (code x) = x \<longleftrightarrow> x \<in> range from_code"
  by (metis code_from_code rangeE rangeI)

lemma code_inj_on: "inj_on code (range from_code)"
  by (auto intro: inj_onI)

end

section \<open>Commands and statuses\<close>

definition HEADER_LEN :: nat where "HEADER_LEN = 24"
definition MAX_DATA_LEN :: nat where "MAX_DATA_LEN = 65535 - HEADER_LEN"
definition DEFAULT_TCP_PORT :: u16 where "DEFAULT_TCP_PORT = 44818"
definition DEFAULT_UDP_PORT :: u16 where "DEFAULT_UDP_PORT = 2222"
definition PROTOCOL_VERSION :: u16 where "PROTOCOL_VERSION = 1"

datatype command =
    Nop | ListServices | ListIdentity | ListInterfaces | RegisterSession | UnRegisterSession
  | SendRRData | SendUnitData | CommandUnknown u16

definition command_from_code :: "u16 \<Rightarrow> command" where
  "command_from_code c =
     (if c = 0x0000 then Nop
      else if c = 0x0004 then ListServices
      else if c = 0x0063 then ListIdentity
      else if c = 0x0064 then ListInterfaces
      else if c = 0x0065 then RegisterSession
      else if c = 0x0066 then UnRegisterSession
      else if c = 0x006F then SendRRData
      else if c = 0x0070 then SendUnitData
      else CommandUnknown c)"

fun command_code :: "command \<Rightarrow> u16" where
  "command_code Nop = 0x0000"
| "command_code ListServices = 0x0004"
| "command_code ListIdentity = 0x0063"
| "command_code ListInterfaces = 0x0064"
| "command_code RegisterSession = 0x0065"
| "command_code UnRegisterSession = 0x0066"
| "command_code SendRRData = 0x006F"
| "command_code SendUnitData = 0x0070"
| "command_code (CommandUnknown v) = v"

datatype encap_status =
    EncapSuccess | UnsupportedCommand | InsufficientMemory | IncorrectData
  | InvalidSessionHandle | InvalidLength | UnsupportedProtocolVersion | EncapUnknown u32

definition encap_status_from_code :: "u32 \<Rightarrow> encap_status" where
  "encap_status_from_code c =
     (if c = 0x0000 then EncapSuccess
      else if c = 0x0001 then UnsupportedCommand
      else if c = 0x0002 then InsufficientMemory
      else if c = 0x0003 then IncorrectData
      else if c = 0x0064 then InvalidSessionHandle
      else if c = 0x0065 then InvalidLength
      else if c = 0x0069 then UnsupportedProtocolVersion
      else EncapUnknown c)"

fun encap_status_code :: "encap_status \<Rightarrow> u32" where
  "encap_status_code EncapSuccess = 0x0000"
| "encap_status_code UnsupportedCommand = 0x0001"
| "encap_status_code InsufficientMemory = 0x0002"
| "encap_status_code IncorrectData = 0x0003"
| "encap_status_code InvalidSessionHandle = 0x0064"
| "encap_status_code InvalidLength = 0x0065"
| "encap_status_code UnsupportedProtocolVersion = 0x0069"
| "encap_status_code (EncapUnknown v) = v"

definition encap_status_is_ok :: "encap_status \<Rightarrow> bool" where
  "encap_status_is_ok s \<longleftrightarrow> s = EncapSuccess"

definition poisons_session :: "encap_status \<Rightarrow> bool" where
  "poisons_session s \<longleftrightarrow> s = InvalidSessionHandle"

interpretation command_table: code_table command_from_code command_code
  by unfold_locales (simp add: command_from_code_def)

interpretation encap_status_table: code_table encap_status_from_code encap_status_code
  by unfold_locales (simp add: encap_status_from_code_def)

lemma command_canonical_iff:
  "command_from_code (command_code c) = c \<longleftrightarrow>
     (\<forall>v. c = CommandUnknown v \<longrightarrow> v \<notin> {0, 4, 0x63, 0x64, 0x65, 0x66, 0x6F, 0x70})"
  by (cases c) (auto simp: command_from_code_def)

lemma encap_status_canonical_iff:
  "encap_status_from_code (encap_status_code s) = s \<longleftrightarrow>
     (\<forall>v. s = EncapUnknown v \<longrightarrow> v \<notin> {0, 1, 2, 3, 0x64, 0x65, 0x69})"
  by (cases s) (auto simp: encap_status_from_code_def)

section \<open>The header\<close>

record encap_header =
  eh_command :: command
  eh_length :: u16
  eh_session_handle :: u32
  eh_status :: encap_status
  eh_sender_context :: bytes
  eh_options :: u32

definition encap_header_request :: "command \<Rightarrow> u16 \<Rightarrow> u32 \<Rightarrow> bytes \<Rightarrow> encap_header" where
  "encap_header_request command data_len session_handle sender_context =
     \<lparr>eh_command = command, eh_length = data_len, eh_session_handle = session_handle,
      eh_status = EncapSuccess, eh_sender_context = sender_context, eh_options = 0\<rparr>"

definition encap_header_decode_from :: "encap_header decoder" where
  "encap_header_decode_from r =
     ok_then (r_u16 (r_at ''encap header'' r)) (\<lambda>(command, r).
     ok_then (r_u16 r) (\<lambda>(length, r).
     ok_then (r_u32 r) (\<lambda>(session_handle, r).
     ok_then (r_u32 r) (\<lambda>(status, r).
     ok_then (r_take 8 r) (\<lambda>(sender_context, r).
     ok_then (r_u32 r) (\<lambda>(options, r).
     Inr (\<lparr>eh_command = command_from_code command, eh_length = length,
           eh_session_handle = session_handle, eh_status = encap_status_from_code status,
           eh_sender_context = sender_context, eh_options = options\<rparr>, r)))))))"

definition encap_header_decode :: "bytes \<Rightarrow> wire_error + encap_header" where
  "encap_header_decode buf =
     ok_then (encap_header_decode_from (r_with_context buf ''encap header'')) (\<lambda>(h, _). Inr h)"

definition encap_header_write :: "encap_header \<Rightarrow> bytes \<Rightarrow> bytes" where
  "encap_header_write h w =
     w_u32 (eh_options h)
      (w_put_slice (eh_sender_context h)
       (w_u32 (encap_status_code (eh_status h))
        (w_u32 (eh_session_handle h)
         (w_u16 (eh_length h)
          (w_u16 (command_code (eh_command h)) w)))))"

definition wf_encap_header :: "encap_header \<Rightarrow> bool" where
  "wf_encap_header h \<longleftrightarrow>
     command_from_code (command_code (eh_command h)) = eh_command h \<and>
     encap_status_from_code (encap_status_code (eh_status h)) = eh_status h \<and>
     length (eh_sender_context h) = 8"

lemma encap_header_write_append: "encap_header_write h w = w @ encap_header_write h []"
  by (simp add: encap_header_write_def wire_simps)

lemma length_encap_header_write [simp]:
  "length (eh_sender_context h) = 8 \<Longrightarrow> length (encap_header_write h w) = length w + HEADER_LEN"
  by (simp add: encap_header_write_def wire_simps HEADER_LEN_def)

lemma header_read_write:
  assumes "wf_reader r" "wf_encap_header h" "r_rest r = encap_header_write h [] @ t"
  shows "encap_header_decode_from r = Inr (h, r_adv HEADER_LEN (r_at ''encap header'' r))"
  using assms
  by (simp add: encap_header_decode_from_def encap_header_write_def wire_simps wf_encap_header_def
      r_take_eq HEADER_LEN_def)

lemma header_write_read:
  assumes "wf_reader r" "encap_header_decode_from r = Inr (h, r')"
  shows "wf_encap_header h \<and> wf_reader r' \<and> r_rest r = encap_header_write h [] @ r_rest r'"
  using assms
  by (auto simp: encap_header_decode_from_def encap_header_write_def writer_defs wf_encap_header_def
      ok_then_Inr_iff dest!: exactD)

interpretation header: wire_item_exact "\<lambda>h. encap_header_write h []" encap_header_decode_from wf_encap_header
  by unfold_locales (auto simp: header_read_write HEADER_LEN_def wf_encap_header_def
      encap_header_write_def writer_defs intro!: readsI dest!: header_write_read [rotated])

section \<open>The frame\<close>

record encap_frame =
  ef_header :: encap_header
  ef_data :: bytes

definition encap_frame_new :: "encap_header \<Rightarrow> bytes \<Rightarrow> encap_frame" where
  "encap_frame_new h data =
     \<lparr>ef_header = h\<lparr>eh_length := (case u16_try_from (length data) of Some n \<Rightarrow> n | None \<Rightarrow> - 1)\<rparr>,
      ef_data = data\<rparr>"

definition encap_frame_encode :: "encap_frame \<Rightarrow> wire_error + bytes" where
  "encap_frame_encode f =
     (if length (ef_data f) > MAX_DATA_LEN then Inl (Overflow ''encap frame'')
      else
        let header = (ef_header f)\<lparr>eh_length := of_nat (length (ef_data f))\<rparr>
        in Inr (w_put_slice (ef_data f) (encap_header_write header [])))"

definition encap_frame_decode :: "bytes \<Rightarrow> wire_error + encap_frame" where
  "encap_frame_decode buf =
     ok_then (encap_header_decode_from (r_with_context buf ''encap frame'')) (\<lambda>(header, r).
     ok_then (r_take (unat (eh_length header)) r) (\<lambda>(data, r).
     ok_then (r_expect_end r) (\<lambda>_.
     Inr \<lparr>ef_header = header, ef_data = data\<rparr>)))"

text \<open>The frames the layer exchanges: a well-formed header whose length is that of the data.\<close>

definition wf_encap_frame :: "encap_frame \<Rightarrow> bool" where
  "wf_encap_frame f \<longleftrightarrow>
     wf_encap_header (ef_header f) \<and> eh_length (ef_header f) = of_nat (length (ef_data f)) \<and>
     length (ef_data f) \<le> MAX_DATA_LEN"

lemma MAX_DATA_LEN_eq [simp]: "MAX_DATA_LEN = 65511"
  by (simp add: MAX_DATA_LEN_def HEADER_LEN_def)

lemma wf_encap_frame_new:
  assumes "wf_encap_header h" and "length data \<le> MAX_DATA_LEN"
  shows "wf_encap_frame (encap_frame_new h data)"
  using assms by (simp add: wf_encap_frame_def encap_frame_new_def wf_encap_header_def u16_try_from_def)

lemma frame_encode_wf:
  assumes "wf_encap_frame f"
  shows "encap_frame_encode f = Inr (encap_header_write (ef_header f) [] @ ef_data f)"
proof -
  have "(ef_header f)\<lparr>eh_length := of_nat (length (ef_data f))\<rparr> = ef_header f"
    using assms unfolding wf_encap_frame_def
    by (metis encap_header.surjective encap_header.update_convs(2))
  moreover have "\<not> length (ef_data f) > MAX_DATA_LEN"
    using assms by (simp add: wf_encap_frame_def)
  ultimately show ?thesis by (simp add: encap_frame_encode_def Let_def wire_simps)
qed

lemma length_frame_encode:
  assumes "wf_encap_frame f" and "encap_frame_encode f = Inr bs"
  shows "length bs = HEADER_LEN + length (ef_data f)"
  using assms by (auto simp: frame_encode_wf wf_encap_frame_def wf_encap_header_def)

lemma frame_decode_append:
  assumes f: "wf_encap_frame f"
  shows "encap_frame_decode (encap_header_write (ef_header f) [] @ ef_data f) = Inr f"
proof -
  let ?b = "encap_header_write (ef_header f) [] @ ef_data f"
  let ?r = "r_with_context ?b ''encap frame''"
  have len: "length (encap_header_write (ef_header f) []) = 24" "length (ef_data f) \<le> 65511"
    using f by (simp_all add: wf_encap_frame_def wf_encap_header_def HEADER_LEN_def)
  then have wf: "wf_reader ?r" by (intro wf_intros) simp
  have u: "unat (eh_length (ef_header f)) = length (ef_data f)"
    using f by (simp add: wf_encap_frame_def unat_of_nat_small)
  have h: "encap_header_decode_from ?r = Inr (ef_header f, r_adv 24 (r_at ''encap header'' ?r))"
    using header_read_write [OF wf, of "ef_header f" "ef_data f"] f
    by (simp add: wf_encap_frame_def HEADER_LEN_def)
  show ?thesis
    unfolding encap_frame_decode_def h using len wf u by (simp add: r_take_eq wire_simps)
qed

lemma frame_decode_exact:
  assumes "length buf \<le> isize_max" and "encap_frame_decode buf = Inr f"
  shows "wf_encap_header (ef_header f) \<and> eh_length (ef_header f) = of_nat (length (ef_data f)) \<and>
    length (ef_data f) < 65536 \<and> buf = encap_header_write (ef_header f) [] @ ef_data f"
proof -
  let ?r = "r_with_context buf ''encap frame''"
  from assms(2) obtain h r1 d r2 where h: "encap_header_decode_from ?r = Inr (h, r1)"
    and d: "r_take (unat (eh_length h)) r1 = Inr (d, r2)" and e: "r_expect_end r2 = Inr ()"
    and f: "f = \<lparr>ef_header = h, ef_data = d\<rparr>"
    by (auto simp: encap_frame_decode_def ok_then_Inr_iff)
  have wf: "wf_reader ?r" using assms(1) by simp
  note 1 = header_write_read [OF wf h]
  then have "wf_reader r1" by simp
  note 2 = r_take_exact [OF this d]
  then have "unat (eh_length h) = length d" by simp
  then have "eh_length h = of_nat (length d)" "length d < 65536"
    by (rule word_of_natI, metis unat16_less)
  moreover from e have "r_rest r2 = []" by (simp add: wire_simps split: if_splits)
  ultimately show ?thesis using 1 2 f by simp
qed

section \<open>Properties\<close>

text \<open>
  Frames are decoded exactly: a buffer decodes to a frame within the protocol's data limit if
  and only if the frame is well formed (canonical command and status, eight-byte context, length
  field equal to the data length) and encoding it gives back that very buffer.
\<close>

theorem encap_frame_decode_iff:
  assumes "length buf \<le> isize_max"
  shows "encap_frame_decode buf = Inr f \<and> length (ef_data f) \<le> MAX_DATA_LEN \<longleftrightarrow>
    wf_encap_frame f \<and> encap_frame_encode f = Inr buf"
proof
  assume "encap_frame_decode buf = Inr f \<and> length (ef_data f) \<le> MAX_DATA_LEN"
  then show "wf_encap_frame f \<and> encap_frame_encode f = Inr buf"
    using frame_decode_exact [OF assms] frame_encode_wf [of f] by (auto simp: wf_encap_frame_def)
next
  assume f: "wf_encap_frame f \<and> encap_frame_encode f = Inr buf"
  then have "buf = encap_header_write (ef_header f) [] @ ef_data f"
    using frame_encode_wf [of f] by simp
  with f show "encap_frame_decode buf = Inr f \<and> length (ef_data f) \<le> MAX_DATA_LEN"
    by (simp add: frame_decode_append wf_encap_frame_def)
qed

theorem encap_frame_decode_iff_witness:
  "encap_frame_decode [0x65, 0, 4, 0, 0, 0, 0, 0, 0, 0, 0, 0, 1, 2, 3, 4, 5, 6, 7, 8, 0, 0, 0, 0, 1, 0, 0, 0] =
     Inr (encap_frame_new (encap_header_request RegisterSession 0 0 [1, 2, 3, 4, 5, 6, 7, 8]) [1, 0, 0, 0])"
proof -
  let ?f = "encap_frame_new (encap_header_request RegisterSession 0 0 [1, 2, 3, 4, 5, 6, 7, 8]) [1, 0, 0, 0]"
  have "wf_encap_frame ?f"
    by (simp add: wf_encap_frame_def wf_encap_header_def encap_frame_new_def encap_header_request_def
        command_from_code_def encap_status_from_code_def u16_try_from_def)
  moreover have "encap_frame_encode ?f =
    Inr [0x65, 0, 4, 0, 0, 0, 0, 0, 0, 0, 0, 0, 1, 2, 3, 4, 5, 6, 7, 8, 0, 0, 0, 0, 1, 0, 0, 0]"
    by (simp add: encap_frame_encode_def encap_frame_new_def encap_header_request_def Let_def
        encap_header_write_def writer_defs le_bytes_unfold u16_try_from_def)
  ultimately show ?thesis
    using encap_frame_decode_iff
      [of "[0x65, 0, 4, 0, 0, 0, 0, 0, 0, 0, 0, 0, 1, 2, 3, 4, 5, 6, 7, 8, 0, 0, 0, 0, 1, 0, 0, 0]" ?f]
    by simp
qed

end
