(* ===== verification/Cip_Status.thy ===== *)
theory Cip_Status
  imports Encap
begin

text \<open>
  CIP general and extended status, \<^verbatim>\<open>crates/enip/src/cip/status.rs\<close>, and the error type of the
  public API, \<^verbatim>\<open>crates/enip/src/error.rs\<close>, with the reconnect classification that keys on it.
\<close>

section \<open>General status\<close>

datatype general_status =
    Success | ConnectionFailure | ResourceUnavailable | InvalidParameterValue | PathSegmentError
  | PathDestinationUnknown | PartialTransfer | CipConnectionLost | ServiceNotSupported
  | InvalidAttributeValue | AttributeListError | AlreadyInState | ObjectStateConflict
  | ObjectAlreadyExists | AttributeNotSettable | PrivilegeViolation | DeviceStateConflict
  | ReplyDataTooLarge | NotEnoughData | AttributeNotSupported | TooMuchData
  | EmbeddedServiceError | InvalidPathSize | ExtendedError | StatusUnknown u8

definition general_status_from_code :: "u8 \<Rightarrow> general_status" where
  "general_status_from_code c =
     (if c = 0x00 then Success
      else if c = 0x01 then ConnectionFailure
      else if c = 0x02 then ResourceUnavailable
      else if c = 0x03 then InvalidParameterValue
      else if c = 0x04 then PathSegmentError
      else if c = 0x05 then PathDestinationUnknown
      else if c = 0x06 then PartialTransfer
      else if c = 0x07 then CipConnectionLost
      else if c = 0x08 then ServiceNotSupported
      else if c = 0x09 then InvalidAttributeValue
      else if c = 0x0A then AttributeListError
      else if c = 0x0B then AlreadyInState
      else if c = 0x0C then ObjectStateConflict
      else if c = 0x0D then ObjectAlreadyExists
      else if c = 0x0E then AttributeNotSettable
      else if c = 0x0F then PrivilegeViolation
      else if c = 0x10 then DeviceStateConflict
      else if c = 0x11 then ReplyDataTooLarge
      else if c = 0x13 then NotEnoughData
      else if c = 0x14 then AttributeNotSupported
      else if c = 0x15 then TooMuchData
      else if c = 0x1E then EmbeddedServiceError
      else if c = 0x26 then InvalidPathSize
      else if c = 0xFF then ExtendedError
      else StatusUnknown c)"

fun general_status_code :: "general_status \<Rightarrow> u8" where
  "general_status_code Success = 0x00"
| "general_status_code ConnectionFailure = 0x01"
| "general_status_code ResourceUnavailable = 0x02"
| "general_status_code InvalidParameterValue = 0x03"
| "general_status_code PathSegmentError = 0x04"
| "general_status_code PathDestinationUnknown = 0x05"
| "general_status_code PartialTransfer = 0x06"
| "general_status_code CipConnectionLost = 0x07"
| "general_status_code ServiceNotSupported = 0x08"
| "general_status_code InvalidAttributeValue = 0x09"
| "general_status_code AttributeListError = 0x0A"
| "general_status_code AlreadyInState = 0x0B"
| "general_status_code ObjectStateConflict = 0x0C"
| "general_status_code ObjectAlreadyExists = 0x0D"
| "general_status_code AttributeNotSettable = 0x0E"
| "general_status_code PrivilegeViolation = 0x0F"
| "general_status_code DeviceStateConflict = 0x10"
| "general_status_code ReplyDataTooLarge = 0x11"
| "general_status_code NotEnoughData = 0x13"
| "general_status_code AttributeNotSupported = 0x14"
| "general_status_code TooMuchData = 0x15"
| "general_status_code EmbeddedServiceError = 0x1E"
| "general_status_code InvalidPathSize = 0x26"
| "general_status_code ExtendedError = 0xFF"
| "general_status_code (StatusUnknown v) = v"

fun general_status_description :: "general_status \<Rightarrow> string" where
  "general_status_description Success = ''success''"
| "general_status_description ConnectionFailure = ''connection failure''"
| "general_status_description ResourceUnavailable = ''resource unavailable''"
| "general_status_description InvalidParameterValue = ''invalid parameter value''"
| "general_status_description PathSegmentError = ''path segment error''"
| "general_status_description PathDestinationUnknown = ''path destination unknown''"
| "general_status_description PartialTransfer = ''partial transfer''"
| "general_status_description CipConnectionLost = ''connection lost''"
| "general_status_description ServiceNotSupported = ''service not supported''"
| "general_status_description InvalidAttributeValue = ''invalid attribute value''"
| "general_status_description AttributeListError = ''attribute list error''"
| "general_status_description AlreadyInState = ''already in requested state''"
| "general_status_description ObjectStateConflict = ''object state conflict''"
| "general_status_description ObjectAlreadyExists = ''object already exists''"
| "general_status_description AttributeNotSettable = ''attribute not settable''"
| "general_status_description PrivilegeViolation = ''privilege violation''"
| "general_status_description DeviceStateConflict = ''device state conflict''"
| "general_status_description ReplyDataTooLarge = ''reply data too large''"
| "general_status_description NotEnoughData = ''not enough data''"
| "general_status_description AttributeNotSupported = ''attribute not supported''"
| "general_status_description TooMuchData = ''too much data''"
| "general_status_description EmbeddedServiceError = ''embedded service error''"
| "general_status_description InvalidPathSize = ''invalid path size''"
| "general_status_description ExtendedError = ''extended error''"
| "general_status_description (StatusUnknown v) = ''unknown status''"

definition general_is_ok :: "general_status \<Rightarrow> bool" where
  "general_is_ok s \<longleftrightarrow> s = Success"

interpretation general_status_table: code_table general_status_from_code general_status_code
  by unfold_locales (simp add: general_status_from_code_def)

section \<open>CIP status\<close>

record cip_status =
  general :: general_status
  extended :: "u16 list"

definition cip_status_new :: "general_status \<Rightarrow> cip_status" where
  "cip_status_new g = \<lparr>general = g, extended = []\<rparr>"

definition with_extended :: "general_status \<Rightarrow> u16 list \<Rightarrow> cip_status" where
  "with_extended g ext = \<lparr>general = g, extended = ext\<rparr>"

definition primary_extended :: "cip_status \<Rightarrow> u16 option" where
  "primary_extended s = (case extended s of [] \<Rightarrow> None | w # _ \<Rightarrow> Some w)"

definition cip_is_ok :: "cip_status \<Rightarrow> bool" where
  "cip_is_ok s \<longleftrightarrow> general_is_ok (general s)"

definition has_more :: "cip_status \<Rightarrow> bool" where
  "has_more s \<longleftrightarrow> general s = PartialTransfer"

definition is_tag_not_found :: "cip_status \<Rightarrow> bool" where
  "is_tag_not_found s \<longleftrightarrow> general s = PathSegmentError \<or> general s = PathDestinationUnknown"

definition is_routing_error :: "cip_status \<Rightarrow> bool" where
  "is_routing_error s \<longleftrightarrow>
     (case general s of
        ConnectionFailure \<Rightarrow>
          (case primary_extended s of
             Some w \<Rightarrow> w = 0x0204 \<or> w = 0x0311 \<or> w = 0x0312 \<or> w = 0x0315
           | None \<Rightarrow> False)
      | ResourceUnavailable \<Rightarrow> True
      | PathSegmentError \<Rightarrow> True
      | _ \<Rightarrow> False)"

definition is_resource_error :: "cip_status \<Rightarrow> bool" where
  "is_resource_error s \<longleftrightarrow> general s = ResourceUnavailable"

definition logix_extended_detail :: "cip_status \<Rightarrow> string option" where
  "logix_extended_detail s =
     (if general s \<noteq> ExtendedError then None
      else case primary_extended s of
        None \<Rightarrow> None
      | Some w \<Rightarrow>
          (if w = 0x2104 then Some ''offset beyond end of tag''
           else if w = 0x2105 then Some ''element count beyond end of tag''
           else if w = 0x2107 then Some ''tag type mismatch''
           else None))"

definition cip_is_err :: "cip_status \<Rightarrow> bool" where
  "cip_is_err s \<longleftrightarrow> \<not> cip_is_ok s"

definition cip_status_display :: "cip_status \<Rightarrow> string" where
  "cip_status_display s =
     ''0x'' @ hex_pad 2 (unat (general_status_code (general s))) @ '' ('' @
       general_status_description (general s) @ '')'' @
     (case logix_extended_detail s of Some d \<Rightarrow> '': '' @ d | None \<Rightarrow> '''') @
     (if extended s = [] then ''''
      else '' [ext'' @ concat (map (\<lambda>w. '' 0x'' @ hex_pad 4 (unat w)) (extended s)) @ '']'')"

lemmas cip_status_defs = cip_is_ok_def general_is_ok_def has_more_def is_tag_not_found_def
  is_routing_error_def is_resource_error_def cip_is_err_def

text \<open>The classifications exclude one another the way the drivers of the protocol rely on.\<close>

lemma cip_ok_exclusive:
  "cip_is_ok s \<Longrightarrow> \<not> has_more s \<and> \<not> is_tag_not_found s \<and> \<not> is_routing_error s \<and> \<not> is_resource_error s"
  "has_more s \<Longrightarrow> \<not> cip_is_ok s \<and> \<not> is_tag_not_found s \<and> \<not> is_routing_error s \<and> \<not> is_resource_error s"
  by (simp_all add: cip_status_defs)

section \<open>The error of the public API\<close>

datatype tls_error_kind = HandshakeFailed | PeerUnverified | NoCipherOverlap | TlsIo

definition tls_is_transient :: "tls_error_kind \<Rightarrow> bool" where
  "tls_is_transient k \<longleftrightarrow> k = TlsIo"

text \<open>
  The payload of \<^verbatim>\<open>EnipError::Io\<close> is a \<^verbatim>\<open>std::io::Error\<close>; the model keeps the error kinds the
  sources match on.
\<close>

datatype io_error_kind =
    IoWouldBlock | IoInterrupted | IoConnectionRefused | IoConnectionReset | IoConnectionAborted
  | IoTimedOut | IoHostUnreachable | IoNetworkUnreachable | IoOther

datatype enip_error =
    EIo io_error_kind
  | EConnectionLost string
  | ETimeout string
  | EEncap encap_status
  | ECip cip_status
  | EForwardOpenRejected cip_status "u8 option"
  | EMalformed wire_error
  | EProtocolViolation string
  | EUnsupported string
  | EClosed
  | ETooLarge nat
  | ETls tls_error_kind rstr

fun is_transient :: "enip_error \<Rightarrow> bool" where
  "is_transient (EIo _) = True"
| "is_transient (EConnectionLost _) = True"
| "is_transient (ETimeout _) = True"
| "is_transient (EEncap status) = (status = InsufficientMemory)"
| "is_transient (ECip status) = (is_routing_error status \<or> is_resource_error status)"
| "is_transient (EForwardOpenRejected status _) = (is_routing_error status \<or> is_resource_error status)"
| "is_transient (ETls kind _) = tls_is_transient kind"
| "is_transient (EMalformed _) = False"
| "is_transient (EProtocolViolation _) = False"
| "is_transient (EUnsupported _) = False"
| "is_transient (ETooLarge _) = False"
| "is_transient EClosed = False"

text \<open>A CIP status that is no error never reads as transient, and a resource error always does.\<close>

lemma is_transient_cip:
  "cip_is_ok s \<or> has_more s \<Longrightarrow> \<not> is_transient (ECip s)"
  "is_transient (ECip s) \<longleftrightarrow> is_routing_error s"
  by (auto simp: cip_status_defs split: general_status.splits)

end
