(* ===== verification/Encap_Codec.thy ===== *)
theory Encap_Codec
  imports Cip_Status
begin

text \<open>
  The stream codec, \<^verbatim>\<open>crates/enip/src/encap/codec.rs\<close>. A call takes the receive buffer and
  returns the result together with the buffer it leaves, since \<^verbatim>\<open>split_to\<close> consumes a frame even
  when its decoding fails. The loop that skips NOP frames is a recursion on the buffer.
\<close>

definition codec_peek :: "bytes \<Rightarrow> wire_error + command \<times> nat" where
  "codec_peek header_bytes =
     ok_then (r_u16 (r_with_context header_bytes ''encap header'')) (\<lambda>(command, r).
     ok_then (r_u16 r) (\<lambda>(len, _).
     Inr (command_from_code command, unat len)))"

function encap_codec_decode :: "bytes \<Rightarrow> (enip_error + encap_frame option) \<times> bytes" where
  "encap_codec_decode src =
     (case slice_get src 0 HEADER_LEN of
        None \<Rightarrow> (Inr None, src)
      | Some header_bytes \<Rightarrow>
          (case codec_peek header_bytes of
             Inl e \<Rightarrow> (Inl (EMalformed e), src)
           | Inr (command, len) \<Rightarrow>
               if len > MAX_DATA_LEN
               then (Inl (EMalformed (Malformed ''encap codec''
                       ''declared length exceeds protocol maximum'')), src)
               else (case checked_add_usize HEADER_LEN len of
                       None \<Rightarrow> (Inl (EMalformed (Overflow ''encap codec'')), src)
                     | Some total_len \<Rightarrow>
                         if length src < total_len then (Inr None, src)
                         else (case encap_frame_decode (take total_len src) of
                                 Inl e \<Rightarrow> (Inl (EMalformed e), drop total_len src)
                               | Inr frame \<Rightarrow>
                                   if command = Nop then encap_codec_decode (drop total_len src)
                                   else (Inr (Some frame), drop total_len src)))))"
  by pat_completeness auto
termination
  by (relation "measure length")
    (auto simp: checked_add_usize_def HEADER_LEN_def slice_get_def split: if_splits)

definition encap_codec_decode_eof :: "bytes \<Rightarrow> (enip_error + encap_frame option) \<times> bytes" where
  "encap_codec_decode_eof src =
     (case encap_codec_decode src of
        (Inl e, src) \<Rightarrow> (Inl e, src)
      | (Inr (Some frame), src) \<Rightarrow> (Inr (Some frame), src)
      | (Inr None, src) \<Rightarrow>
          if src = [] then (Inr None, src)
          else (Inl (EConnectionLost ''encap frame truncated at eof''), src))"

definition encap_codec_encode :: "encap_frame \<Rightarrow> bytes \<Rightarrow> (enip_error + unit) \<times> bytes" where
  "encap_codec_encode item dst =
     (case encap_frame_encode item of
        Inl e \<Rightarrow> (Inl (EMalformed e), dst)
      | Inr bs \<Rightarrow> (Inr (), dst @ bs))"

declare encap_codec_decode.simps [simp del]

section \<open>One step of the loop\<close>

definition declared_len :: "bytes \<Rightarrow> nat" where
  "declared_len src = unat (from_le_bytes (take 2 (drop 2 src)) :: u16)"

definition declared_command :: "bytes \<Rightarrow> command" where
  "declared_command src = command_from_code (from_le_bytes (take 2 src))"

lemma codec_peek_eq:
  assumes "24 \<le> length src"
  shows "codec_peek (take 24 src) = Inr (declared_command src, declared_len src)"
proof -
  have "wf_reader (r_with_context (take 24 src) ''encap header'')"
    by (intro wf_intros small_le_isize) simp
  with assms show ?thesis
    by (simp add: codec_peek_def wire_simps declared_command_def declared_len_def drop_take)
qed

text \<open>A complete frame always decodes: the cap and the length check leave nothing to fail.\<close>

lemma frame_decode_total:
  assumes "length bs = 24 + declared_len bs"
  shows "\<exists>f. encap_frame_decode bs = Inr f \<and> eh_command (ef_header f) = declared_command bs"
proof -
  have len: "declared_len bs < 65536"
    unfolding declared_len_def by (rule unat16_less)
  then have wf: "wf_reader (r_with_context bs c)" for c
    by (intro wf_intros small_le_isize) (simp add: assms)
  show ?thesis
    using wf [of "''encap frame''"] assms len
    by (simp add: encap_frame_decode_def encap_header_decode_from_def wire_simps r_take_eq
        declared_len_def [symmetric] declared_command_def)
qed

lemma declared_take:
  assumes "24 + n \<le> length src"
  shows "declared_len (take (24 + n) src) = declared_len src"
    and "declared_command (take (24 + n) src) = declared_command src"
  using assms by (simp_all add: declared_len_def declared_command_def drop_take min_def)

lemma declared_append:
  assumes "4 \<le> length a"
  shows "declared_len (a @ b) = declared_len a" and "declared_command (a @ b) = declared_command a"
  using assms by (simp_all add: declared_len_def declared_command_def)

definition next_frame :: "bytes \<Rightarrow> encap_frame" where
  "next_frame src = (case encap_frame_decode (take (24 + declared_len src) src) of Inr f \<Rightarrow> f)"

lemma codec_decode_step:
  "encap_codec_decode src =
     (if length src < 24 then (Inr None, src)
      else if declared_len src > 65511
      then (Inl (EMalformed (Malformed ''encap codec'' ''declared length exceeds protocol maximum'')), src)
      else if length src < 24 + declared_len src then (Inr None, src)
      else if declared_command src = Nop then encap_codec_decode (drop (24 + declared_len src) src)
      else (Inr (Some (next_frame src)), drop (24 + declared_len src) src))"
proof (cases "length src < 24 \<or> declared_len src > 65511 \<or> length src < 24 + declared_len src")
  case True
  then show ?thesis
    by (subst encap_codec_decode.simps)
      (auto simp: slice_get_def HEADER_LEN_def codec_peek_eq checked_add_usize_def usize_max_def)
next
  case False
  then obtain f where "encap_frame_decode (take (24 + declared_len src) src) = Inr f"
    using frame_decode_total [of "take (24 + declared_len src) src"] declared_take [of "declared_len src" src]
    by auto
  with False show ?thesis
    by (subst encap_codec_decode.simps)
      (auto simp: slice_get_def HEADER_LEN_def codec_peek_eq checked_add_usize_def usize_max_def
        next_frame_def)
qed

lemma next_frame_append:
  assumes "24 + declared_len a \<le> length a"
  shows "next_frame (a @ b) = next_frame a"
proof -
  have "declared_len (a @ b) = declared_len a" using assms by (simp add: declared_append)
  with assms show ?thesis by (simp add: next_frame_def)
qed

lemma codec_decode_append:
  "case encap_codec_decode a of
     (Inl e, rest) \<Rightarrow> encap_codec_decode (a @ b) = (Inl e, rest @ b)
   | (Inr (Some f), rest) \<Rightarrow> encap_codec_decode (a @ b) = (Inr (Some f), rest @ b)
   | (Inr None, rest) \<Rightarrow> encap_codec_decode (a @ b) = encap_codec_decode (rest @ b)"
proof (induction "length a" arbitrary: a rule: less_induct)
  case less
  let ?n = "24 + declared_len a"
  show ?case
  proof (cases "?n \<le> length a \<and> declared_len a \<le> 65511 \<and> declared_command a = Nop")
    case True
    then have eq: "encap_codec_decode a = encap_codec_decode (drop ?n a)"
      "encap_codec_decode (a @ b) = encap_codec_decode (drop ?n a @ b)"
      by (subst codec_decode_step, simp add: declared_append)+
    have "length (drop ?n a) < length a" using True by (cases a) auto
    then show ?thesis unfolding eq by (rule less)
  next
    case False
    then show ?thesis
      by (subst codec_decode_step) (auto simp: codec_decode_step [of "a @ b"] declared_append next_frame_append)
  qed
qed

text \<open>Draining the buffer: call the decoder until it asks for more bytes or fails.\<close>

lemma codec_decode_shrinks:
  "encap_codec_decode src = (Inr (Some f), rest) \<Longrightarrow> length rest < length src"
proof (induction "length src" arbitrary: src rule: less_induct)
  case less
  from less.prems show ?case
    by (subst (asm) codec_decode_step) (auto split: if_splits dest!: less.hyps [rotated])
qed

function codec_drain :: "bytes \<Rightarrow> encap_frame list \<times> enip_error option \<times> bytes" where
  "codec_drain src =
     (case encap_codec_decode src of
        (Inl e, rest) \<Rightarrow> ([], Some e, rest)
      | (Inr None, rest) \<Rightarrow> ([], None, rest)
      | (Inr (Some f), rest) \<Rightarrow>
          (case codec_drain rest of (fs, e, rest') \<Rightarrow> (f # fs, e, rest')))"
  by pat_completeness auto
termination
  by (relation "measure length") (auto dest: codec_decode_shrinks [OF sym])

declare codec_drain.simps [simp del]

lemma codec_drain_append:
  "codec_drain (a @ b) =
     (case codec_drain a of
        (fs, Some e, rest) \<Rightarrow> (fs, Some e, rest @ b)
      | (fs, None, rest) \<Rightarrow>
          (case codec_drain (rest @ b) of (gs, e, rest') \<Rightarrow> (fs @ gs, e, rest')))"
proof (induction a rule: codec_drain.induct)
  case (1 a)
  obtain res rest where d: "encap_codec_decode a = (res, rest)" by fastforce
  note ab = codec_decode_append [of a b, unfolded d]
  show ?case
  proof (cases res)
    case (Inl e)
    with d ab show ?thesis by (simp add: codec_drain.simps [of a] codec_drain.simps [of "a @ b"])
  next
    case (Inr m)
    show ?thesis
    proof (cases m)
      case None
      with d ab Inr show ?thesis
        by (simp add: codec_drain.simps [of a] codec_drain.simps [of "a @ b"]
            codec_drain.simps [of "rest @ b", symmetric])
    next
      case (Some f)
      with d Inr have "codec_drain (rest @ b) = (case codec_drain rest of
          (fs, Some e, rest') \<Rightarrow> (fs, Some e, rest' @ b)
        | (fs, None, rest') \<Rightarrow> (case codec_drain (rest' @ b) of (gs, e, u) \<Rightarrow> (fs @ gs, e, u)))"
        using 1 [of res rest m f] by simp
      with d ab Inr Some show ?thesis
        by (simp add: codec_drain.simps [of a] codec_drain.simps [of "a @ b"]
            split: prod.splits option.splits)
    qed
  qed
qed

lemma codec_decode_frame:
  assumes "wf_encap_frame f" and "encap_frame_encode f = Inr bs"
  shows "encap_codec_decode (bs @ t) =
    (if eh_command (ef_header f) = Nop then encap_codec_decode t else (Inr (Some f), t))"
proof -
  have bs: "bs = encap_header_write (ef_header f) [] @ ef_data f"
    using assms by (simp add: frame_encode_wf)
  have h: "wf_encap_header (ef_header f)" "length (ef_data f) \<le> 65511"
    "eh_length (ef_header f) = of_nat (length (ef_data f))"
    using assms(1) by (simp_all add: wf_encap_frame_def)
  have d: "declared_len (bs @ t) = length (ef_data f)"
    "declared_command (bs @ t) = eh_command (ef_header f)"
    using h by (simp_all add: bs declared_len_def declared_command_def encap_header_write_def
        writer_defs wf_encap_header_def unat_of_nat_small)
  have l: "length bs = 24 + length (ef_data f)"
    using length_frame_encode [OF assms] by (simp add: HEADER_LEN_def)
  then have "next_frame (bs @ t) = f"
    using frame_decode_append [OF assms(1)] unfolding next_frame_def d by (simp add: bs)
  with d l h(2) show ?thesis by (subst codec_decode_step) simp
qed

lemma codec_drain_stream:
  assumes "list_all wf_encap_frame fs" "list_all2 (\<lambda>f bs. encap_frame_encode f = Inr bs) fs bss"
  shows "codec_drain (concat bss @ t) =
    (case codec_drain t of (gs, e, rest) \<Rightarrow>
       (filter (\<lambda>f. eh_command (ef_header f) \<noteq> Nop) fs @ gs, e, rest))"
  using assms(2,1)
proof (induction rule: list_all2_induct)
  case (Cons f fs bs bss)
  have step: "encap_codec_decode (bs @ concat bss @ t) =
      (if eh_command (ef_header f) = Nop then encap_codec_decode (concat bss @ t)
       else (Inr (Some f), concat bss @ t))"
    using Cons by (intro codec_decode_frame) auto
  have ih: "codec_drain (concat bss @ t) =
    (case codec_drain t of (gs, e, rest) \<Rightarrow>
       (filter (\<lambda>f. eh_command (ef_header f) \<noteq> Nop) fs @ gs, e, rest))"
    using Cons by simp
  show ?case
  proof (cases "eh_command (ef_header f) = Nop")
    case True
    then have "codec_drain (bs @ concat bss @ t) = codec_drain (concat bss @ t)"
      using step by (simp add: codec_drain.simps [of "bs @ concat bss @ t"]
          codec_drain.simps [of "concat bss @ t"])
    with True ih show ?thesis by simp
  next
    case False
    with step ih show ?thesis
      by (simp add: codec_drain.simps [of "bs @ concat bss @ t"] split: prod.splits)
  qed
qed (simp split: prod.split)

text \<open>
  What a call may do: \<open>nops\<close> are the bytes it dropped, and the rest depends on the result.
\<close>

fun codec_outcome :: "bytes \<Rightarrow> bytes \<Rightarrow> (enip_error + encap_frame option) \<times> bytes \<Rightarrow> bool" where
  "codec_outcome src nops (Inl e, rest) \<longleftrightarrow>
     src = nops @ rest \<and> 24 \<le> length rest \<and> MAX_DATA_LEN < declared_len rest \<and>
     e = EMalformed (Malformed ''encap codec'' ''declared length exceeds protocol maximum'')"
| "codec_outcome src nops (Inr None, rest) \<longleftrightarrow>
     src = nops @ rest \<and>
     (length rest < 24 \<or> declared_len rest \<le> MAX_DATA_LEN \<and> length rest < 24 + declared_len rest)"
| "codec_outcome src nops (Inr (Some f), rest) \<longleftrightarrow>
     wf_encap_frame f \<and> eh_command (ef_header f) \<noteq> Nop \<and>
     (\<exists>bs. encap_frame_encode f = Inr bs \<and> src = nops @ bs @ rest)"

lemma codec_outcome_append: "codec_outcome src nops res \<Longrightarrow> codec_outcome (x @ src) (x @ nops) res"
  by (cases "(src, nops, res)" rule: codec_outcome.cases) auto

lemma next_frame_wf:
  assumes "24 + declared_len src \<le> length src" "declared_len src \<le> 65511"
  shows "wf_encap_frame (next_frame src) \<and> eh_command (ef_header (next_frame src)) = declared_command src \<and>
    encap_frame_encode (next_frame src) = Inr (take (24 + declared_len src) src)"
proof -
  let ?t = "take (24 + declared_len src) src"
  obtain f where f: "encap_frame_decode ?t = Inr f" "eh_command (ef_header f) = declared_command src"
    using frame_decode_total [of ?t] assms declared_take [of "declared_len src" src] by auto
  have "length ?t \<le> isize_max" using assms by (intro small_le_isize) simp
  note d = frame_decode_exact [OF this f(1)]
  have "24 + declared_len src = length ?t" using assms by simp
  also have "\<dots> = 24 + length (ef_data f)"
    using arg_cong [OF d [THEN conjunct2, THEN conjunct2, THEN conjunct2], of length] d
    by (simp add: wf_encap_header_def HEADER_LEN_def)
  finally have wf: "wf_encap_frame f" using assms d by (simp add: wf_encap_frame_def)
  have "next_frame src = f" by (simp add: next_frame_def f(1))
  with wf f(2) frame_encode_wf [OF wf] d show ?thesis by simp
qed

lemma codec_decode_nop:
  assumes "24 + declared_len src \<le> length src" "declared_len src \<le> 65511" "declared_command src = Nop"
  shows "encap_codec_decode (take (24 + declared_len src) src @ t) = encap_codec_decode t"
  using assms declared_take [of "declared_len src" src]
  by (subst codec_decode_step) (simp add: declared_append)

section \<open>Properties\<close>

text \<open>
  C21. Framing does not depend on how the stream is cut into reads: draining the buffer after the
  bytes \<open>a\<close>, then again after \<open>b\<close> has been appended to what was left, gives the same frames, the
  same error and the same residue as draining \<open>a @ b\<close> at once.
\<close>

theorem codec_chunk_independent:
  "codec_drain (a @ b) =
     (case codec_drain a of
        (fs, Some e, rest) \<Rightarrow> (fs, Some e, rest @ b)
      | (fs, None, rest) \<Rightarrow>
          (case codec_drain (rest @ b) of (gs, e, rest') \<Rightarrow> (fs @ gs, e, rest')))"
  by (rule codec_drain_append)

text \<open>
  C22. A stream of encoded frames is delivered intact: draining it gives exactly the frames that
  are not NOP keep-alives, in order, with no error and nothing left over.
\<close>

theorem codec_stream_round_trip:
  assumes "list_all wf_encap_frame fs"
    and "list_all2 (\<lambda>f bs. encap_frame_encode f = Inr bs) fs bss"
  shows "codec_drain (concat bss) = (filter (\<lambda>f. eh_command (ef_header f) \<noteq> Nop) fs, None, [])"
  using codec_drain_stream [OF assms, of "[]"] codec_drain.simps [of "[]"] codec_decode_step [of "[]"]
  by simp

theorem codec_stream_round_trip_witness:
  "codec_drain ([0, 0, 1, 0, 0, 0, 0, 0, 0, 0, 0, 0, 2, 2, 2, 2, 2, 2, 2, 2, 0, 0, 0, 0, 9] @
                [0x66, 0, 0, 0, 7, 0, 0, 0, 0, 0, 0, 0, 3, 3, 3, 3, 3, 3, 3, 3, 0, 0, 0, 0]) =
     ([encap_frame_new (encap_header_request UnRegisterSession 0 7 [3, 3, 3, 3, 3, 3, 3, 3]) []], None, [])"
proof -
  let ?nop = "encap_frame_new (encap_header_request Nop 0 0 [2, 2, 2, 2, 2, 2, 2, 2]) [9]"
  let ?unreg = "encap_frame_new (encap_header_request UnRegisterSession 0 7 [3, 3, 3, 3, 3, 3, 3, 3]) []"
  let ?bss = "[[0, 0, 1, 0, 0, 0, 0, 0, 0, 0, 0, 0, 2, 2, 2, 2, 2, 2, 2, 2, 0, 0, 0, 0, 9],
     [0x66, 0, 0, 0, 7, 0, 0, 0, 0, 0, 0, 0, 3, 3, 3, 3, 3, 3, 3, 3, 0, 0, 0, 0]]"
  have "list_all wf_encap_frame [?nop, ?unreg]"
    by (simp add: wf_encap_frame_def wf_encap_header_def encap_frame_new_def encap_header_request_def
        command_from_code_def encap_status_from_code_def u16_try_from_def)
  moreover have "list_all2 (\<lambda>f bs. encap_frame_encode f = Inr bs) [?nop, ?unreg] ?bss"
    by (simp add: encap_frame_encode_def encap_frame_new_def encap_header_request_def Let_def
        encap_header_write_def writer_defs le_bytes_unfold)
  ultimately have "codec_drain (concat ?bss) =
    (filter (\<lambda>f. eh_command (ef_header f) \<noteq> Nop) [?nop, ?unreg], None, [])"
    by (rule codec_stream_round_trip)
  then show ?thesis by (simp add: encap_frame_new_def encap_header_request_def)
qed

text \<open>
  One call of the decoder: it fails only on a complete header that declares more than the
  protocol maximum, and then consumes nothing of that frame; it asks for more bytes only when
  what it leaves is an incomplete frame; and it delivers only a well-formed frame that is not a
  NOP, consuming exactly its encoded bytes. Everything it drops on the way is NOP frames.
\<close>

theorem codec_decode_exact:
  "\<exists>nops. encap_codec_decode nops = (Inr None, []) \<and> codec_outcome src nops (encap_codec_decode src)"
proof (induction "length src" arbitrary: src rule: less_induct)
  case less
  let ?n = "24 + declared_len src"
  have none: "encap_codec_decode [] = (Inr None, [])" by (simp add: codec_decode_step [of "[]"])
  consider (nop) "?n \<le> length src" "declared_len src \<le> 65511" "declared_command src = Nop"
    | (frame) "?n \<le> length src" "declared_len src \<le> 65511" "declared_command src \<noteq> Nop"
    | (stop) "length src < 24 \<or> declared_len src > 65511 \<or> length src < ?n"
    by linarith
  then show ?case
  proof cases
    case nop
    have "length (drop ?n src) < length src" using nop by (cases src) auto
    from less [OF this] obtain nops where nops: "encap_codec_decode nops = (Inr None, [])"
      "codec_outcome (drop ?n src) nops (encap_codec_decode (drop ?n src))" by blast
    have "encap_codec_decode (take ?n src @ nops) = (Inr None, [])"
      using nop nops(1) by (simp add: codec_decode_nop)
    moreover have "encap_codec_decode src = encap_codec_decode (drop ?n src)"
      using nop by (subst codec_decode_step) simp
    ultimately show ?thesis
      using codec_outcome_append [OF nops(2), of "take ?n src"] by (metis append_take_drop_id)
  next
    case frame
    then show ?thesis
      using none next_frame_wf [of src] by (intro exI [of _ "[]"]) (subst codec_decode_step, simp)
  next
    case stop
    then show ?thesis
      using none by (intro exI [of _ "[]"]) (subst codec_decode_step, auto)
  qed
qed

end
