(* ===== verification/Cpf.thy ===== *)
theory Cpf
  imports Encap
begin

text \<open>
  The Common Packet Format, \<^verbatim>\<open>crates/enip/src/cpf.rs\<close>: the item list with per-item bounds checks,
  the exact shape of an explicit reply, and the two typed payloads (the big-endian sockaddr and
  the sequenced address). An item is an instance of \<open>wire_item_exact\<close>, so the item list inherits
  its round trip from the interface.
\<close>

definition CPF_CONTEXT :: string where "CPF_CONTEXT = ''cpf''"

datatype item_type =
    NullAddress | IdentityItem | ConnectedAddress | ConnectedData | UnconnectedData
  | SockAddrOtoT | SockAddrTtoO | SequencedAddressItem | ItemUnknown u16

definition item_type_from_code :: "u16 \<Rightarrow> item_type" where
  "item_type_from_code c =
     (if c = 0x0000 then NullAddress
      else if c = 0x000C then IdentityItem
      else if c = 0x00A1 then ConnectedAddress
      else if c = 0x00B1 then ConnectedData
      else if c = 0x00B2 then UnconnectedData
      else if c = 0x8000 then SockAddrOtoT
      else if c = 0x8001 then SockAddrTtoO
      else if c = 0x8002 then SequencedAddressItem
      else ItemUnknown c)"

fun item_type_code :: "item_type \<Rightarrow> u16" where
  "item_type_code NullAddress = 0x0000"
| "item_type_code IdentityItem = 0x000C"
| "item_type_code ConnectedAddress = 0x00A1"
| "item_type_code ConnectedData = 0x00B1"
| "item_type_code UnconnectedData = 0x00B2"
| "item_type_code SockAddrOtoT = 0x8000"
| "item_type_code SockAddrTtoO = 0x8001"
| "item_type_code SequencedAddressItem = 0x8002"
| "item_type_code (ItemUnknown v) = v"

definition is_sockaddr :: "item_type \<Rightarrow> bool" where
  "is_sockaddr t \<longleftrightarrow> t = SockAddrOtoT \<or> t = SockAddrTtoO"

interpretation item_type_table: code_table item_type_from_code item_type_code
  by unfold_locales (simp add: item_type_from_code_def)

section \<open>Items\<close>

record cpf_item =
  ci_type_id :: item_type
  ci_data :: bytes

definition cpf_item_new :: "item_type \<Rightarrow> bytes \<Rightarrow> cpf_item" where
  "cpf_item_new t data = \<lparr>ci_type_id = t, ci_data = data\<rparr>"

definition null_address :: cpf_item where
  "null_address = cpf_item_new NullAddress []"

definition unconnected_data :: "bytes \<Rightarrow> cpf_item" where
  "unconnected_data data = cpf_item_new UnconnectedData data"

definition connected_address :: "u32 \<Rightarrow> cpf_item" where
  "connected_address connection_id = cpf_item_new ConnectedAddress (w_u32 connection_id [])"

definition connected_data :: "bytes \<Rightarrow> cpf_item" where
  "connected_data data = cpf_item_new ConnectedData data"

definition cpf_item_write :: "cpf_item \<Rightarrow> bytes \<Rightarrow> wire_error + bytes" where
  "cpf_item_write i w =
     ok_then (ok_or (u16_try_from (length (ci_data i))) (Overflow CPF_CONTEXT)) (\<lambda>len.
     Inr (w_put_slice (ci_data i) (w_u16 len (w_u16 (item_type_code (ci_type_id i)) w))))"

text \<open>The body of the loop of \<^verbatim>\<open>Cpf::decode_from\<close>.\<close>

definition cpf_item_read :: "cpf_item decoder" where
  "cpf_item_read r =
     ok_then (r_u16 r) (\<lambda>(type_id, r).
     ok_then (r_u16 r) (\<lambda>(len, r).
     ok_then (r_take (unat len) r) (\<lambda>(data, r).
     Inr (cpf_item_new (item_type_from_code type_id) data, r))))"

section \<open>The item list\<close>

type_synonym cpf = "cpf_item list"

definition cpf_find :: "cpf \<Rightarrow> item_type \<Rightarrow> cpf_item option" where
  "cpf_find items t = find (\<lambda>i. ci_type_id i = t) items"

definition cpf_decode_from :: "cpf decoder" where
  "cpf_decode_from r =
     ok_then (r_u16 (r_at CPF_CONTEXT r)) (\<lambda>(item_count, r).
     r_repeat cpf_item_read (unat item_count) r)"

definition cpf_decode :: "bytes \<Rightarrow> wire_error + cpf" where
  "cpf_decode buf =
     ok_then (cpf_decode_from (r_with_context buf CPF_CONTEXT)) (\<lambda>(items, r).
     ok_then (r_expect_end r) (\<lambda>_. Inr items))"

primrec cpf_write_items :: "cpf \<Rightarrow> bytes \<Rightarrow> wire_error + bytes" where
  "cpf_write_items [] w = Inr w"
| "cpf_write_items (i # is) w = ok_then (cpf_item_write i w) (cpf_write_items is)"

definition cpf_encode :: "cpf \<Rightarrow> wire_error + bytes" where
  "cpf_encode items =
     ok_then (ok_or (u16_try_from (length items)) (Overflow CPF_CONTEXT)) (\<lambda>count.
     cpf_write_items items (w_u16 count []))"

definition expect_explicit_data :: "cpf \<Rightarrow> wire_error + bytes" where
  "expect_explicit_data items =
     (case items of
        [addr, data] \<Rightarrow>
          (case (ci_type_id addr, ci_type_id data) of
             (NullAddress, UnconnectedData) \<Rightarrow> Inr (ci_data data)
           | (ConnectedAddress, ConnectedData) \<Rightarrow> Inr (ci_data data)
           | (NullAddress, ConnectedData) \<Rightarrow>
               Inl (Malformed CPF_CONTEXT
                 ''explicit reply pairs an address and data item of different classes'')
           | (ConnectedAddress, UnconnectedData) \<Rightarrow>
               Inl (Malformed CPF_CONTEXT
                 ''explicit reply pairs an address and data item of different classes'')
           | _ \<Rightarrow> Inl (Malformed CPF_CONTEXT ''unexpected item ids in explicit reply''))
      | _ \<Rightarrow> Inl (Malformed CPF_CONTEXT ''explicit reply must contain exactly 2 items''))"

section \<open>Typed payloads\<close>

record sock_addr_info =
  sin_family :: u16
  sin_port :: u16
  sin_addr :: u32
  sin_zero :: bytes

definition AF_INET :: u16 where "AF_INET = 2"

definition sockaddr_ipv4 :: "u32 \<Rightarrow> u16 \<Rightarrow> sock_addr_info" where
  "sockaddr_ipv4 addr port =
     \<lparr>sin_family = AF_INET, sin_port = port, sin_addr = addr, sin_zero = replicate 8 0\<rparr>"

definition sockaddr_decode :: "bytes \<Rightarrow> wire_error + sock_addr_info" where
  "sockaddr_decode data =
     ok_then (r_u16_be (r_with_context data ''sockaddr info'')) (\<lambda>(family, r).
     ok_then (r_u16_be r) (\<lambda>(port, r).
     ok_then (r_u32_be r) (\<lambda>(addr, r).
     ok_then (r_take 8 r) (\<lambda>(zero, r).
     ok_then (r_expect_end r) (\<lambda>_.
     Inr \<lparr>sin_family = family, sin_port = port, sin_addr = addr, sin_zero = zero\<rparr>)))))"

definition sockaddr_encode :: "sock_addr_info \<Rightarrow> bytes" where
  "sockaddr_encode s =
     w_put_slice (sin_zero s) (w_u32_be (sin_addr s) (w_u16_be (sin_port s)
       (w_u16_be (sin_family s) [])))"

record sequenced_address =
  sa_connection_id :: u32
  sa_encap_sequence :: u32

definition sequenced_address_decode :: "bytes \<Rightarrow> wire_error + sequenced_address" where
  "sequenced_address_decode data =
     ok_then (r_u32 (r_with_context data ''sequenced address'')) (\<lambda>(connection_id, r).
     ok_then (r_u32 r) (\<lambda>(encap_sequence, r).
     ok_then (r_expect_end r) (\<lambda>_.
     Inr \<lparr>sa_connection_id = connection_id, sa_encap_sequence = encap_sequence\<rparr>)))"

definition sequenced_address_encode :: "sequenced_address \<Rightarrow> bytes" where
  "sequenced_address_encode s = w_u32 (sa_encap_sequence s) (w_u32 (sa_connection_id s) [])"

section \<open>Round trips\<close>

definition wf_cpf_item :: "cpf_item \<Rightarrow> bool" where
  "wf_cpf_item i \<longleftrightarrow>
     item_type_from_code (item_type_code (ci_type_id i)) = ci_type_id i \<and> length (ci_data i) < 65536"

definition cpf_item_bytes :: "cpf_item \<Rightarrow> bytes" where
  "cpf_item_bytes i =
     le_bytes 2 (item_type_code (ci_type_id i)) @ le_bytes 2 (of_nat (length (ci_data i)) :: u16) @
     ci_data i"

definition wf_cpf :: "cpf \<Rightarrow> bool" where
  "wf_cpf items \<longleftrightarrow> list_all wf_cpf_item items \<and> length items < 65536"

lemma cpf_item_write_wf:
  "wf_cpf_item i \<Longrightarrow> cpf_item_write i w = Inr (w @ cpf_item_bytes i)"
  by (simp add: cpf_item_write_def cpf_item_bytes_def wf_cpf_item_def u16_try_from_def writer_defs)

lemma cpf_write_items_wf:
  "list_all wf_cpf_item is \<Longrightarrow> cpf_write_items is w = Inr (w @ concat (map cpf_item_bytes is))"
  by (induction "is" arbitrary: w) (simp_all add: cpf_item_write_wf)

lemma cpf_encode_wf:
  "wf_cpf items \<Longrightarrow> cpf_encode items =
     Inr (le_bytes 2 (of_nat (length items) :: u16) @ concat (map cpf_item_bytes items))"
  by (simp add: cpf_encode_def wf_cpf_def u16_try_from_def cpf_write_items_wf writer_defs)

lemma cpf_item_read_write:
  assumes "wf_reader r" "wf_cpf_item i" "r_rest r = cpf_item_bytes i @ t"
  shows "reads cpf_item_read r i t"
  using assms
  by (auto simp: cpf_item_read_def cpf_item_bytes_def wf_cpf_item_def wire_simps r_take_eq
      unat_of_nat_small cpf_item_new_def intro!: readsI)

lemma cpf_item_write_read:
  assumes "wf_reader r" "cpf_item_read r = Inr (i, r')"
  shows "wf_cpf_item i \<and> wf_reader r' \<and> r_rest r = cpf_item_bytes i @ r_rest r'"
  using assms
  by (auto simp: cpf_item_read_def cpf_item_bytes_def wf_cpf_item_def ok_then_Inr_iff
      cpf_item_new_def dest!: exactD)

interpretation cpf_items: wire_item_exact cpf_item_bytes cpf_item_read wf_cpf_item
  by unfold_locales (simp_all add: cpf_item_read_write cpf_item_write_read)

lemma cpf_decode_encode:
  assumes "wf_cpf items" "cpf_encode items = Inr bs" "length bs \<le> isize_max"
  shows "cpf_decode bs = Inr items"
proof -
  let ?r = "r_with_context bs CPF_CONTEXT"
  have bs: "bs = le_bytes 2 (of_nat (length items) :: u16) @ concat (map cpf_item_bytes items)"
    using assms by (simp add: cpf_encode_wf)
  have wf: "wf_reader ?r" using assms by simp
  obtain r1 where 1: "r_u16 (r_at CPF_CONTEXT ?r) = Inr (of_nat (length items), r1)" "wf_reader r1"
    "r_rest r1 = concat (map cpf_item_bytes items)"
    using read_primitive(2) [of "r_at CPF_CONTEXT ?r" "of_nat (length items)"] wf bs
    by (auto elim!: readsE)
  have "reads (r_repeat cpf_item_read (length items)) r1 items []"
    using cpf_items.repeat_read_write [of r1 items "[]"] assms 1 by (simp add: wf_cpf_def)
  with 1 assms(1) show ?thesis
    by (auto simp: cpf_decode_def cpf_decode_from_def unat_of_nat_small wf_cpf_def wire_simps elim!: readsE)
qed

lemma cpf_encode_decode:
  assumes "length bs \<le> isize_max" "cpf_decode bs = Inr items"
  shows "wf_cpf items \<and> cpf_encode items = Inr bs"
proof -
  from assms(2) obtain n r1 r2 where
    1: "r_u16 (r_at CPF_CONTEXT (r_with_context bs CPF_CONTEXT)) = Inr (n, r1)"
    and 2: "r_repeat cpf_item_read (unat n) r1 = Inr (items, r2)" and 3: "r_expect_end r2 = Inr ()"
    by (auto simp: cpf_decode_def cpf_decode_from_def ok_then_Inr_iff)
  from 1 assms(1) have r1: "wf_reader r1" "bs = le_bytes 2 n @ r_rest r1"
    by (auto dest!: exactD)
  from cpf_items.repeat_write_read [OF r1(1) 2]
  have "list_all wf_cpf_item items" "length items = unat n"
    "r_rest r1 = concat (map cpf_item_bytes items) @ r_rest r2" by auto
  moreover from 3 have "r_rest r2 = []" by (simp add: wire_simps split: if_splits)
  moreover have "wf_cpf items" using calculation by (simp add: wf_cpf_def)
  ultimately show ?thesis using r1 by (simp add: cpf_encode_wf)
qed

lemma sequenced_address_round [simp]:
  "sequenced_address_decode (sequenced_address_encode s) = Inr s"
  by (simp add: sequenced_address_decode_def sequenced_address_encode_def wire_simps)

lemma sequenced_address_decode_iff:
  assumes "length data \<le> isize_max"
  shows "sequenced_address_decode data = Inr s \<longleftrightarrow> data = sequenced_address_encode s"
proof
  assume "sequenced_address_decode data = Inr s"
  with assms show "data = sequenced_address_encode s"
    by (auto simp: sequenced_address_decode_def sequenced_address_encode_def writer_defs
        ok_then_Inr_iff r_expect_end_rest split: if_splits dest!: exactD)
qed simp

lemma sockaddr_round [simp]:
  "length (sin_zero s) = 8 \<Longrightarrow> sockaddr_decode (sockaddr_encode s) = Inr s"
  by (simp add: sockaddr_decode_def sockaddr_encode_def wire_simps r_take_eq)

text \<open>
  The item list is decoded exactly: a buffer decodes to a list of items if and only if the
  list is one the format can carry (known item ids in their canonical form, payloads and count
  below 65536) and encoding it gives back that very buffer, byte for byte.
\<close>

theorem cpf_decode_iff:
  assumes "length bs \<le> isize_max"
  shows "cpf_decode bs = Inr items \<longleftrightarrow> wf_cpf items \<and> cpf_encode items = Inr bs"
  using cpf_decode_encode [OF _ _ assms] cpf_encode_decode [OF assms] by blast

theorem cpf_decode_iff_witness:
  "cpf_decode [2, 0, 0, 0, 0, 0, 0xB2, 0, 2, 0, 0xCC, 0] =
     Inr [null_address, unconnected_data [0xCC, 0]]"
  by (subst cpf_decode_iff)
    (simp_all add: wf_cpf_def wf_cpf_item_def null_address_def unconnected_data_def cpf_item_new_def
      item_type_from_code_def cpf_encode_def cpf_item_write_def u16_try_from_def writer_defs
      le_bytes_unfold)

text \<open>
  The explicit reply shape: the data of a reply is handed on exactly when the list is two
  items in one of the two legal pairings, null address with unconnected data or connected
  address with connected data, and it is the second item's payload. Every other list, the two
  cross pairings included, is an error.
\<close>

theorem expect_explicit_data_iff:
  "expect_explicit_data items = Inr d \<longleftrightarrow>
     (\<exists>addr data. items = [addr, data] \<and> d = ci_data data \<and>
        (ci_type_id addr, ci_type_id data) \<in>
          {(NullAddress, UnconnectedData), (ConnectedAddress, ConnectedData)})"
proof -
  consider "\<exists>a b. items = [a, b]" | "\<nexists>a b. items = [a, b]" by blast
  then show ?thesis
  proof cases
    case 1
    then show ?thesis
      by (auto simp: expect_explicit_data_def split: item_type.splits)
  next
    case 2
    then show ?thesis
      by (auto simp: expect_explicit_data_def split: list.splits)
  qed
qed

text \<open>
  The sockaddr payload is the one big-endian layout of the protocol: a payload decodes to a
  socket address exactly when it is the sixteen bytes that address encodes to.
\<close>

theorem sockaddr_decode_iff:
  assumes "length data \<le> isize_max"
  shows "sockaddr_decode data = Inr s \<longleftrightarrow> length (sin_zero s) = 8 \<and> data = sockaddr_encode s"
proof
  assume "sockaddr_decode data = Inr s"
  with assms show "length (sin_zero s) = 8 \<and> data = sockaddr_encode s"
    by (auto simp: sockaddr_decode_def sockaddr_encode_def writer_defs ok_then_Inr_iff
        r_expect_end_rest split: if_splits dest!: exactD)
qed auto

theorem sockaddr_decode_iff_witness:
  "sockaddr_decode [0, 2, 0x08, 0xAE, 192, 168, 1, 5, 0, 0, 0, 0, 0, 0, 0, 0] =
     Inr (sockaddr_ipv4 0xC0A80105 2222)"
  by (subst sockaddr_decode_iff) (simp, code_simp)

end
