(* ===== verification/Cip_Types.thy ===== *)
theory Cip_Types
  imports Encap
begin

text \<open>
  The elementary data types, \<^verbatim>\<open>crates/enip/src/cip/types.rs\<close>. The signed values are words read
  through \<open>sint\<close> by whoever interprets them, and the two floating-point types carry their bit
  patterns. For every elementary type the scalar codec is an instance of \<open>wire_item\<close>; it is not
  exact, because any non-zero byte reads as a true BOOL.
\<close>

definition VALUE_CONTEXT :: string where "VALUE_CONTEXT = ''cip value''"

datatype cip_type =
    TBool | TSint | TInt | TDint | TLint | TUsint | TUint | TUdint | TUlint | TReal | TLreal
  | TByte | TWord | TDword | TLword | TString | TStruct | TUnknown u16

definition cip_type_from_code :: "u16 \<Rightarrow> cip_type" where
  "cip_type_from_code c =
     (if c = 0xC1 then TBool
      else if c = 0xC2 then TSint
      else if c = 0xC3 then TInt
      else if c = 0xC4 then TDint
      else if c = 0xC5 then TLint
      else if c = 0xC6 then TUsint
      else if c = 0xC7 then TUint
      else if c = 0xC8 then TUdint
      else if c = 0xC9 then TUlint
      else if c = 0xCA then TReal
      else if c = 0xCB then TLreal
      else if c = 0xD1 then TByte
      else if c = 0xD2 then TWord
      else if c = 0xD3 then TDword
      else if c = 0xD4 then TLword
      else if c = 0xD0 then TString
      else if c = 0x02A0 then TStruct
      else TUnknown c)"

fun cip_type_code :: "cip_type \<Rightarrow> u16" where
  "cip_type_code TBool = 0xC1"
| "cip_type_code TSint = 0xC2"
| "cip_type_code TInt = 0xC3"
| "cip_type_code TDint = 0xC4"
| "cip_type_code TLint = 0xC5"
| "cip_type_code TUsint = 0xC6"
| "cip_type_code TUint = 0xC7"
| "cip_type_code TUdint = 0xC8"
| "cip_type_code TUlint = 0xC9"
| "cip_type_code TReal = 0xCA"
| "cip_type_code TLreal = 0xCB"
| "cip_type_code TByte = 0xD1"
| "cip_type_code TWord = 0xD2"
| "cip_type_code TDword = 0xD3"
| "cip_type_code TLword = 0xD4"
| "cip_type_code TString = 0xD0"
| "cip_type_code TStruct = 0x02A0"
| "cip_type_code (TUnknown v) = v"

fun element_size :: "cip_type \<Rightarrow> nat option" where
  "element_size TBool = Some 1" | "element_size TSint = Some 1"
| "element_size TUsint = Some 1" | "element_size TByte = Some 1"
| "element_size TInt = Some 2" | "element_size TUint = Some 2" | "element_size TWord = Some 2"
| "element_size TDint = Some 4" | "element_size TUdint = Some 4"
| "element_size TReal = Some 4" | "element_size TDword = Some 4"
| "element_size TLint = Some 8" | "element_size TUlint = Some 8"
| "element_size TLreal = Some 8" | "element_size TLword = Some 8"
| "element_size TString = None" | "element_size TStruct = None" | "element_size (TUnknown _) = None"

definition is_elementary :: "cip_type \<Rightarrow> bool" where
  "is_elementary t \<longleftrightarrow> element_size t \<noteq> None"

interpretation cip_type_table: code_table cip_type_from_code cip_type_code
  by unfold_locales (simp add: cip_type_from_code_def)

lemma cip_type_from_code_elementary [simp]:
  "is_elementary t \<Longrightarrow> cip_type_from_code (cip_type_code t) = t"
  by (cases t) (simp_all add: cip_type_from_code_def is_elementary_def)

section \<open>Values\<close>

datatype cip_value =
    VBool bool | VSint u8 | VInt u16 | VDint u32 | VLint u64
  | VUsint u8 | VUint u16 | VUdint u32 | VUlint u64
  | VReal u32 | VLreal u64 | VByte u8 | VWord u16 | VDword u32 | VLword u64
  | VArray cip_type "cip_value list"
  | VStruct (sv_handle: u16) (sv_bytes_len: nat)
  | VUnsupported (uv_type_code: u16) (uv_bytes_len: nat)

fun wire_type :: "cip_value \<Rightarrow> cip_type" where
  "wire_type (VBool _) = TBool"
| "wire_type (VSint _) = TSint"
| "wire_type (VInt _) = TInt"
| "wire_type (VDint _) = TDint"
| "wire_type (VLint _) = TLint"
| "wire_type (VUsint _) = TUsint"
| "wire_type (VUint _) = TUint"
| "wire_type (VUdint _) = TUdint"
| "wire_type (VUlint _) = TUlint"
| "wire_type (VReal _) = TReal"
| "wire_type (VLreal _) = TLreal"
| "wire_type (VByte _) = TByte"
| "wire_type (VWord _) = TWord"
| "wire_type (VDword _) = TDword"
| "wire_type (VLword _) = TLword"
| "wire_type (VArray ty _) = ty"
| "wire_type (VStruct _ _) = TStruct"
| "wire_type (VUnsupported type_code _) = cip_type_from_code type_code"

text \<open>\<open>as_value K f r\<close> is \<^verbatim>\<open>Ok(Self::K(r.f()?))\<close>.\<close>

definition as_value :: "('a \<Rightarrow> cip_value) \<Rightarrow> 'a decoder \<Rightarrow> cip_value decoder" where
  "as_value K f r = ok_then (f r) (\<lambda>(v, r). Inr (K v, r))"

fun decode_scalar :: "cip_type \<Rightarrow> cip_value decoder" where
  "decode_scalar TBool r = as_value (\<lambda>b. VBool (b \<noteq> 0)) r_u8 r"
| "decode_scalar TSint r = as_value VSint r_u8 r"
| "decode_scalar TInt r = as_value VInt r_u16 r"
| "decode_scalar TDint r = as_value VDint r_u32 r"
| "decode_scalar TLint r = as_value VLint r_u64 r"
| "decode_scalar TUsint r = as_value VUsint r_u8 r"
| "decode_scalar TUint r = as_value VUint r_u16 r"
| "decode_scalar TUdint r = as_value VUdint r_u32 r"
| "decode_scalar TUlint r = as_value VUlint r_u64 r"
| "decode_scalar TReal r = as_value VReal r_u32 r"
| "decode_scalar TLreal r = as_value VLreal r_u64 r"
| "decode_scalar TByte r = as_value VByte r_u8 r"
| "decode_scalar TWord r = as_value VWord r_u16 r"
| "decode_scalar TDword r = as_value VDword r_u32 r"
| "decode_scalar TLword r = as_value VLword r_u64 r"
| "decode_scalar _ r = Inl (Malformed VALUE_CONTEXT ''non-elementary type in scalar decode'')"

definition cip_value_decode :: "cip_type \<Rightarrow> bytes \<Rightarrow> wire_error + cip_value" where
  "cip_value_decode ty data =
     (case element_size ty of
        None \<Rightarrow> Inl (Malformed VALUE_CONTEXT ''type has no fixed element size'')
      | Some size_n \<Rightarrow>
          (if size_n = 0 then Inl (Overflow VALUE_CONTEXT)
           else
             let count = length data div size_n; rem_n = length data mod size_n
             in if rem_n \<noteq> 0
                then Inl (Malformed VALUE_CONTEXT ''value length not a multiple of element size'')
                else if count = 0 then Inl (Truncated size_n 0 VALUE_CONTEXT)
                else
                  let r = r_with_context data VALUE_CONTEXT
                  in if count = 1
                     then ok_then (decode_scalar ty r) (\<lambda>(v, r).
                          ok_then (r_expect_end r) (\<lambda>_. Inr v))
                     else ok_then (r_repeat (decode_scalar ty) count r) (\<lambda>(elems, r).
                          ok_then (r_expect_end r) (\<lambda>_. Inr (VArray ty elems)))))"

definition decode_tagged :: "bytes \<Rightarrow> wire_error + cip_type \<times> cip_value" where
  "decode_tagged data =
     ok_then (r_u16 (r_with_context data VALUE_CONTEXT)) (\<lambda>(code, r).
       let ty = cip_type_from_code code
       in case ty of
            TStruct \<Rightarrow>
              ok_then (r_u16 r) (\<lambda>(handle, r). Inr (ty, VStruct handle (r_remaining r)))
          | TString \<Rightarrow> Inr (ty, VUnsupported code (r_remaining r))
          | TUnknown _ \<Rightarrow> Inr (ty, VUnsupported code (r_remaining r))
          | elementary \<Rightarrow>
              ok_then (cip_value_decode elementary (fst (r_take_rest r))) (\<lambda>v. Inr (elementary, v)))"

fun encode_value :: "cip_value \<Rightarrow> bytes \<Rightarrow> wire_error + bytes"
  and encode_values :: "cip_value list \<Rightarrow> bytes \<Rightarrow> wire_error + bytes" where
  "encode_value (VBool v) w = Inr (w_u8 (if v then 0xFF else 0x00) w)"
| "encode_value (VSint v) w = Inr (w_u8 v w)"
| "encode_value (VInt v) w = Inr (w_u16 v w)"
| "encode_value (VDint v) w = Inr (w_u32 v w)"
| "encode_value (VLint v) w = Inr (w_u64 v w)"
| "encode_value (VUsint v) w = Inr (w_u8 v w)"
| "encode_value (VUint v) w = Inr (w_u16 v w)"
| "encode_value (VUdint v) w = Inr (w_u32 v w)"
| "encode_value (VUlint v) w = Inr (w_u64 v w)"
| "encode_value (VReal v) w = Inr (w_u32 v w)"
| "encode_value (VLreal v) w = Inr (w_u64 v w)"
| "encode_value (VByte v) w = Inr (w_u8 v w)"
| "encode_value (VWord v) w = Inr (w_u16 v w)"
| "encode_value (VDword v) w = Inr (w_u32 v w)"
| "encode_value (VLword v) w = Inr (w_u64 v w)"
| "encode_value (VArray _ elems) w = encode_values elems w"
| "encode_value (VStruct _ _) w =
     Inl (Malformed VALUE_CONTEXT ''cannot encode struct/unsupported value'')"
| "encode_value (VUnsupported _ _) w =
     Inl (Malformed VALUE_CONTEXT ''cannot encode struct/unsupported value'')"
| "encode_values [] w = Inr w"
| "encode_values (e # es) w = ok_then (encode_value e w) (encode_values es)"

fun element_count :: "cip_value \<Rightarrow> nat" where
  "element_count (VArray _ elems) = length elems"
| "element_count _ = 1"

section \<open>The scalar codec\<close>

fun is_scalar :: "cip_value \<Rightarrow> bool" where
  "is_scalar (VArray _ _) = False"
| "is_scalar (VStruct _ _) = False"
| "is_scalar (VUnsupported _ _) = False"
| "is_scalar _ = True"

definition scalar_of :: "cip_type \<Rightarrow> cip_value \<Rightarrow> bool" where
  "scalar_of ty v \<longleftrightarrow> is_scalar v \<and> wire_type v = ty"

definition scalar_bytes :: "cip_value \<Rightarrow> bytes" where
  "scalar_bytes v = (case encode_value v [] of Inr bs \<Rightarrow> bs | Inl _ \<Rightarrow> [])"

text \<open>The values the decoder can produce: a scalar, or an array of at least two scalars of one type.\<close>

fun wf_value :: "cip_value \<Rightarrow> bool" where
  "wf_value (VArray ty elems) \<longleftrightarrow> is_elementary ty \<and> list_all (scalar_of ty) elems \<and> 2 \<le> length elems"
| "wf_value v \<longleftrightarrow> is_scalar v"

lemma encode_scalar: "is_scalar v \<Longrightarrow> encode_value v w = Inr (w @ scalar_bytes v)"
  by (cases v) (simp_all add: scalar_bytes_def writer_defs)

lemma encode_scalars: "list_all is_scalar vs \<Longrightarrow> encode_values vs w = Inr (w @ concat (map scalar_bytes vs))"
  by (induction vs arbitrary: w) (simp_all add: encode_scalar)

lemma length_scalar_bytes:
  "is_scalar v \<Longrightarrow> element_size (wire_type v) = Some (length (scalar_bytes v))"
  by (cases v) (simp_all add: scalar_bytes_def writer_defs)

lemma element_size_pos: "element_size ty = Some n \<Longrightarrow> 0 < n \<and> n \<le> 8"
  by (cases ty) auto

lemma decode_scalar_read_write:
  assumes "wf_reader r" "scalar_of ty v" "r_rest r = scalar_bytes v @ t"
  shows "reads (decode_scalar ty) r v t"
  using assms
  by (cases v) (auto simp: scalar_of_def scalar_bytes_def writer_defs wire_simps as_value_def intro!: readsI)

interpretation scalars: wire_item scalar_bytes "decode_scalar ty" "scalar_of ty" for ty
  by unfold_locales (rule decode_scalar_read_write)

text \<open>Decoding a scalar is total on a cursor with enough bytes, and consumes exactly its size.\<close>

lemma decode_scalar_total:
  assumes "wf_reader r" "element_size ty = Some n" "n \<le> length (r_rest r)"
  shows "\<exists>v. decode_scalar ty r = Inr (v, r_adv n r) \<and> scalar_of ty v \<and>
    (ty \<noteq> TBool \<longrightarrow> scalar_bytes v = take n (r_rest r))"
  using assms
  by (cases ty) (auto simp: as_value_def wire_simps scalar_of_def scalar_bytes_def writer_defs le_back
      take_one_hd)

lemma decode_scalars_total:
  "wf_reader r \<Longrightarrow> element_size ty = Some n \<Longrightarrow> k * n \<le> length (r_rest r) \<Longrightarrow>
   \<exists>vs. r_repeat (decode_scalar ty) k r = Inr (vs, r_adv (k * n) r) \<and> list_all (scalar_of ty) vs \<and>
     length vs = k \<and> (ty \<noteq> TBool \<longrightarrow> concat (map scalar_bytes vs) = take (k * n) (r_rest r))"
proof (induction k arbitrary: r)
  case (Suc k)
  then have n: "n \<le> length (r_rest r)" by simp
  then obtain v where v: "decode_scalar ty r = Inr (v, r_adv n r)" "scalar_of ty v"
    "ty \<noteq> TBool \<longrightarrow> scalar_bytes v = take n (r_rest r)"
    using decode_scalar_total [OF Suc.prems(1,2)] by blast
  have "k * n \<le> length (r_rest r) - n" using Suc.prems(3) by simp
  with Suc.IH [of "r_adv n r"] Suc.prems n obtain vs
    where vs: "r_repeat (decode_scalar ty) k (r_adv n r) = Inr (vs, r_adv (n + k * n) r)"
      "list_all (scalar_of ty) vs" "length vs = k"
      "ty \<noteq> TBool \<longrightarrow> concat (map scalar_bytes vs) = take (k * n) (drop n (r_rest r))"
    by auto
  with v show ?case by (auto simp: take_add)
qed simp

section \<open>Whole values\<close>

lemma is_scalarI: "scalar_of ty v \<Longrightarrow> is_scalar v"
  by (simp add: scalar_of_def)

lemma wf_value_scalar: "is_scalar v \<Longrightarrow> wf_value v"
  by (cases v) auto

lemma value_decode_length:
  assumes "element_size ty = Some n" "n dvd length data" "data \<noteq> []" "length data \<le> isize_max"
  shows "\<exists>v. cip_value_decode ty data = Inr v \<and> wf_value v \<and> wire_type v = ty \<and>
    element_count v = length data div n \<and> (ty \<noteq> TBool \<longrightarrow> encode_value v [] = Inr data)"
proof -
  let ?r = "r_with_context data VALUE_CONTEXT" and ?k = "length data div n"
  from assms(2) obtain k where k: "length data = n * k" ..
  have n: "0 < n" using element_size_pos [OF assms(1)] by simp
  with k have kk: "?k = k" by simp
  with k n assms(3) have "0 < k" by (cases k) auto
  have wf: "wf_reader ?r" using assms(4) by simp
  show ?thesis
  proof (cases "k = 1")
    case True
    obtain v where "decode_scalar ty ?r = Inr (v, r_adv n ?r)" "scalar_of ty v"
      "ty \<noteq> TBool \<longrightarrow> scalar_bytes v = data"
      using decode_scalar_total [OF wf assms(1)] k True by auto
    moreover from this(2) have "element_count v = 1" by (cases v) (auto simp: scalar_of_def)
    ultimately show ?thesis
      using assms(1) n k kk True
      by (auto simp: cip_value_decode_def Let_def r_expect_end_rest scalar_of_def wf_value_scalar encode_scalar)
  next
    case False
    obtain vs where vs: "r_repeat (decode_scalar ty) k ?r = Inr (vs, r_adv (k * n) ?r)"
      "list_all (scalar_of ty) vs" "length vs = k"
      "ty \<noteq> TBool \<longrightarrow> concat (map scalar_bytes vs) = data"
      using decode_scalars_total [OF wf assms(1), of k] k by (auto simp: mult.commute)
    from vs(2) have "list_all is_scalar vs" by (auto elim: list.pred_mono_strong is_scalarI)
    with vs False assms(1) n k kk \<open>0 < k\<close> show ?thesis
      by (auto simp: cip_value_decode_def Let_def r_expect_end_rest mult.commute encode_scalars
          is_elementary_def)
  qed
qed

lemma value_decode_ok:
  assumes "cip_value_decode ty data = Inr v"
  shows "\<exists>n. element_size ty = Some n \<and> n dvd length data \<and> data \<noteq> []"
  using assms by (auto simp: cip_value_decode_def Let_def split: option.splits if_splits)

lemma concat_scalar_bytes_length:
  assumes "list_all (scalar_of ty) es" "element_size ty = Some n"
  shows "length (concat (map scalar_bytes es)) = n * length es"
proof -
  have "\<forall>e \<in> set es. length (scalar_bytes e) = n"
    using assms length_scalar_bytes by (fastforce simp: list_all_iff scalar_of_def)
  then show ?thesis by (induction es) auto
qed

lemma value_encode_length:
  assumes "wf_value v"
  shows "\<exists>bs n. encode_value v [] = Inr bs \<and> element_size (wire_type v) = Some n \<and>
    length bs = n * element_count v"
proof (cases "\<exists>ty es. v = VArray ty es")
  case True
  then obtain ty es where v: "v = VArray ty es" by blast
  with assms have es: "list_all (scalar_of ty) es" "is_elementary ty" by auto
  from es(1) have "list_all is_scalar es" by (auto elim: list.pred_mono_strong is_scalarI)
  with v es show ?thesis by (auto simp: encode_scalars is_elementary_def concat_scalar_bytes_length)
next
  case False
  with assms have "is_scalar v" "element_count v = 1" by (cases v; simp)+
  then show ?thesis by (simp add: encode_scalar length_scalar_bytes)
qed

lemma value_decode_encode:
  assumes "wf_value v" "encode_value v [] = Inr data" "length data \<le> isize_max"
  shows "cip_value_decode (wire_type v) data = Inr v"
proof (cases "\<exists>ty es. v = VArray ty es")
  case False
  then have v: "is_scalar v" using assms(1) by (cases v) auto
  then have d: "data = scalar_bytes v" using assms(2) by (simp add: encode_scalar)
  let ?r = "r_with_context data VALUE_CONTEXT"
  have "reads (decode_scalar (wire_type v)) ?r v []"
    using scalars.read_write [of ?r "wire_type v" v "[]"] v d assms(3) by (simp add: scalar_of_def)
  with d show ?thesis
    using length_scalar_bytes [OF v] element_size_pos [OF length_scalar_bytes [OF v]]
    by (auto simp: cip_value_decode_def Let_def r_expect_end_rest elim!: readsE)
next
  case True
  then obtain ty es where v: "v = VArray ty es" by blast
  with assms have es: "list_all (scalar_of ty) es" "2 \<le> length es" "is_elementary ty" by auto
  from es(1) have sc: "list_all is_scalar es" by (auto elim: list.pred_mono_strong is_scalarI)
  with v assms(2) have d: "data = concat (map scalar_bytes es)" by (simp add: encode_scalars)
  from es(3) obtain n where n: "element_size ty = Some n" by (auto simp: is_elementary_def)
  have len: "length data = length es * n"
    unfolding d by (simp add: concat_scalar_bytes_length [OF es(1) n])
  let ?r = "r_with_context data VALUE_CONTEXT"
  have "reads (r_repeat (decode_scalar ty) (length es)) ?r es []"
    by (rule scalars.repeat_read_write) (use es d assms(3) in auto)
  with v n len es(2) element_size_pos [OF n] show ?thesis
    by (auto simp: cip_value_decode_def Let_def r_expect_end_rest elim!: readsE)
qed

lemma value_decode_ok_iff:
  assumes "length data \<le> isize_max"
  shows "(\<exists>v. cip_value_decode ty data = Inr v) \<longleftrightarrow>
      (\<exists>n. element_size ty = Some n \<and> n dvd length data \<and> data \<noteq> [])"
  using value_decode_ok value_decode_length [OF _ _ _ assms] by blast

section \<open>Properties\<close>

text \<open>
  Every value the type system can write reads back: a scalar, or an array of at least two
  scalars of one elementary type, is recovered from its encoded bytes under its own wire type.
\<close>

theorem cip_value_round_trip:
  assumes "wf_value v" "encode_value v [] = Inr data" "length data \<le> isize_max"
  shows "cip_value_decode (wire_type v) data = Inr v"
  by (rule value_decode_encode [OF assms])

theorem cip_value_round_trip_witness:
  "cip_value_decode TInt [0x34, 0x12, 0xFF, 0xFF] = Inr (VArray TInt [VInt 0x1234, VInt 0xFFFF])"
  using cip_value_round_trip [of "VArray TInt [VInt 0x1234, VInt 0xFFFF]" "[0x34, 0x12, 0xFF, 0xFF]"]
  by (simp add: is_elementary_def scalar_of_def writer_defs le_bytes_unfold)

text \<open>
  Decoding by the declared type succeeds exactly on a non-empty whole number of elements of
  an elementary type. The result is a value of that type with one element per element size of
  input, and for every type but BOOL it encodes back to the very bytes it was read from.
\<close>

theorem cip_value_decode_exact:
  assumes "length data \<le> isize_max"
  shows "(case cip_value_decode ty data of
      Inl _ \<Rightarrow> \<nexists>n. element_size ty = Some n \<and> n dvd length data \<and> data \<noteq> []
    | Inr v \<Rightarrow> \<exists>n. element_size ty = Some n \<and> n dvd length data \<and> data \<noteq> [] \<and>
        wf_value v \<and> wire_type v = ty \<and> element_count v = length data div n \<and>
        (ty = TBool \<or> encode_value v [] = Inr data))"
proof (cases "cip_value_decode ty data")
  case (Inl e)
  then show ?thesis using value_decode_length [OF _ _ _ assms, of ty] by fastforce
next
  case (Inr v)
  from value_decode_ok [OF this] obtain n where "element_size ty = Some n" "n dvd length data" "data \<noteq> []"
    by blast
  with value_decode_length [OF this assms] Inr show ?thesis by auto
qed

theorem cip_value_decode_exact_witness:
  "case cip_value_decode TDint [1, 0, 0, 0, 2, 0, 0, 0] of
     Inl _ \<Rightarrow> False
   | Inr v \<Rightarrow> element_count v = 2 \<and> encode_value v [] = Inr [1, 0, 0, 0, 2, 0, 0, 0]"
  using cip_value_decode_exact [of "[1, 0, 0, 0, 2, 0, 0, 0]" TDint]
  by (auto simp: dvd_eq_mod_eq_0 split: sum.splits)

text \<open>
  A tagged value is rejected only for its length: two bytes of type code, two more of
  template handle for a structure, and for an elementary type a non-empty whole number of
  elements. A STRING or a code of no known type is always carried as data with its length.
\<close>

theorem decode_tagged_ok_iff:
  assumes "length data \<le> isize_max"
  shows "(\<exists>r. decode_tagged data = Inr r) \<longleftrightarrow>
    2 \<le> length data \<and>
    (let ty = cip_type_from_code (from_le_bytes (take 2 data)) in
       (ty = TStruct \<longrightarrow> 4 \<le> length data) \<and>
       (\<forall>n. element_size ty = Some n \<longrightarrow> n dvd (length data - 2) \<and> 2 < length data))"
proof -
  let ?ty = "cip_type_from_code (from_le_bytes (take 2 data))"
  have "(\<exists>v. cip_value_decode ?ty (drop 2 data) = Inr v) \<longleftrightarrow>
      (\<exists>n. element_size ?ty = Some n \<and> n dvd (length data - 2) \<and> 2 < length data)"
    using value_decode_ok_iff [of "drop 2 data" ?ty] assms by auto
  with assms show ?thesis
    by (cases "?ty") (auto simp: decode_tagged_def Let_def wire_simps ok_then_def
        split: sum.splits)
qed

theorem decode_tagged_ok_iff_witness:
  "(\<exists>r. decode_tagged [0xC4, 0, 7, 0, 0, 0] = Inr r) \<and> \<not> (\<exists>r. decode_tagged [0xC4, 0, 7, 0] = Inr r) \<and>
   (\<exists>r. decode_tagged [0xD0, 0] = Inr r)"
  using decode_tagged_ok_iff [of "[0xC4, 0, 7, 0, 0, 0]"] decode_tagged_ok_iff [of "[0xC4, 0, 7, 0]"]
    decode_tagged_ok_iff [of "[0xD0, 0]"]
  by (simp add: cip_type_from_code_def Let_def dvd_eq_mod_eq_0)

end
