(* ===== verification/Epath.thy ===== *)
theory Epath
  imports Cip_Status
begin

text \<open>
  Request paths, \<^verbatim>\<open>crates/enip/src/cip/epath.rs\<close>: the logical, symbolic and port segments with
  their self-padding encoding, the path builder with its length limit, and the parser of Logix
  tag addresses.
\<close>

definition EPATH_CONTEXT :: string where "EPATH_CONTEXT = ''epath''"

definition CONNECTION_MANAGER :: bytes where "CONNECTION_MANAGER = [0x20, 0x06, 0x24, 0x01]"

definition MAX_PATH_WORDS :: nat where "MAX_PATH_WORDS = 255"

section \<open>Segments\<close>

record port_segment =
  ps_port :: u8
  ps_link :: bytes

definition backplane_slot :: "u8 \<Rightarrow> port_segment" where
  "backplane_slot slot = \<lparr>ps_port = 1, ps_link = [slot]\<rparr>"

definition port_segment_encode :: "port_segment \<Rightarrow> bytes \<Rightarrow> enip_error + bytes" where
  "port_segment_encode p w =
     (if ps_port p > 14 then Inl (EUnsupported ''route port > 14 (D-ENIP-13)'')
      else
        let link_len = length (ps_link p) in
        ok_then (ok_or (u8_try_from link_len) (ETooLarge 255)) (\<lambda>size_n.
          let is_extended = link_len > 1;
              first = (if is_extended then ps_port p OR 0x10 else ps_port p);
              w = w_u8 first w;
              w = (if is_extended then w_u8 size_n w else w);
              w = w_put_slice (ps_link p) w;
              base = (if is_extended then 2 else 1)
          in ok_then (ok_or (checked_add_usize base link_len) (ETooLarge 255)) (\<lambda>seg_len.
             Inr (if seg_len mod 2 \<noteq> 0 then w_u8 0 w else w))))"

datatype segment =
    Class u16
  | Instance u32
  | Attribute u16
  | Element u32
  | ConnectionPoint u16
  | Symbol rstr
  | Port port_segment

definition encode_logical :: "bytes \<Rightarrow> u8 \<Rightarrow> u8 \<Rightarrow> u16 \<Rightarrow> bytes" where
  "encode_logical w code8 code16 v =
     (if v \<le> 255 then w_u8 (ucast v) (w_u8 code8 w)
      else w_u16 v (w_u8 0x00 (w_u8 code16 w)))"

definition encode_logical_wide :: "bytes \<Rightarrow> u8 \<Rightarrow> u8 \<Rightarrow> u8 \<Rightarrow> u32 \<Rightarrow> bytes" where
  "encode_logical_wide w code8 code16 code32 v =
     (if v \<le> 255 then w_u8 (ucast v) (w_u8 code8 w)
      else if v \<le> 65535 then w_u16 (ucast v) (w_u8 0x00 (w_u8 code16 w))
      else w_u32 v (w_u8 0x00 (w_u8 code32 w)))"

fun segment_encode :: "segment \<Rightarrow> bytes \<Rightarrow> enip_error + bytes" where
  "segment_encode (Class v) w = Inr (encode_logical w 0x20 0x21 v)"
| "segment_encode (Instance v) w = Inr (encode_logical_wide w 0x24 0x25 0x26 v)"
| "segment_encode (Attribute v) w = Inr (encode_logical w 0x30 0x31 v)"
| "segment_encode (ConnectionPoint v) w = Inr (encode_logical w 0x2C 0x2D v)"
| "segment_encode (Element v) w = Inr (encode_logical_wide w 0x28 0x29 0x2A v)"
| "segment_encode (Symbol name) w =
     ok_then (ok_or (u8_try_from (length name)) (ETooLarge 255)) (\<lambda>count.
       if count = 0 then Inl (EMalformed (Malformed EPATH_CONTEXT ''empty symbolic segment''))
       else
         let w = w_put_slice name (w_u8 count (w_u8 0x91 w))
         in Inr (if length name mod 2 \<noteq> 0 then w_u8 0x00 w else w))"
| "segment_encode (Port p) w = port_segment_encode p w"

section \<open>Paths\<close>

type_synonym epath = "segment list"

definition ep_class :: "u16 \<Rightarrow> epath \<Rightarrow> epath" where "ep_class i p = p @ [Class i]"
definition ep_instance :: "u32 \<Rightarrow> epath \<Rightarrow> epath" where "ep_instance i p = p @ [Instance i]"
definition ep_attribute :: "u16 \<Rightarrow> epath \<Rightarrow> epath" where "ep_attribute i p = p @ [Attribute i]"
definition ep_element :: "u32 \<Rightarrow> epath \<Rightarrow> epath" where "ep_element i p = p @ [Element i]"
definition ep_connection_point :: "u16 \<Rightarrow> epath \<Rightarrow> epath" where
  "ep_connection_point i p = p @ [ConnectionPoint i]"
definition ep_symbol :: "rstr \<Rightarrow> epath \<Rightarrow> epath" where "ep_symbol n p = p @ [Symbol n]"
definition ep_port :: "port_segment \<Rightarrow> epath \<Rightarrow> epath" where "ep_port s p = p @ [Port s]"
definition ep_prepend :: "segment \<Rightarrow> epath \<Rightarrow> epath" where "ep_prepend s p = s # p"

primrec segments_encode :: "segment list \<Rightarrow> bytes \<Rightarrow> enip_error + bytes" where
  "segments_encode [] w = Inr w"
| "segments_encode (seg # segs) w = ok_then (segment_encode seg w) (segments_encode segs)"

definition epath_encode :: "epath \<Rightarrow> enip_error + bytes" where
  "epath_encode p =
     ok_then (segments_encode p []) (\<lambda>w.
       if length w mod 2 \<noteq> 0
       then Inl (EMalformed (Malformed EPATH_CONTEXT ''epath encoded to odd length''))
       else if length w div 2 > MAX_PATH_WORDS then Inl (ETooLarge MAX_PATH_WORDS)
       else Inr w)"

definition word_len :: "epath \<Rightarrow> enip_error + u8" where
  "word_len p =
     ok_then (epath_encode p) (\<lambda>bs. ok_or (u8_try_from (length bs div 2)) (ETooLarge MAX_PATH_WORDS))"

section \<open>Tag addresses\<close>

datatype path_error = PathEmpty | EmptyComponent | InvalidName | InvalidIndex | NumberOverflow

definition parse_index :: "rstr \<Rightarrow> path_error + u32" where
  "parse_index t =
     (if t = [] \<or> \<not> list_all is_ascii_digit t then Inl InvalidIndex
      else ok_or (parse_u32 t) NumberOverflow)"

definition validate_name :: "rstr \<Rightarrow> path_error + unit" where
  "validate_name name =
     (if name = [] \<or> length name > 255 then Inl InvalidName
      else if \<not> (is_ascii_alphabetic (hd name) \<or> hd name = 95) then Inl InvalidName
      else if \<not> list_all (\<lambda>b. is_ascii_alphanumeric b \<or> b = 95 \<or> b = 58) name then Inl InvalidName
      else Inr ())"

primrec parse_indices :: "rstr list \<Rightarrow> segment list \<Rightarrow> path_error + segment list" where
  "parse_indices [] segments = Inr segments"
| "parse_indices (idx # idxs) segments =
     ok_then (parse_index idx) (\<lambda>n. parse_indices idxs (segments @ [Element n]))"

definition parse_index_group :: "rstr \<Rightarrow> segment list \<Rightarrow> path_error + segment list" where
  "parse_index_group grp segments =
     (case Option.bind (strip_prefix 91 grp) (strip_suffix 93) of
        None \<Rightarrow> Inl InvalidIndex
      | Some inner \<Rightarrow>
          if inner = [] then Inl InvalidIndex
          else parse_indices (split_on 44 inner) segments)"

definition parse_component :: "rstr \<Rightarrow> segment list \<Rightarrow> path_error + segment list" where
  "parse_component component segments =
     (if component = [] then Inl EmptyComponent
      else if is_ascii_digit (hd component) then
        ok_then (parse_index component) (\<lambda>num. Inr (segments @ [Element num]))
      else
        let name = takeWhile (\<lambda>b. b \<noteq> 91) component;
            index_group = dropWhile (\<lambda>b. b \<noteq> 91) component
        in ok_then (validate_name name) (\<lambda>_.
             let segments = segments @ [Symbol name]
             in if index_group \<noteq> [] then parse_index_group index_group segments else Inr segments))"

primrec parse_components :: "rstr list \<Rightarrow> segment list \<Rightarrow> path_error + segment list" where
  "parse_components [] segments = Inr segments"
| "parse_components (c # cs) segments = ok_then (parse_component c segments) (parse_components cs)"

record tag_address =
  ta_path :: epath
  ta_display :: rstr

definition tag_parse :: "rstr \<Rightarrow> path_error + tag_address" where
  "tag_parse input =
     (if input = [] then Inl PathEmpty
      else ok_then (parse_components (split_on 46 input) []) (\<lambda>segments.
        Inr \<lparr>ta_path = segments, ta_display = input\<rparr>))"

definition tag_encode :: "tag_address \<Rightarrow> enip_error + bytes" where
  "tag_encode t = epath_encode (ta_path t)"

section \<open>The encoding of one segment\<close>

fun encodable :: "segment \<Rightarrow> bool" where
  "encodable (Symbol name) \<longleftrightarrow> 0 < length name \<and> length name < 256"
| "encodable (Port p) \<longleftrightarrow> ps_port p \<le> 14 \<and> length (ps_link p) < 256"
| "encodable _ \<longleftrightarrow> True"

definition seg_bytes :: "segment \<Rightarrow> bytes" where
  "seg_bytes s = (case segment_encode s [] of Inr bs \<Rightarrow> bs | Inl _ \<Rightarrow> [])"

lemma add_small_usize [simp]: "n < 256 \<Longrightarrow> checked_add_usize 2 n = Some (2 + n)"
  "n < 256 \<Longrightarrow> checked_add_usize 1 n = Some (1 + n)"
  "n < 256 \<Longrightarrow> checked_add_usize (Suc 0) n = Some (Suc n)"
  by (simp_all add: checked_add_usize_def usize_max_def)

lemma of_nat_u8_eq_0: "n < 256 \<Longrightarrow> (of_nat n :: u8) = 0 \<longleftrightarrow> n = 0"
  using unat_of_nat_small [of n, where ?'a = 8] by auto

lemma segment_encode_ok:
  "encodable s \<Longrightarrow> segment_encode s w = Inr (w @ seg_bytes s)"
  by (cases s) (auto simp: seg_bytes_def encode_logical_def encode_logical_wide_def writer_defs
      u8_try_from_def port_segment_encode_def Let_def of_nat_u8_eq_0)

lemma segment_encode_err:
  "\<not> encodable s \<Longrightarrow> \<exists>e. segment_encode s w = Inl e"
  by (cases s) (auto simp: u8_try_from_def port_segment_encode_def Let_def)

definition pad_bytes :: "bytes \<Rightarrow> bytes" where
  "pad_bytes bs = (if even (length bs) then bs else bs @ [0])"

lemma pad_bytes_simps [simp]: "even (length (pad_bytes bs))" "length bs \<le> length (pad_bytes bs)"
  by (simp_all add: pad_bytes_def)

lemma seg_bytes_logical:
  "seg_bytes (Class v2) = encode_logical [] 0x20 0x21 v2"
  "seg_bytes (Attribute v2) = encode_logical [] 0x30 0x31 v2"
  "seg_bytes (ConnectionPoint v2) = encode_logical [] 0x2C 0x2D v2"
  "seg_bytes (Instance v4) = encode_logical_wide [] 0x24 0x25 0x26 v4"
  "seg_bytes (Element v4) = encode_logical_wide [] 0x28 0x29 0x2A v4"
  by (simp_all add: seg_bytes_def)

lemma seg_bytes_symbol:
  "0 < length n \<Longrightarrow> length n < 256 \<Longrightarrow> seg_bytes (Symbol n) = [0x91, of_nat (length n)] @ pad_bytes n"
  by (simp add: seg_bytes_def writer_defs u8_try_from_def Let_def of_nat_u8_eq_0 pad_bytes_def
      even_iff_mod_2_eq_zero)

lemma seg_bytes_port:
  assumes "ps_port p \<le> 14" "length (ps_link p) < 256"
  shows "seg_bytes (Port p) =
    (case ps_link p of
       [] \<Rightarrow> [ps_port p, 0]
     | [l] \<Rightarrow> [ps_port p, l]
     | _ \<Rightarrow> [ps_port p OR 0x10, of_nat (length (ps_link p))] @ pad_bytes (ps_link p))"
  using assms
  by (auto simp: seg_bytes_def port_segment_encode_def writer_defs u8_try_from_def Let_def pad_bytes_def
      even_iff_mod_2_eq_zero not_less split: list.split)

lemma even_seg_bytes: "encodable s \<Longrightarrow> even (length (seg_bytes s)) \<and> 2 \<le> length (seg_bytes s)"
  by (cases s) (auto simp: seg_bytes_logical seg_bytes_symbol seg_bytes_port encode_logical_def
      encode_logical_wide_def writer_defs split: list.split)

lemma segments_encode_iff:
  "segments_encode segs w = Inr bs \<longleftrightarrow> list_all encodable segs \<and> bs = w @ concat (map seg_bytes segs)"
proof (induction segs arbitrary: w)
  case (Cons s segs)
  show ?case
  proof (cases "encodable s")
    case True
    then show ?thesis using Cons by (simp add: segment_encode_ok)
  next
    case False
    then obtain e where "segment_encode s w = Inl e" using segment_encode_err by blast
    with False show ?thesis by simp
  qed
qed auto

lemma even_concat_seg_bytes: "list_all encodable segs \<Longrightarrow> even (length (concat (map seg_bytes segs)))"
  by (induction segs) (auto simp: even_seg_bytes)

lemma epath_encode_iff:
  "epath_encode p = Inr bs \<longleftrightarrow>
     list_all encodable p \<and> bs = concat (map seg_bytes p) \<and> length bs \<le> 510"
proof -
  have "length bs div 2 \<le> 255 \<longleftrightarrow> length bs \<le> 510" if "even (length bs)" using that by auto
  then show ?thesis
    by (auto simp: epath_encode_def ok_then_Inr_iff segments_encode_iff MAX_PATH_WORDS_def
        dvd_eq_mod_eq_0 [symmetric] even_concat_seg_bytes not_less split: if_splits)
qed

section \<open>Unambiguous addressing\<close>

text \<open>
  A reader of the padded form, as the CIP specification defines it. It is the reference the
  encoder is held against: since it recovers every segment, no two paths share an encoding.
\<close>

definition pad_even :: "nat \<Rightarrow> 'a decoder \<Rightarrow> 'a decoder" where
  "pad_even n f r = ok_then (f r) (\<lambda>(x, r). ok_then (r_skip (n mod 2) r) (\<lambda>(_, r). Inr (x, r)))"

definition read_as :: "('a \<Rightarrow> segment) \<Rightarrow> nat \<Rightarrow> 'a decoder \<Rightarrow> segment decoder" where
  "read_as K pad f r = ok_then (r_skip pad r) (\<lambda>(_, r). ok_then (f r) (\<lambda>(v, r). Inr (K v, r)))"

definition read_sized :: "(bytes \<Rightarrow> segment) \<Rightarrow> segment decoder" where
  "read_sized K r = ok_then (r_u8 r) (\<lambda>(n, r).
     ok_then (pad_even (unat n) (r_take (unat n)) r) (\<lambda>(bs, r). Inr (K bs, r)))"

definition segment_read :: "segment decoder" where
  "segment_read r = ok_then (r_u8 r) (\<lambda>(b, r).
     if b = 0x20 then read_as (\<lambda>v. Class (ucast v)) 0 r_u8 r
     else if b = 0x21 then read_as Class 1 r_u16 r
     else if b = 0x24 then read_as (\<lambda>v. Instance (ucast v)) 0 r_u8 r
     else if b = 0x25 then read_as (\<lambda>v. Instance (ucast v)) 1 r_u16 r
     else if b = 0x26 then read_as Instance 1 r_u32 r
     else if b = 0x28 then read_as (\<lambda>v. Element (ucast v)) 0 r_u8 r
     else if b = 0x29 then read_as (\<lambda>v. Element (ucast v)) 1 r_u16 r
     else if b = 0x2A then read_as Element 1 r_u32 r
     else if b = 0x2C then read_as (\<lambda>v. ConnectionPoint (ucast v)) 0 r_u8 r
     else if b = 0x2D then read_as ConnectionPoint 1 r_u16 r
     else if b = 0x30 then read_as (\<lambda>v. Attribute (ucast v)) 0 r_u8 r
     else if b = 0x31 then read_as Attribute 1 r_u16 r
     else if b = 0x91 then read_sized Symbol r
     else if b AND 0x10 \<noteq> 0 then read_sized (\<lambda>l. Port \<lparr>ps_port = b AND 0x0F, ps_link = l\<rparr>) r
     else read_as (\<lambda>v. Port \<lparr>ps_port = b, ps_link = [v]\<rparr>) 0 r_u8 r)"

text \<open>A port segment without a link address encodes like the link address zero; a route has one.\<close>

fun linked :: "segment \<Rightarrow> bool" where
  "linked (Port p) \<longleftrightarrow> ps_link p \<noteq> []"
| "linked _ \<longleftrightarrow> True"

lemma ucast_small:
  fixes v2 :: u16 and v4 :: u32
  shows "v2 \<le> 255 \<Longrightarrow> ucast (ucast v2 :: u8) = v2"
    and "v4 \<le> 255 \<Longrightarrow> ucast (ucast v4 :: u8) = v4"
    and "v4 \<le> 65535 \<Longrightarrow> ucast (ucast v4 :: u16) = v4"
  by (rule ucast_narrow, simp add: word_le_nat_alt)+

lemma port_cases:
  assumes "p \<le> (14 :: u8)"
  shows "p \<in> {0, 1, 2, 3, 4, 5, 6, 7, 8, 9, 10, 11, 12, 13, 14}"
proof -
  have "unat p \<le> 14" using assms by (simp add: word_le_nat_alt)
  then have "unat p \<in> set [0..<15]" by simp
  then have "p \<in> of_nat ` set [0..<15]" by (metis image_eqI word_of_natI)
  then show ?thesis by (simp add: upt_rec)
qed

lemma port_bits:
  assumes "p \<le> (14 :: u8)"
  shows "(p OR 0x10) AND 0x0F = p" "(p OR 0x10) AND 0x10 \<noteq> 0" "p AND 0x10 = 0"
    "p \<notin> {0x20, 0x21, 0x24, 0x25, 0x26, 0x28, 0x29, 0x2A, 0x2C, 0x2D, 0x30, 0x31, 0x91}"
    "p OR 0x10 \<notin> {0x20, 0x21, 0x24, 0x25, 0x26, 0x28, 0x29, 0x2A, 0x2C, 0x2D, 0x30, 0x31, 0x91}"
  using port_cases [OF assms] by auto

lemma read_sized_pad:
  assumes "wf_reader r" "length bs < 256" "r_rest r = of_nat (length bs) # pad_bytes bs @ t"
  shows "reads (read_sized K) r (K bs) t"
proof -
  have u: "unat (of_nat (length bs) :: u8) = length bs" using assms(2) by (simp add: unat_of_nat_small)
  consider "length bs mod 2 = 0" "pad_bytes bs = bs" | "length bs mod 2 = 1" "pad_bytes bs = bs @ [0]"
    by (cases "even (length bs)") (auto simp: pad_bytes_def odd_iff_mod_2_eq_one)
  then show ?thesis
    using assms u by cases (simp_all add: reads_def read_sized_def pad_even_def wire_simps r_take_eq)
qed

lemma segment_read_write:
  assumes r: "wf_reader r" and s: "encodable s \<and> linked s" and rest: "r_rest r = seg_bytes s @ t"
  shows "reads segment_read r s t"
proof (cases "\<exists>n. s = Symbol n \<or> (\<exists>p. s = Port p)")
  case False
  with assms show ?thesis
    by (cases s)
      (auto simp: segment_read_def read_as_def wire_simps seg_bytes_logical encode_logical_def
        encode_logical_wide_def ucast_small intro!: readsI split: if_splits)
next
  case True
  obtain b u where bu: "seg_bytes s = b # u"
    using even_seg_bytes [of s] s by (cases "seg_bytes s") auto
  have u8: "r_u8 r = Inr (b, r_adv 1 r)" and r1: "wf_reader (r_adv 1 r)" "r_rest (r_adv 1 r) = u @ t"
    using r rest bu by (simp_all add: wire_simps)
  consider (sym) n where "s = Symbol n" | (one) p l where "s = Port p" "ps_link p = [l]"
    | (many) p where "s = Port p" "length (ps_link p) > 1"
    using True s by (cases "ps_link (case s of Port p \<Rightarrow> p)" rule: remdups_adj.cases) auto
  then show ?thesis
  proof cases
    case sym
    with s bu have "b = 0x91" "u = of_nat (length n) # pad_bytes n" "length n < 256"
      by (simp_all add: seg_bytes_symbol)
    with sym r1 read_sized_pad [of "r_adv 1 r" n t Symbol] show ?thesis
      unfolding segment_read_def reads_def u8 by simp
  next
    case one
    with s bu have "b = ps_port p" "u = [l]" "ps_port p \<le> 14" "s = Port \<lparr>ps_port = ps_port p, ps_link = [l]\<rparr>"
      by (simp_all add: seg_bytes_port)
    with r rest bu port_bits [of "ps_port p"] show ?thesis
      unfolding segment_read_def reads_def u8 by (simp add: read_as_def wire_simps)
  next
    case many
    with s bu have "b = ps_port p OR 0x10" "u = of_nat (length (ps_link p)) # pad_bytes (ps_link p)"
      "ps_port p \<le> 14" "length (ps_link p) < 256" "Port \<lparr>ps_port = ps_port p, ps_link = ps_link p\<rparr> = Port p"
      by (auto simp: seg_bytes_port split: list.splits)
    with many r1 port_bits [of "ps_port p"]
      read_sized_pad [of "r_adv 1 r" "ps_link p" t "\<lambda>l. Port \<lparr>ps_port = ps_port p, ps_link = l\<rparr>"]
    show ?thesis
      unfolding segment_read_def reads_def u8 by simp
  qed
qed

interpretation segs: wire_item seg_bytes segment_read "\<lambda>s. encodable s \<and> linked s"
  by unfold_locales (rule segment_read_write)

lemma epath_injective:
  assumes "epath_encode p = Inr bs" "epath_encode q = Inr bs" "list_all linked p" "list_all linked q"
  shows "p = q"
proof (rule segs.stream_injective)
  show "\<And>s. encodable s \<and> linked s \<Longrightarrow> seg_bytes s \<noteq> []"
    using even_seg_bytes by fastforce
qed (use assms in \<open>auto simp: epath_encode_iff list_all_iff\<close>)

section \<open>The tag parser\<close>

definition valid_name :: "rstr \<Rightarrow> bool" where
  "valid_name n \<longleftrightarrow> validate_name n = Inr ()"

fun tag_segment :: "segment \<Rightarrow> bool" where
  "tag_segment (Symbol n) = valid_name n"
| "tag_segment (Element _) = True"
| "tag_segment _ = False"

lemma valid_name_chars:
  assumes "valid_name n"
  shows "n \<noteq> []" "length n \<le> 255" "\<not> is_ascii_digit (hd n)" "91 \<notin> set n" "46 \<notin> set n"
proof -
  from assms show "n \<noteq> []" "length n \<le> 255"
    by (auto simp: valid_name_def validate_name_def split: if_splits)
  from assms have "is_ascii_alphabetic (hd n) \<or> hd n = 95"
    and all: "list_all (\<lambda>b. is_ascii_alphanumeric b \<or> b = 95 \<or> b = 58) n"
    by (auto simp: valid_name_def validate_name_def split: if_splits)
  then show "\<not> is_ascii_digit (hd n)"
    by (auto simp: is_ascii_alphabetic_def is_ascii_digit_def word_le_nat_alt)
  show "91 \<notin> set n" "46 \<notin> set n"
    using all by (auto simp: list_all_iff is_ascii_alphanumeric_def is_ascii_alphabetic_def
        is_ascii_digit_def word_le_nat_alt)
qed

lemma parse_indices_segments:
  "parse_indices idxs segs = Inr out \<Longrightarrow> list_all tag_segment segs \<Longrightarrow> list_all tag_segment out"
  by (induction idxs arbitrary: segs) (auto simp: ok_then_Inr_iff)

lemma parse_component_segments:
  assumes "parse_component c segs = Inr out" "list_all tag_segment segs"
  shows "list_all tag_segment out"
  using assms
  by (auto simp: parse_component_def parse_index_group_def ok_then_Inr_iff Let_def valid_name_def
      split: if_splits option.splits dest!: parse_indices_segments)

lemma parse_components_segments:
  "parse_components cs segs = Inr out \<Longrightarrow> list_all tag_segment segs \<Longrightarrow> list_all tag_segment out"
  by (induction cs arbitrary: segs) (auto simp: ok_then_Inr_iff dest: parse_component_segments)

lemma tag_segment_encodable: "tag_segment s \<Longrightarrow> encodable s \<and> linked s"
  by (cases s) (auto dest: valid_name_chars)

text \<open>The canonical text of a tag path: its components joined by dots, indices as numeric members.\<close>

fun segment_text :: "segment \<Rightarrow> rstr" where
  "segment_text (Symbol n) = n"
| "segment_text (Element v) = dec_digits (unat v)"
| "segment_text _ = []"

definition tag_text :: "segment list \<Rightarrow> rstr" where
  "tag_text segs = join_with 46 (map segment_text segs)"

lemma parse_index_digits: "parse_index (dec_digits (unat v)) = Inr v"
  by (auto simp: parse_index_def list_all_iff dest: dec_digits_digits)

lemma parse_component_text:
  assumes "tag_segment s"
  shows "parse_component (segment_text s) segs = Inr (segs @ [s])"
proof (cases s)
  case (Symbol n)
  with assms have n: "valid_name n" by simp
  have tw: "takeWhile (\<lambda>b. b \<noteq> 91) n = n" and dw: "dropWhile (\<lambda>b. b \<noteq> 91) n = []"
    using valid_name_chars(4) [OF n] by (auto simp: takeWhile_eq_all_conv dropWhile_eq_Nil_conv)
  from Symbol n valid_name_chars(1,3) [OF n] show ?thesis
    by (simp add: parse_component_def Let_def valid_name_def tw dw)
next
  case (Element v)
  have "is_ascii_digit (hd (dec_digits (unat v)))"
    by (rule dec_digits_digits [of _ "unat v"]) simp
  with Element show ?thesis by (simp add: parse_component_def parse_index_digits)
qed (use assms in auto)

lemma parse_components_text:
  "list_all tag_segment ss \<Longrightarrow> parse_components (map segment_text ss) segs = Inr (segs @ ss)"
  by (induction ss arbitrary: segs) (simp_all add: parse_component_text)

lemma segment_text_no_dot: "tag_segment s \<Longrightarrow> 46 \<notin> set (segment_text s) \<and> segment_text s \<noteq> []"
  by (cases s) (auto dest: valid_name_chars dec_digits_digits simp: is_ascii_digit_def)

lemma tag_parse_text:
  assumes "list_all tag_segment ss" "ss \<noteq> []"
  shows "tag_parse (tag_text ss) = Inr \<lparr>ta_path = ss, ta_display = tag_text ss\<rparr>"
proof -
  have pieces: "46 \<notin> set p \<and> p \<noteq> []" if "p \<in> set (map segment_text ss)" for p
    using that assms(1) segment_text_no_dot by (auto simp: list_all_iff)
  then have "split_on 46 (tag_text ss) = map segment_text ss"
    unfolding tag_text_def using assms(2) by (intro split_join) auto
  moreover have "tag_text ss \<noteq> []"
  proof
    assume "tag_text ss = []"
    with calculation have "map segment_text ss = [[]]" by simp
    with pieces show False by auto
  qed
  ultimately show ?thesis by (simp add: tag_parse_def parse_components_text [OF assms(1)])
qed

lemma parse_indices_length: "parse_indices idxs segs = Inr out \<Longrightarrow> length segs \<le> length out"
  by (induction idxs arbitrary: segs) (fastforce simp: ok_then_Inr_iff)+

lemma parse_component_length:
  "parse_component c segs = Inr out \<Longrightarrow> length segs < length out"
  by (auto simp: parse_component_def parse_index_group_def ok_then_Inr_iff Let_def Suc_le_eq
      split: if_splits option.splits dest!: parse_indices_length)

lemma parse_components_length:
  "parse_components cs segs = Inr out \<Longrightarrow> length segs \<le> length out \<and> (cs \<noteq> [] \<longrightarrow> segs = [] \<longrightarrow> out \<noteq> [])"
proof (induction cs arbitrary: segs)
  case (Cons c cs)
  then obtain s1 where "parse_component c segs = Inr s1" "parse_components cs s1 = Inr out"
    by (auto simp: ok_then_Inr_iff)
  with Cons.IH [of s1] parse_component_length [of c segs s1] show ?case by auto
qed simp

lemma tag_parse_facts:
  assumes "tag_parse input = Inr t"
  shows "ta_display t = input" "list_all tag_segment (ta_path t)" "ta_path t \<noteq> []"
  using assms
  by (auto simp: tag_parse_def ok_then_Inr_iff split: if_splits
      dest: parse_components_segments parse_components_length)

lemma tag_segments_encode:
  assumes "list_all tag_segment segs"
  shows "epath_encode segs = Inl (ETooLarge MAX_PATH_WORDS) \<or> (\<exists>bs. epath_encode segs = Inr bs)"
proof -
  have enc: "list_all encodable segs"
    using assms tag_segment_encodable by (auto simp: list_all_iff)
  then have "segments_encode segs [] = Inr (concat (map seg_bytes segs))"
    by (simp add: segments_encode_iff)
  with even_concat_seg_bytes [OF enc] show ?thesis
    by (auto simp: epath_encode_def even_iff_mod_2_eq_zero)
qed

lemmas tag_eval = tag_parse_def parse_component_def parse_index_group_def parse_index_def
  validate_name_def valid_name_def strip_prefix_def strip_suffix_def parse_u32_def parse_dec_def
  u32_try_from_def ascii_def of_char_def is_ascii_digit_def is_ascii_alphabetic_def
  is_ascii_alphanumeric_def Let_def

section \<open>Properties\<close>

text \<open>
  A request path encodes exactly when every segment is expressible (a symbol of 1 to 255
  bytes, a route port of at most 14 with a link of at most 255 bytes) and the whole fits in 255
  words; the bytes are then the concatenation of the self-padded segments, an even number.
\<close>

theorem epath_encode_exact:
  "epath_encode p = Inr bs \<longleftrightarrow>
     list_all encodable p \<and> bs = concat (map seg_bytes p) \<and> even (length bs) \<and> length bs \<le> 510"
  using even_concat_seg_bytes by (auto simp: epath_encode_iff)

text \<open>
  Addressing is unambiguous: two paths whose route ports carry a link address never encode
  to the same bytes unless they are the same path.
\<close>

theorem epath_encode_injective:
  assumes "epath_encode p = Inr bs" "epath_encode q = Inr bs" "list_all linked p" "list_all linked q"
  shows "p = q"
  by (rule epath_injective [OF assms])

theorem epath_encode_injective_witness:
  "epath_encode [Class 0x6B, Instance 256] \<noteq> epath_encode [Class 0x6B, Element 256]"
proof
  assume eq: "epath_encode [Class 0x6B, Instance 256] = epath_encode [Class 0x6B, Element 256]"
  have p: "epath_encode [Class 0x6B, Instance 256] = Inr [0x20, 0x6B, 0x25, 0, 0, 1]" by code_simp
  from epath_encode_injective [OF p p [unfolded eq]] show False by simp
qed

text \<open>
  Whatever text the tag parser accepts, the address keeps that text, its segments are valid
  symbol names and indices only, and encoding it can fail in one way, by exceeding 255 words:
  the empty-symbol, symbol-length and route-port errors of the encoder are unreachable from it.
\<close>

theorem tag_parse_sound:
  assumes "tag_parse input = Inr t"
  shows "ta_display t = input \<and> list_all tag_segment (ta_path t) \<and> ta_path t \<noteq> [] \<and>
    (tag_encode t = Inl (ETooLarge MAX_PATH_WORDS) \<or> (\<exists>bs. tag_encode t = Inr bs))"
  using tag_parse_facts [OF assms] tag_segments_encode by (auto simp: tag_encode_def)

theorem tag_parse_sound_witness:
  "\<exists>t. tag_parse (ascii ''ZONE_TEMPS[3]'') = Inr t \<and> ta_path t = [Symbol (ascii ''ZONE_TEMPS''), Element 3] \<and>
     (tag_encode t = Inl (ETooLarge MAX_PATH_WORDS) \<or> (\<exists>bs. tag_encode t = Inr bs))"
proof -
  have "tag_parse (ascii ''ZONE_TEMPS[3]'') =
    Inr \<lparr>ta_path = [Symbol (ascii ''ZONE_TEMPS''), Element 3], ta_display = ascii ''ZONE_TEMPS[3]''\<rparr>"
    by (simp add: tag_eval)
  with tag_parse_sound [OF this] show ?thesis by simp
qed

text \<open>
  Parsing undoes printing: every non-empty list of valid symbols and indices is the path of
  its own canonical text, components joined by dots and indices written in decimal.
\<close>

theorem tag_parse_print:
  assumes "list_all tag_segment ss" "ss \<noteq> []"
  shows "tag_parse (tag_text ss) = Inr \<lparr>ta_path = ss, ta_display = tag_text ss\<rparr>"
  by (rule tag_parse_text [OF assms])

theorem tag_parse_print_witness:
  "tag_parse (ascii ''Program:Main.Timer.4294967295'') =
     Inr \<lparr>ta_path = [Symbol (ascii ''Program:Main''), Symbol (ascii ''Timer''), Element 4294967295],
          ta_display = ascii ''Program:Main.Timer.4294967295''\<rparr>"
proof -
  let ?ss = "[Symbol (ascii ''Program:Main''), Symbol (ascii ''Timer''), Element 4294967295]"
  have "list_all tag_segment ?ss" by (simp add: tag_eval)
  moreover have "tag_text ?ss = ascii ''Program:Main.Timer.4294967295''"
    by (simp add: tag_eval tag_text_def dec_digits.simps)
  ultimately show ?thesis using tag_parse_print [of ?ss] by simp
qed

end
