(* ===== verification/Message.thy ===== *)
theory Message
  imports Epath
begin

text \<open>
  Message Router requests and replies, \<^verbatim>\<open>crates/enip/src/cip/message.rs\<close>, and the attribute
  services built on them, \<^verbatim>\<open>crates/enip/src/cip/services.rs\<close>. The peer is a parameter: an exchange
  takes the request, the label the operation passes for its timeout error, and the state of the
  world, and gives the reply or the error with the new state.
\<close>

definition REPLY_CONTEXT :: string where "REPLY_CONTEXT = ''cip reply''"
definition REPLY_MASK :: u8 where "REPLY_MASK = 0x80"

record message_request =
  mq_service :: u8
  mq_path :: epath
  mq_data :: bytes

definition message_request_new :: "u8 \<Rightarrow> epath \<Rightarrow> bytes \<Rightarrow> message_request" where
  "message_request_new service path data = \<lparr>mq_service = service, mq_path = path, mq_data = data\<rparr>"

definition message_request_encode :: "message_request \<Rightarrow> enip_error + bytes" where
  "message_request_encode q =
     ok_then (epath_encode (mq_path q)) (\<lambda>path_bytes.
     ok_then (ok_or (u8_try_from (length path_bytes div 2)) (ETooLarge 255)) (\<lambda>words.
     Inr (w_put_slice (mq_data q) (w_put_slice path_bytes (w_u8 words (w_u8 (mq_service q) []))))))"

record message_reply =
  mr_reply_service :: u8
  mr_status :: cip_status
  mr_data :: bytes

definition message_reply_decode :: "bytes \<Rightarrow> wire_error + message_reply" where
  "message_reply_decode buf =
     ok_then (r_u8 (r_with_context buf REPLY_CONTEXT)) (\<lambda>(reply_service, r).
     ok_then (r_u8 r) (\<lambda>(_, r).
     ok_then (r_u8 r) (\<lambda>(code, r).
     ok_then (r_u8 r) (\<lambda>(size_byte, r).
       let ext_size = unat size_byte in
       ok_then (ok_or (checked_mul_usize ext_size 2) (Overflow REPLY_CONTEXT)) (\<lambda>ext_bytes.
         if r_remaining r < ext_bytes
         then Inl (Truncated ext_bytes (r_remaining r) REPLY_CONTEXT)
         else
           ok_then (r_repeat r_u16 ext_size r) (\<lambda>(ext, r).
           Inr \<lparr>mr_reply_service = reply_service,
                mr_status = with_extended (general_status_from_code code) ext,
                mr_data = fst (r_take_rest r)\<rparr>))))))"

definition expect_service :: "message_reply \<Rightarrow> u8 \<Rightarrow> enip_error + unit" where
  "expect_service m request_service =
     (if mr_reply_service m = request_service OR REPLY_MASK then Inr ()
      else Inl (EProtocolViolation ''reply service does not match request | 0x80''))"

section \<open>Attribute services\<close>

type_synonym 's exchange = "message_request \<Rightarrow> string \<Rightarrow> 's \<Rightarrow> (enip_error + message_reply) \<times> 's"

definition SERVICE_GET_ATTRIBUTE_SINGLE :: u8 where "SERVICE_GET_ATTRIBUTE_SINGLE = 0x0E"
definition SERVICE_SET_ATTRIBUTE_SINGLE :: u8 where "SERVICE_SET_ATTRIBUTE_SINGLE = 0x10"
definition SERVICE_GET_ATTRIBUTE_ALL :: u8 where "SERVICE_GET_ATTRIBUTE_ALL = 0x01"

text \<open>The common tail: the service check, then the data of a successful reply or its status as an error.\<close>

definition attribute_reply :: "u8 \<Rightarrow> enip_error + message_reply \<Rightarrow> enip_error + bytes" where
  "attribute_reply service m =
     ok_then m (\<lambda>reply.
     ok_then (expect_service reply service) (\<lambda>_.
       if cip_is_ok (mr_status reply) then Inr (mr_data reply) else Inl (ECip (mr_status reply))))"

definition get_attribute_single ::
    "'s exchange \<Rightarrow> u16 \<Rightarrow> u16 \<Rightarrow> u16 \<Rightarrow> 's \<Rightarrow> (enip_error + bytes) \<times> 's" where
  "get_attribute_single send class inst attr s =
     (let path = ep_attribute attr (ep_instance (ucast inst) (ep_class class []));
          (m, s) = send (message_request_new SERVICE_GET_ATTRIBUTE_SINGLE path []) ''get_attribute_single'' s
      in (attribute_reply SERVICE_GET_ATTRIBUTE_SINGLE m, s))"

definition set_attribute_single ::
    "'s exchange \<Rightarrow> u16 \<Rightarrow> u16 \<Rightarrow> u16 \<Rightarrow> bytes \<Rightarrow> 's \<Rightarrow> (enip_error + unit) \<times> 's" where
  "set_attribute_single send class inst attr data s =
     (let path = ep_attribute attr (ep_instance (ucast inst) (ep_class class []));
          (m, s) = send (message_request_new SERVICE_SET_ATTRIBUTE_SINGLE path data) ''set_attribute_single'' s
      in (ok_then (attribute_reply SERVICE_SET_ATTRIBUTE_SINGLE m) (\<lambda>_. Inr ()), s))"

definition get_attribute_all :: "'s exchange \<Rightarrow> u16 \<Rightarrow> u16 \<Rightarrow> 's \<Rightarrow> (enip_error + bytes) \<times> 's" where
  "get_attribute_all send class inst s =
     (let path = ep_instance (ucast inst) (ep_class class []);
          (m, s) = send (message_request_new SERVICE_GET_ATTRIBUTE_ALL path []) ''get_attribute_all'' s
      in (attribute_reply SERVICE_GET_ATTRIBUTE_ALL m, s))"

section \<open>Lemmas\<close>

lemma concat_le_bytes_2 [simp]: "length (concat (map (le_bytes 2) xs)) = 2 * length (xs :: u16 list)"
  by (induction xs) auto

lemma request_encode_iff:
  "message_request_encode q = Inr bs \<longleftrightarrow>
     (\<exists>p. epath_encode (mq_path q) = Inr p \<and>
        bs = [mq_service q, of_nat (length p div 2)] @ p @ mq_data q)"
proof -
  have "length p div 2 < 256" if "epath_encode (mq_path q) = Inr p" for p
  proof -
    from that have "length p \<le> 510" unfolding epath_encode_iff by blast
    then show ?thesis by linarith
  qed
  then show ?thesis
    by (auto simp: message_request_encode_def ok_then_Inr_iff u8_try_from_def writer_defs)
qed

lemma reply_decode_write:
  assumes "length ext < 256"
    and "length (svc # rsv # code # of_nat (length ext) # concat (map (le_bytes 2) ext) @ data) \<le> isize_max"
  shows "message_reply_decode
      (svc # rsv # code # of_nat (length ext) # concat (map (le_bytes 2) ext) @ data) =
    Inr \<lparr>mr_reply_service = svc, mr_status = with_extended (general_status_from_code code) ext,
         mr_data = data\<rparr>"
proof -
  let ?b = "svc # rsv # code # of_nat (length ext) # concat (map (le_bytes 2) ext) @ data"
  let ?r = "r_with_context ?b REPLY_CONTEXT"
  have wf: "wf_reader ?r" using assms(2) by (intro wf_intros)
  have u: "unat (of_nat (length ext) :: u8) = length ext" using assms(1) by (simp add: unat_of_nat_small)
  have "reads (r_repeat r_u16 (length ext)) (r_adv (Suc (Suc (Suc (Suc 0)))) ?r) ext data"
    by (rule w16.repeat_read_write) (use wf in \<open>simp_all add: list_all_iff\<close>)
  then obtain r' where "r_repeat r_u16 (length ext) (r_adv (Suc (Suc (Suc (Suc 0)))) ?r) = Inr (ext, r')" "r_rest r' = data"
    by (auto elim!: readsE)
  with wf u assms(1) show ?thesis
    by (simp add: message_reply_decode_def wire_simps checked_mul_usize_def usize_max_def Let_def)
qed

lemma reply_decode_read:
  assumes "length buf \<le> isize_max" "message_reply_decode buf = Inr m"
  shows "\<exists>rsv code. mr_status m = with_extended (general_status_from_code code) (extended (mr_status m)) \<and>
    length (extended (mr_status m)) < 256 \<and>
    buf = mr_reply_service m # rsv # code # of_nat (length (extended (mr_status m))) #
      concat (map (le_bytes 2) (extended (mr_status m))) @ mr_data m"
proof -
  from assms(2) obtain svc rsv code n r1 r2 r3 r4 ext r5 where
    "r_u8 (r_with_context buf REPLY_CONTEXT) = Inr (svc, r1)" "r_u8 r1 = Inr (rsv, r2)"
    "r_u8 r2 = Inr (code, r3)" "r_u8 r3 = Inr (n, r4)"
    and rep: "r_repeat r_u16 (unat n) r4 = Inr (ext, r5)"
    and m: "m = \<lparr>mr_reply_service = svc, mr_status = with_extended (general_status_from_code code) ext,
      mr_data = r_rest r5\<rparr>"
    by (auto simp: message_reply_decode_def ok_then_Inr_iff Let_def split: if_splits)
  with assms(1) have 1: "wf_reader r4" "buf = svc # rsv # code # n # r_rest r4"
    by (auto dest!: exactD)
  from w16.repeat_write_read [OF 1(1) rep]
  have 2: "length ext = unat n" "r_rest r4 = concat (map (le_bytes 2) ext) @ r_rest r5" by auto
  from 2(1) have "n = of_nat (length ext)" by (metis word_of_natI)
  moreover from 2(1) have "length ext < 256" by (metis unat8_less)
  ultimately show ?thesis using 1 2 m by (auto simp: with_extended_def)
qed

section \<open>Properties\<close>

text \<open>
  A reply is decoded for what it is, whatever its status says: a buffer decodes to a reply
  exactly when it is the service byte, a reserved byte, the status byte, the number of extended
  words, those words, and then the data. No status code, error statuses and the partial-transfer
  status included, causes any of the extended words or of the data to be dropped.
\<close>

theorem message_reply_decode_iff:
  assumes "length buf \<le> isize_max"
  shows "message_reply_decode buf = Inr m \<longleftrightarrow>
    (\<exists>rsv code ext. length ext < 256 \<and>
       mr_status m = \<lparr>general = general_status_from_code code, extended = ext\<rparr> \<and>
       buf = [mr_reply_service m, rsv, code, of_nat (length ext)] @ concat (map (le_bytes 2) ext) @ mr_data m)"
proof
  assume "message_reply_decode buf = Inr m"
  from reply_decode_read [OF assms this]
  show "\<exists>rsv code ext. length ext < 256 \<and>
       mr_status m = \<lparr>general = general_status_from_code code, extended = ext\<rparr> \<and>
       buf = [mr_reply_service m, rsv, code, of_nat (length ext)] @ concat (map (le_bytes 2) ext) @ mr_data m"
    by (auto simp: with_extended_def)
next
  assume "\<exists>rsv code ext. length ext < 256 \<and>
       mr_status m = \<lparr>general = general_status_from_code code, extended = ext\<rparr> \<and>
       buf = [mr_reply_service m, rsv, code, of_nat (length ext)] @ concat (map (le_bytes 2) ext) @ mr_data m"
  then obtain rsv code ext where e: "length ext < 256"
    "mr_status m = \<lparr>general = general_status_from_code code, extended = ext\<rparr>"
    "buf = mr_reply_service m # rsv # code # of_nat (length ext) # concat (map (le_bytes 2) ext) @ mr_data m"
    by auto
  from reply_decode_write [OF e(1), of "mr_reply_service m" rsv code "mr_data m"] assms e
  show "message_reply_decode buf = Inr m" by (simp add: with_extended_def)
qed

theorem message_reply_decode_iff_witness:
  "message_reply_decode [0xCC, 0, 0x06, 1, 0x05, 0x21, 0xC4, 0] =
     Inr \<lparr>mr_reply_service = 0xCC, mr_status = \<lparr>general = PartialTransfer, extended = [0x2105]\<rparr>,
          mr_data = [0xC4, 0]\<rparr>"
proof (subst message_reply_decode_iff)
  show "\<exists>rsv code ext. length ext < 256 \<and>
     mr_status \<lparr>mr_reply_service = 0xCC, mr_status = \<lparr>general = PartialTransfer, extended = [0x2105]\<rparr>,
          mr_data = [0xC4, 0]\<rparr> = \<lparr>general = general_status_from_code code, extended = ext\<rparr> \<and>
     [0xCC, 0, 0x06, 1, 0x05, 0x21, 0xC4, 0] = [mr_reply_service \<lparr>mr_reply_service = 0xCC,
          mr_status = \<lparr>general = PartialTransfer, extended = [0x2105]\<rparr>, mr_data = [0xC4, 0]\<rparr>,
          rsv, code, of_nat (length ext)] @ concat (map (le_bytes 2) ext) @ mr_data \<lparr>mr_reply_service = 0xCC,
          mr_status = \<lparr>general = PartialTransfer, extended = [0x2105]\<rparr>, mr_data = [0xC4, 0]\<rparr>"
    by (rule exI [of _ 0], rule exI [of _ 6], rule exI [of _ "[0x2105]"])
      (simp add: general_status_from_code_def le_bytes_unfold)
qed simp

text \<open>
  A request is unambiguous on the wire: the service, the path with its size in words, and
  the data can be told apart by the receiver, so two requests with the same bytes are equal.
\<close>

theorem message_request_encode_injective:
  assumes "message_request_encode q = Inr bs" "message_request_encode q' = Inr bs"
    and "list_all linked (mq_path q)" "list_all linked (mq_path q')"
  shows "q = q'"
proof -
  from assms(1,2) obtain p p' where p: "epath_encode (mq_path q) = Inr p" "epath_encode (mq_path q') = Inr p'"
    and bs: "bs = [mq_service q, of_nat (length p div 2)] @ p @ mq_data q"
      "bs = [mq_service q', of_nat (length p' div 2)] @ p' @ mq_data q'"
    by (auto simp: request_encode_iff)
  have even: "even (length p)" "even (length p')" "length p div 2 < 256" "length p' div 2 < 256"
    using p even_concat_seg_bytes by (auto simp: epath_encode_iff)
  have eq: "mq_service q = mq_service q'" "(of_nat (length p div 2) :: u8) = of_nat (length p' div 2)"
    "p @ mq_data q = p' @ mq_data q'"
    using bs(1) unfolding bs(2) by simp_all
  from eq(2) have "unat (of_nat (length p div 2) :: u8) = unat (of_nat (length p' div 2) :: u8)" by simp
  with even(3,4) have "length p div 2 = length p' div 2" by (simp add: unat_of_nat_small)
  with even(1,2) have "length p = length p'" by (metis dvd_mult_div_cancel)
  with eq(3) have pd: "p' = p" "mq_data q = mq_data q'" by simp_all
  have "mq_path q = mq_path q'"
    by (rule epath_injective [OF p(1) p(2) [unfolded pd(1)] assms(3,4)])
  with eq(1) pd(2) show ?thesis by (simp add: message_request.equality)
qed

theorem message_request_encode_injective_witness:
  "message_request_encode (message_request_new 0x0E [Class 1, Instance 1] [9]) \<noteq>
   message_request_encode (message_request_new 0x0E [Class 1] [0x24, 1, 9])"
proof
  let ?q = "message_request_new 0x0E [Class 1, Instance 1] [9]"
  let ?q' = "message_request_new 0x0E [Class 1] [0x24, 1, 9]"
  assume eq: "message_request_encode ?q = message_request_encode ?q'"
  have q: "message_request_encode ?q = Inr [0x0E, 2, 0x20, 1, 0x24, 1, 9]" by code_simp
  from message_request_encode_injective [OF q q [unfolded eq]] show False
    by (simp add: message_request_new_def)
qed

end
