(* ===== verification/Assembly.thy ===== *)
theory Assembly
  imports Cip_Types
begin

text \<open>
  Assembly layouts, \<^verbatim>\<open>crates/enip/src/assembly.rs\<close>: the fields of a fixed-size I/O image,
  validated at construction, with extraction of all fields and in-place insertion of some. The
  image \<^verbatim>\<open>encode_into\<close> mutates is passed and returned.
\<close>

definition ASSEMBLY_CONTEXT :: string where "ASSEMBLY_CONTEXT = ''assembly''"

record field_spec =
  fs_key :: nat
  fs_offset :: nat
  fs_ty :: cip_type
  fs_bit :: "u8 option"
  fs_count :: nat

definition field_scalar :: "nat \<Rightarrow> nat \<Rightarrow> cip_type \<Rightarrow> field_spec" where
  "field_scalar key offset ty =
     \<lparr>fs_key = key, fs_offset = offset, fs_ty = ty, fs_bit = None, fs_count = 1\<rparr>"

definition field_array :: "nat \<Rightarrow> nat \<Rightarrow> cip_type \<Rightarrow> nat \<Rightarrow> field_spec" where
  "field_array key offset ty count =
     \<lparr>fs_key = key, fs_offset = offset, fs_ty = ty, fs_bit = None, fs_count = count\<rparr>"

definition field_boolean :: "nat \<Rightarrow> nat \<Rightarrow> u8 \<Rightarrow> field_spec" where
  "field_boolean key offset b =
     \<lparr>fs_key = key, fs_offset = offset, fs_ty = TBool, fs_bit = Some b, fs_count = 1\<rparr>"

datatype assembly_error =
    FieldOutOfBounds nat
  | ZeroCount nat
  | InvalidBitField nat
  | NonElementaryType nat
  | DataSizeMismatch nat nat
  | UnknownField nat
  | ValueTypeMismatch nat

record assembly_layout =
  al_fields :: "field_spec list"
  al_data_size :: nat

section \<open>Construction\<close>

text \<open>The body of the validation loop of \<^verbatim>\<open>AssemblyLayout::new\<close>.\<close>

definition check_field :: "nat \<Rightarrow> field_spec \<Rightarrow> assembly_error + unit" where
  "check_field data_size f =
     (let key = fs_key f in
      if fs_count f = 0 then Inl (ZeroCount key)
      else
        ok_then (ok_or (element_size (fs_ty f)) (NonElementaryType key)) (\<lambda>elem_size.
        if (case fs_bit f of None \<Rightarrow> False
            | Some b \<Rightarrow> fs_ty f \<noteq> TBool \<or> b > 7 \<or> fs_count f \<noteq> 1)
        then Inl (InvalidBitField key)
        else
          ok_then (ok_or (checked_mul_usize elem_size (fs_count f)) (FieldOutOfBounds key)) (\<lambda>span.
          ok_then (ok_or (checked_add_usize (fs_offset f) span) (FieldOutOfBounds key)) (\<lambda>end_pos.
          if end_pos > data_size then Inl (FieldOutOfBounds key) else Inr ()))))"

primrec check_fields :: "nat \<Rightarrow> field_spec list \<Rightarrow> assembly_error + unit" where
  "check_fields data_size [] = Inr ()"
| "check_fields data_size (f # fs) = ok_then (check_field data_size f) (\<lambda>_. check_fields data_size fs)"

definition assembly_new :: "field_spec list \<Rightarrow> nat \<Rightarrow> assembly_error + assembly_layout" where
  "assembly_new flds data_size =
     ok_then (check_fields data_size flds) (\<lambda>_.
     Inr \<lparr>al_fields = flds, al_data_size = data_size\<rparr>)"

section \<open>Extraction\<close>

definition bit_mask :: "u8 \<Rightarrow> u8" where
  "bit_mask b = (if b < 8 then push_bit (unat b) 1 else 0)"

definition extract_field :: "field_spec \<Rightarrow> bytes \<Rightarrow> assembly_error + cip_value" where
  "extract_field f data =
     ok_then (map_err (\<lambda>_. FieldOutOfBounds (fs_key f))
               (r_skip (fs_offset f) (r_with_context data ASSEMBLY_CONTEXT))) (\<lambda>(_, r).
     case fs_bit f of
       Some b \<Rightarrow>
         ok_then (map_err (\<lambda>_. FieldOutOfBounds (fs_key f)) (r_u8 r)) (\<lambda>(byte, _).
         Inr (VBool (byte AND bit_mask b \<noteq> 0)))
     | None \<Rightarrow>
         ok_then (ok_or (element_size (fs_ty f)) (NonElementaryType (fs_key f))) (\<lambda>elem_size.
         ok_then (ok_or (checked_mul_usize elem_size (fs_count f)) (FieldOutOfBounds (fs_key f))) (\<lambda>span.
         ok_then (map_err (\<lambda>_. FieldOutOfBounds (fs_key f)) (r_take span r)) (\<lambda>(bs, _).
         map_err (\<lambda>_. FieldOutOfBounds (fs_key f)) (cip_value_decode (fs_ty f) bs)))))"

primrec extract_fields :: "field_spec list \<Rightarrow> bytes \<Rightarrow> assembly_error + (nat \<times> cip_value) list" where
  "extract_fields [] data = Inr []"
| "extract_fields (f # fs) data =
     ok_then (extract_field f data) (\<lambda>v.
     ok_then (extract_fields fs data) (\<lambda>vs. Inr ((fs_key f, v) # vs)))"

definition assembly_decode :: "assembly_layout \<Rightarrow> bytes \<Rightarrow> assembly_error + (nat \<times> cip_value) list" where
  "assembly_decode l data =
     (if length data \<noteq> al_data_size l then Inl (DataSizeMismatch (al_data_size l) (length data))
      else extract_fields (al_fields l) data)"

section \<open>Insertion\<close>

definition insert_field :: "field_spec \<Rightarrow> cip_value \<Rightarrow> bytes \<Rightarrow> assembly_error + bytes" where
  "insert_field f v buf =
     (let key = fs_key f in
      case fs_bit f of
        Some b \<Rightarrow>
          (case v of
             VBool set_it \<Rightarrow>
               if fs_offset f < length buf
               then let slot = buf ! fs_offset f
                    in Inr (buf[fs_offset f :=
                         (if set_it then slot OR bit_mask b else slot AND NOT (bit_mask b))])
               else Inl (FieldOutOfBounds key)
           | _ \<Rightarrow> Inl (ValueTypeMismatch key))
      | None \<Rightarrow>
          if wire_type v \<noteq> fs_ty f then Inl (ValueTypeMismatch key)
          else if element_count v \<noteq> fs_count f then Inl (ValueTypeMismatch key)
          else
            ok_then (map_err (\<lambda>_. ValueTypeMismatch key) (encode_value v [])) (\<lambda>bs.
            ok_then (ok_or (checked_add_usize (fs_offset f) (length bs)) (FieldOutOfBounds key)) (\<lambda>end_pos.
            if end_pos \<le> length buf
            then Inr (take (fs_offset f) buf @ bs @ drop end_pos buf)
            else Inl (FieldOutOfBounds key))))"

primrec insert_fields ::
    "assembly_layout \<Rightarrow> (nat \<times> cip_value) list \<Rightarrow> bytes \<Rightarrow> (assembly_error + unit) \<times> bytes" where
  "insert_fields l [] buf = (Inr (), buf)"
| "insert_fields l (kv # kvs) buf =
     (case find (\<lambda>f. fs_key f = fst kv) (al_fields l) of
        None \<Rightarrow> (Inl (UnknownField (fst kv)), buf)
      | Some f \<Rightarrow>
          (case insert_field f (snd kv) buf of
             Inl e \<Rightarrow> (Inl e, buf)
           | Inr buf' \<Rightarrow> insert_fields l kvs buf'))"

definition encode_into ::
    "assembly_layout \<Rightarrow> (nat \<times> cip_value) list \<Rightarrow> bytes \<Rightarrow> (assembly_error + unit) \<times> bytes" where
  "encode_into l vals buf =
     (if length buf \<noteq> al_data_size l then (Inl (DataSizeMismatch (al_data_size l) (length buf)), buf)
      else insert_fields l vals buf)"

section \<open>What a validated field covers\<close>

definition field_span :: "field_spec \<Rightarrow> nat" where
  "field_span f = (case element_size (fs_ty f) of Some n \<Rightarrow> n * fs_count f | None \<Rightarrow> 0)"

definition valid_field :: "nat \<Rightarrow> field_spec \<Rightarrow> bool" where
  "valid_field n f \<longleftrightarrow>
     0 < fs_count f \<and> is_elementary (fs_ty f) \<and> fs_offset f + field_span f \<le> n \<and>
     (\<forall>b. fs_bit f = Some b \<longrightarrow> fs_ty f = TBool \<and> b \<le> 7 \<and> fs_count f = 1)"

lemma check_field_iff:
  assumes "n \<le> usize_max"
  shows "check_field n f = Inr () \<longleftrightarrow> valid_field n f"
  using assms
  by (auto simp: check_field_def valid_field_def field_span_def is_elementary_def Let_def
      checked_mul_usize_def checked_add_usize_def ok_then_Inr_iff not_less split: option.splits if_splits)

lemma check_fields_iff:
  "n \<le> usize_max \<Longrightarrow> check_fields n fs = Inr () \<longleftrightarrow> list_all (valid_field n) fs"
  by (induction fs) (auto simp: check_field_iff ok_then_Inr_iff)

text \<open>The bytes of a field, and its extraction as a function of them.\<close>

definition field_bytes :: "field_spec \<Rightarrow> bytes \<Rightarrow> bytes" where
  "field_bytes f data = take (field_span f) (drop (fs_offset f) data)"

lemma span_pos: "valid_field n f \<Longrightarrow> 0 < field_span f"
  by (auto simp: valid_field_def field_span_def is_elementary_def dest: element_size_pos)

lemma extract_field_eq:
  assumes "valid_field (length data) f" "length data \<le> isize_max"
  shows "extract_field f data =
    (case fs_bit f of
       Some b \<Rightarrow> Inr (VBool (bit (data ! fs_offset f) (unat b)))
     | None \<Rightarrow> map_err (\<lambda>_. FieldOutOfBounds (fs_key f)) (cip_value_decode (fs_ty f) (field_bytes f data)))"
proof -
  let ?r = "r_with_context data ASSEMBLY_CONTEXT"
  have wf: "wf_reader ?r" using assms(2) by simp
  from assms(1) obtain n where n: "element_size (fs_ty f) = Some n" "field_span f = n * fs_count f"
    and fits: "fs_offset f + field_span f \<le> length data"
    by (auto simp: valid_field_def field_span_def is_elementary_def)
  have b: "fs_offset f \<le> isize_max" "field_span f \<le> isize_max" "field_span f \<le> usize_max"
    using fits assms(2) usize_bounds(1) [of "field_span f"] by linarith+
  have left: "field_span f \<le> length data - fs_offset f" using fits by linarith
  show ?thesis
  proof (cases "fs_bit f")
    case None
    then show ?thesis
      using wf n fits b left
      by (simp add: extract_field_def r_skip_eq r_take_eq checked_mul_usize_def field_bytes_def)
  next
    case (Some c)
    then have c: "c \<le> 7" using assms(1) by (simp add: valid_field_def)
    then have "c < 8" by (rule order.strict_trans1) simp
    then have mask: "bit_mask c = push_bit (unat c) 1" by (simp add: bit_mask_def)
    have "x AND bit_mask c \<noteq> 0 \<longleftrightarrow> bit x (unat c)" for x :: u8
      unfolding mask by (simp add: bit_iff_and_push_bit_not_eq_0)
    then show ?thesis
      using Some wf fits b span_pos [OF assms(1)]
      by (simp add: extract_field_def wire_simps hd_drop_conv_nth)
  qed
qed

text \<open>A value of the shape a field takes: a boolean for a bit, a scalar or a homogeneous array otherwise.\<close>

definition fits_value :: "field_spec \<Rightarrow> cip_value \<Rightarrow> bool" where
  "fits_value f v \<longleftrightarrow> (if fs_bit f = None then wf_value v else \<exists>b. v = VBool b)"

text \<open>Two fields that share no bit of the image.\<close>

definition disjoint_fields :: "field_spec \<Rightarrow> field_spec \<Rightarrow> bool" where
  "disjoint_fields f g \<longleftrightarrow>
     fs_offset f + field_span f \<le> fs_offset g \<or> fs_offset g + field_span g \<le> fs_offset f \<or>
     (\<exists>a b. fs_bit f = Some a \<and> fs_bit g = Some b \<and> a \<noteq> b)"

lemma insert_plain:
  assumes "valid_field (length buf) f" "fs_bit f = None" "wf_value v" "insert_field f v buf = Inr buf'"
    and "length buf \<le> isize_max"
  shows "\<exists>bs. encode_value v [] = Inr bs \<and> length bs = field_span f \<and> wire_type v = fs_ty f \<and>
    buf' = take (fs_offset f) buf @ bs @ drop (fs_offset f + field_span f) buf"
proof -
  obtain bs n where bs: "encode_value v [] = Inr bs" "element_size (wire_type v) = Some n"
    "length bs = n * element_count v"
    using value_encode_length [OF assms(3)] by blast
  with assms(2,4) have "length bs = field_span f"
    by (auto simp: insert_field_def Let_def field_span_def split: if_splits)
  moreover have "fs_offset f + field_span f \<le> usize_max"
    using assms(1,5) usize_bounds(1) [of "fs_offset f + field_span f"] by (auto simp: valid_field_def)
  ultimately show ?thesis
    using assms(2,4) bs(1)
    by (auto simp: insert_field_def Let_def checked_add_usize_def split: if_splits)
qed

lemma insert_bit:
  assumes "valid_field (length buf) f" "fs_bit f = Some b" "insert_field f (VBool x) buf = Inr buf'"
  shows "length buf' = length buf \<and>
    (\<forall>i j. bit (buf' ! i) j =
       (if i = fs_offset f \<and> i < length buf \<and> j = unat b then x else bit (buf ! i) j))"
proof -
  have b: "b \<le> 7" using assms(1,2) by (simp add: valid_field_def)
  then have "b < 8" by (rule order.strict_trans1) simp
  then have mask: "bit_mask b = push_bit (unat b) 1" by (simp add: bit_mask_def)
  have "unat b < 8" using \<open>b < 8\<close> by (simp add: word_less_nat_alt)
  then have m: "bit (bit_mask b) j \<longleftrightarrow> j = unat b" for j
    unfolding mask by (auto simp: bit_simps)
  from assms(2,3) have lt: "fs_offset f < length buf"
    and buf': "buf' = buf[fs_offset f := (if x then buf ! fs_offset f OR bit_mask b
      else buf ! fs_offset f AND NOT (bit_mask b))]"
    by (auto simp: insert_field_def Let_def split: if_splits)
  have byte: "bit (if x then w OR bit_mask b else w AND NOT (bit_mask b)) j =
      (if j = unat b then x else bit w j)" for w :: u8 and j
    using bit_imp_le_length [of w j]
    by (cases x) (auto simp only: bit_or_iff bit_and_iff bit_not_iff m possible_bit_word if_True if_False refl
        split: if_splits)
  define w' where "w' = (if x then buf ! fs_offset f OR bit_mask b
      else buf ! fs_offset f AND NOT (bit_mask b))"
  have "bit w' j = (if j = unat b then x else bit (buf ! fs_offset f) j)" for j
    unfolding w'_def by (rule byte)
  then show ?thesis
    unfolding buf' w'_def [symmetric] using lt by (simp add: nth_list_update)
qed

lemma insert_length:
  assumes "valid_field (length buf) f" "fits_value f v" "insert_field f v buf = Inr buf'"
    and "length buf \<le> isize_max"
  shows "length buf' = length buf"
proof (cases "fs_bit f")
  case None
  with insert_plain [OF assms(1) None _ assms(3,4)] assms(1,2) show ?thesis
    by (auto simp: fits_value_def valid_field_def)
next
  case (Some b)
  with assms insert_bit [OF assms(1) Some] show ?thesis by (auto simp: fits_value_def)
qed

lemma insert_extract_same:
  assumes "valid_field (length buf) f" "fits_value f v" "insert_field f v buf = Inr buf'"
    and "length buf \<le> isize_max"
  shows "extract_field f buf' = Inr v"
proof -
  have len: "length buf' = length buf" by (rule insert_length [OF assms])
  have ex: "fs_offset f + field_span f \<le> length buf" using assms(1) by (simp add: valid_field_def)
  show ?thesis
  proof (cases "fs_bit f")
    case None
    then obtain bs where bs: "encode_value v [] = Inr bs" "length bs = field_span f" "wire_type v = fs_ty f"
      "buf' = take (fs_offset f) buf @ bs @ drop (fs_offset f + field_span f) buf"
      using insert_plain [OF assms(1) None _ assms(3,4)] assms(2) by (auto simp: fits_value_def)
    then have "field_bytes f buf' = bs" using ex by (simp add: field_bytes_def)
    moreover have "cip_value_decode (wire_type v) bs = Inr v"
      by (rule value_decode_encode) (use None assms(2,4) bs ex in \<open>auto simp: fits_value_def\<close>)
    ultimately show ?thesis
      using extract_field_eq [of buf' f] assms(1,4) len None bs(3) by simp
  next
    case (Some b)
    with assms(2) obtain x where x: "v = VBool x" by (auto simp: fits_value_def)
    have "fs_offset f < length buf" using ex span_pos [OF assms(1)] by linarith
    with insert_bit [OF assms(1) Some assms(3) [unfolded x]] Some x show ?thesis
      using extract_field_eq [of buf' f] assms(1,4) len by simp
  qed
qed

lemma insert_extract_other:
  assumes "valid_field (length buf) f" "fits_value f v" "insert_field f v buf = Inr buf'"
    and "length buf \<le> isize_max" and "valid_field (length buf) g" "disjoint_fields f g"
  shows "extract_field g buf' = extract_field g buf"
proof -
  have len: "length buf' = length buf" by (rule insert_length [OF assms(1-4)])
  have sp: "fs_offset f + field_span f \<le> length buf" "fs_offset g + field_span g \<le> length buf"
    "0 < field_span f" "0 < field_span g"
    using assms(1,5) span_pos by (auto simp: valid_field_def)
  note eqs = extract_field_eq [of buf' g] extract_field_eq [of buf g]
  show ?thesis
  proof (cases "fs_bit f")
    case None
    then obtain bs where bs: "length bs = field_span f"
      "buf' = take (fs_offset f) buf @ bs @ drop (fs_offset f + field_span f) buf"
      using insert_plain [OF assms(1) None _ assms(3,4)] assms(2) by (auto simp: fits_value_def)
    have out: "fs_offset f + field_span f \<le> fs_offset g \<or> fs_offset g + field_span g \<le> fs_offset f"
      using assms(6) None by (simp add: disjoint_fields_def)
    then have "field_bytes g buf' = field_bytes g buf"
      unfolding field_bytes_def bs(2) using bs(1) sp by (auto simp: take_drop min_def)
    moreover from out have "buf' ! fs_offset g = buf ! fs_offset g"
      unfolding bs(2) using bs(1) sp by (auto simp: nth_append)
    ultimately show ?thesis using eqs assms(4,5) len by (simp split: option.split)
  next
    case (Some a)
    with assms(2) obtain x where x: "v = VBool x" by (auto simp: fits_value_def)
    note b = insert_bit [OF assms(1) Some assms(3) [unfolded x]]
    have same: "buf' ! i = buf ! i" if "i \<noteq> fs_offset f" for i
      using b that by (intro bit_eqI) simp
    show ?thesis
    proof (cases "fs_offset g \<le> fs_offset f \<and> fs_offset f < fs_offset g + field_span g")
      case True
      with assms(6) sp obtain c where c: "fs_bit g = Some c" "a \<noteq> c"
        by (auto simp: disjoint_fields_def Some)
      then have "unat a \<noteq> unat c" by simp
      with b c show ?thesis using eqs assms(4,5) len by simp
    next
      case False
      then have "field_bytes g buf' = field_bytes g buf"
        using same len sp by (intro nth_equalityI) (auto simp: field_bytes_def)
      moreover have "buf' ! fs_offset g = buf ! fs_offset g" using False sp by (intro same) auto
      ultimately show ?thesis using eqs assms(4,5) len by (simp split: option.split)
    qed
  qed
qed

section \<open>Layouts\<close>

definition wf_layout :: "assembly_layout \<Rightarrow> bool" where
  "wf_layout l \<longleftrightarrow> list_all (valid_field (al_data_size l)) (al_fields l) \<and> al_data_size l \<le> isize_max"

definition named_field :: "assembly_layout \<Rightarrow> nat \<Rightarrow> field_spec option" where
  "named_field l key = find (\<lambda>f. fs_key f = key) (al_fields l)"

lemma named_field_valid:
  assumes "wf_layout l" "named_field l key = Some f"
  shows "valid_field (al_data_size l) f"
  using assms find_Some_iff [of _ "al_fields l" f]
  by (auto simp: wf_layout_def named_field_def list_all_length)

lemma extract_field_total:
  assumes "valid_field (length data) f" "length data \<le> isize_max"
  shows "\<exists>v. extract_field f data = Inr v \<and> wire_type v = fs_ty f \<and> element_count v = fs_count f"
proof (cases "fs_bit f")
  case (Some b)
  then show ?thesis using extract_field_eq [OF assms] assms(1) by (simp add: valid_field_def)
next
  case None
  obtain n where n: "element_size (fs_ty f) = Some n" "field_span f = n * fs_count f" "0 < n"
    using assms(1) by (auto simp: valid_field_def field_span_def is_elementary_def dest: element_size_pos)
  have len: "length (field_bytes f data) = n * fs_count f"
    using assms(1) n unfolding field_bytes_def valid_field_def length_take length_drop by linarith
  then have "field_bytes f data \<noteq> []" "length (field_bytes f data) \<le> isize_max" "n dvd length (field_bytes f data)"
    using assms n by (auto simp: valid_field_def)
  with value_decode_length [OF n(1)] len n(3) obtain v where
    "cip_value_decode (fs_ty f) (field_bytes f data) = Inr v" "wire_type v = fs_ty f" "element_count v = fs_count f"
    by (metis nonzero_mult_div_cancel_left not_less0)
  then show ?thesis using assms None by (simp add: extract_field_eq)
qed

lemma extract_fields_total:
  "list_all (valid_field (length data)) fs \<Longrightarrow> length data \<le> isize_max \<Longrightarrow>
   \<exists>kvs. extract_fields fs data = Inr kvs \<and>
     list_all2 (\<lambda>f kv. fst kv = fs_key f \<and> extract_field f data = Inr (snd kv) \<and>
       wire_type (snd kv) = fs_ty f \<and> element_count (snd kv) = fs_count f) fs kvs"
proof (induction fs)
  case (Cons f fs)
  then obtain v where "extract_field f data = Inr v" "wire_type v = fs_ty f" "element_count v = fs_count f"
    using extract_field_total [of data f] by auto
  with Cons show ?case by auto
qed simp

lemma insert_fields_other:
  assumes "wf_layout l" "valid_field (al_data_size l) g"
  shows "length buf = al_data_size l \<Longrightarrow> insert_fields l kvs buf = (Inr (), buf') \<Longrightarrow>
    (\<And>k v f. (k, v) \<in> set kvs \<Longrightarrow> named_field l k = Some f \<Longrightarrow> fits_value f v \<and> disjoint_fields f g) \<Longrightarrow>
    length buf' = al_data_size l \<and> extract_field g buf' = extract_field g buf"
proof (induction kvs arbitrary: buf)
  case (Cons kv kvs)
  obtain k v where kv: "kv = (k, v)" by (cases kv)
  from Cons.prems(2) obtain f b1 where f: "named_field l k = Some f" and b1: "insert_field f v buf = Inr b1"
    and rest: "insert_fields l kvs b1 = (Inr (), buf')"
    by (auto simp: kv named_field_def split: option.splits sum.splits)
  have ok: "fits_value f v" "disjoint_fields f g" using Cons.prems(3) [of k v f] f kv by auto
  have vf: "valid_field (length buf) f" "valid_field (length buf) g" "length buf \<le> isize_max"
    using named_field_valid [OF assms(1) f] assms Cons.prems(1) by (auto simp: wf_layout_def)
  have "length b1 = al_data_size l" using insert_length [OF vf(1) ok(1) b1 vf(3)] Cons.prems(1) by simp
  moreover have "extract_field g b1 = extract_field g buf"
    by (rule insert_extract_other [OF vf(1) ok(1) b1 vf(3) vf(2) ok(2)])
  moreover have "fits_value f2 v2 \<and> disjoint_fields f2 g"
    if "(k2, v2) \<in> set kvs" "named_field l k2 = Some f2" for k2 v2 f2
    using Cons.prems(3) [of k2 v2 f2] that by simp
  ultimately show ?case using Cons.IH [of b1] rest by metis
qed simp

lemma insert_fields_readback:
  assumes "wf_layout l"
  shows "length buf = al_data_size l \<Longrightarrow> insert_fields l kvs buf = (Inr (), buf') \<Longrightarrow>
    (\<And>k v f. (k, v) \<in> set kvs \<Longrightarrow> named_field l k = Some f \<Longrightarrow> fits_value f v) \<Longrightarrow>
    distinct (map fst kvs) \<Longrightarrow>
    (\<And>k k' f f'. k \<in> fst ` set kvs \<Longrightarrow> k' \<in> fst ` set kvs \<Longrightarrow> k \<noteq> k' \<Longrightarrow> named_field l k = Some f \<Longrightarrow>
       named_field l k' = Some f' \<Longrightarrow> disjoint_fields f f') \<Longrightarrow>
    (k, v) \<in> set kvs \<Longrightarrow> \<exists>f. named_field l k = Some f \<and> extract_field f buf' = Inr v"
proof (induction kvs arbitrary: buf)
  case (Cons kv kvs)
  obtain k1 v1 where kv: "kv = (k1, v1)" by (cases kv)
  from Cons.prems(2) obtain f b1 where f: "named_field l k1 = Some f" and b1: "insert_field f v1 buf = Inr b1"
    and rest: "insert_fields l kvs b1 = (Inr (), buf')"
    by (auto simp: kv named_field_def split: option.splits sum.splits)
  have ok: "fits_value f v1" using Cons.prems(3) [of k1 v1 f] f kv by simp
  have vf: "valid_field (al_data_size l) f" "al_data_size l \<le> isize_max"
    using named_field_valid [OF assms f] assms by (auto simp: wf_layout_def)
  have len: "length b1 = al_data_size l"
    using insert_length [OF _ ok b1] vf Cons.prems(1) by simp
  show ?case
  proof (cases "(k, v) = (k1, v1)")
    case True
    have "extract_field f b1 = Inr v1" using insert_extract_same [OF _ ok b1] vf Cons.prems(1) by simp
    moreover have "extract_field f buf' = extract_field f b1"
    proof (rule insert_fields_other [OF assms vf(1) len rest, THEN conjunct2])
      fix k2 v2 f2 assume "(k2, v2) \<in> set kvs" "named_field l k2 = Some f2"
      moreover from this have "k2 \<noteq> k1" using Cons.prems(4) kv by force
      ultimately show "fits_value f2 v2 \<and> disjoint_fields f2 f"
        using Cons.prems(3) [of k2 v2 f2] Cons.prems(5) [of k2 k1 f2 f] f kv by force
    qed
    ultimately show ?thesis using True f by simp
  next
    case False
    then have kv_in: "(k, v) \<in> set kvs" using Cons.prems(6) kv by auto
    show ?thesis
    proof (rule Cons.IH [OF len rest _ _ _ kv_in])
      show "fits_value f2 v2" if "(k2, v2) \<in> set kvs" "named_field l k2 = Some f2" for k2 v2 f2
        using Cons.prems(3) [of k2 v2 f2] that by simp
      show "disjoint_fields f2 f3" if "k2 \<in> fst ` set kvs" "k3 \<in> fst ` set kvs" "k2 \<noteq> k3"
        "named_field l k2 = Some f2" "named_field l k3 = Some f3" for k2 k3 f2 f3
        using Cons.prems(5) [of k2 k3 f2 f3] that by simp
    qed (use Cons.prems(4) in simp)
  qed
qed simp

section \<open>Properties\<close>

text \<open>
  A validated layout decodes every image of its size: construction accepts exactly the
  layouts whose fields fit, and from then on the length check is the only way decoding can fail.
  Each field yields its key with a value of its type and element count, in declaration order.
\<close>

theorem assembly_decode_total:
  assumes "assembly_new flds n = Inr l" "n \<le> isize_max"
  shows "list_all (valid_field n) flds \<and>
    (case assembly_decode l data of
       Inl e \<Rightarrow> length data \<noteq> n \<and> e = DataSizeMismatch n (length data)
     | Inr kvs \<Rightarrow> length data = n \<and>
         list_all2 (\<lambda>f kv. fst kv = fs_key f \<and> wire_type (snd kv) = fs_ty f \<and>
           element_count (snd kv) = fs_count f) flds kvs)"
proof -
  have l: "list_all (valid_field n) flds" "l = \<lparr>al_fields = flds, al_data_size = n\<rparr>"
    using assms check_fields_iff [of n flds] usize_bounds(1) [of n]
    by (auto simp: assembly_new_def ok_then_Inr_iff)
  show ?thesis
  proof (cases "length data = n")
    case True
    with extract_fields_total [of data flds] l assms(2) obtain kvs where kvs: "extract_fields flds data = Inr kvs"
      "list_all2 (\<lambda>f kv. fst kv = fs_key f \<and> extract_field f data = Inr (snd kv) \<and>
         wire_type (snd kv) = fs_ty f \<and> element_count (snd kv) = fs_count f) flds kvs" by blast
    have "list_all2 (\<lambda>f kv. fst kv = fs_key f \<and> wire_type (snd kv) = fs_ty f \<and>
        element_count (snd kv) = fs_count f) flds kvs"
      by (rule list_all2_mono [OF kvs(2)]) simp
    with l True kvs(1) show ?thesis by (simp add: assembly_decode_def)
  qed (use l in \<open>simp add: assembly_decode_def\<close>)
qed

theorem assembly_decode_total_witness:
  "case assembly_decode \<lparr>al_fields = [field_boolean 0 0 3, field_scalar 1 1 TInt], al_data_size = 3\<rparr> [8, 1, 2] of
     Inl _ \<Rightarrow> False
   | Inr kvs \<Rightarrow> map fst kvs = [0, 1]"
proof -
  have "assembly_new [field_boolean 0 0 3, field_scalar 1 1 TInt] 3 =
      Inr \<lparr>al_fields = [field_boolean 0 0 3, field_scalar 1 1 TInt], al_data_size = 3\<rparr>"
    by (simp add: assembly_new_def check_field_def field_boolean_def field_scalar_def Let_def
        checked_mul_usize_def checked_add_usize_def usize_max_def)
  from assembly_decode_total [OF this, of "[8, 1, 2]"] show ?thesis
    by (auto simp: list_all2_Cons1 field_boolean_def field_scalar_def split: sum.splits)
qed

text \<open>
  C27. What is written reads back: when values of the right shape are written to fields that
  pairwise share no bit, every one of them is extracted again from the updated image.
\<close>

theorem encode_into_readback:
  assumes "wf_layout l" "encode_into l kvs buf = (Inr (), buf')"
    and "\<And>k v f. (k, v) \<in> set kvs \<Longrightarrow> named_field l k = Some f \<Longrightarrow> fits_value f v"
    and "distinct (map fst kvs)"
    and "\<And>k k' f f'. k \<in> fst ` set kvs \<Longrightarrow> k' \<in> fst ` set kvs \<Longrightarrow> k \<noteq> k' \<Longrightarrow>
      named_field l k = Some f \<Longrightarrow> named_field l k' = Some f' \<Longrightarrow> disjoint_fields f f'"
    and "(k, v) \<in> set kvs"
  shows "\<exists>f. named_field l k = Some f \<and> extract_field f buf' = Inr v"
proof -
  have "length buf = al_data_size l" "insert_fields l kvs buf = (Inr (), buf')"
    using assms(2) by (auto simp: encode_into_def split: if_splits)
  from insert_fields_readback [OF assms(1) this assms(3-6)] show ?thesis .
qed

definition sample_layout :: assembly_layout where
  "sample_layout = \<lparr>al_fields = [field_boolean 0 0 3, field_boolean 1 0 4, field_scalar 2 1 TInt], al_data_size = 3\<rparr>"

lemma sample_layout_wf: "wf_layout sample_layout"
  by (simp add: wf_layout_def sample_layout_def valid_field_def field_boolean_def field_scalar_def
      is_elementary_def field_span_def)

lemma sample_named:
  "named_field sample_layout 0 = Some (field_boolean 0 0 3)"
  "named_field sample_layout 1 = Some (field_boolean 1 0 4)"
  "named_field sample_layout 2 = Some (field_scalar 2 1 TInt)"
  by (simp_all add: named_field_def sample_layout_def field_boolean_def field_scalar_def)

lemma sample_encode:
  "encode_into sample_layout [(0, VBool True), (2, VInt 0x1234)] [0x10, 0, 0] = (Inr (), [0x18, 0x34, 0x12])"
  by (simp add: encode_into_def sample_layout_def field_boolean_def field_scalar_def insert_field_def
      Let_def bit_mask_def writer_defs le_bytes_unfold checked_add_usize_def usize_max_def)

theorem encode_into_readback_witness:
  "\<exists>f. named_field sample_layout 2 = Some f \<and> extract_field f [0x18, 0x34, 0x12] = Inr (VInt 0x1234)"
proof (rule encode_into_readback [OF sample_layout_wf sample_encode])
  show "fits_value f v" if "(k, v) \<in> set [(0, VBool True), (2, VInt 0x1234)]" "named_field sample_layout k = Some f"
    for k v f
    using that by (auto simp: sample_named field_boolean_def field_scalar_def fits_value_def)
  show "disjoint_fields f f'" if "k \<in> fst ` set [(0, VBool True), (2, VInt 0x1234)]"
    "k' \<in> fst ` set [(0, VBool True), (2, VInt 0x1234)]" "k \<noteq> k'"
    "named_field sample_layout k = Some f" "named_field sample_layout k' = Some f'" for k k' f f'
    using that by (auto simp: sample_named field_boolean_def field_scalar_def disjoint_fields_def field_span_def)
qed simp_all

text \<open>
  Writing disturbs nothing else: a field that shares no bit with the fields written keeps
  its value, bits of a packed byte included, and the image keeps its size.
\<close>

theorem encode_into_frame:
  assumes "wf_layout l" "valid_field (al_data_size l) g" "encode_into l kvs buf = (Inr (), buf')"
    and "\<And>k v f. (k, v) \<in> set kvs \<Longrightarrow> named_field l k = Some f \<Longrightarrow> fits_value f v \<and> disjoint_fields f g"
  shows "length buf' = length buf \<and> extract_field g buf' = extract_field g buf"
proof -
  have "length buf = al_data_size l" "insert_fields l kvs buf = (Inr (), buf')"
    using assms(3) by (auto simp: encode_into_def split: if_splits)
  from insert_fields_other [OF assms(1,2) this assms(4)] this show ?thesis by simp
qed

theorem encode_into_frame_witness:
  "extract_field (field_boolean 1 0 4) [0x18, 0x34, 0x12] = extract_field (field_boolean 1 0 4) [0x10, 0, 0]"
proof (rule encode_into_frame [OF sample_layout_wf _ sample_encode, THEN conjunct2])
  show "valid_field (al_data_size sample_layout) (field_boolean 1 0 4)"
    using named_field_valid [OF sample_layout_wf sample_named(2)] .
  show "fits_value f v \<and> disjoint_fields f (field_boolean 1 0 4)"
    if "(k, v) \<in> set [(0, VBool True), (2, VInt 0x1234)]" "named_field sample_layout k = Some f" for k v f
    using that by (auto simp: sample_named field_boolean_def field_scalar_def fits_value_def
        disjoint_fields_def field_span_def)
qed


end
