(* ===== verification/Cm.thy ===== *)
theory Cm
  imports Message
begin

text \<open>
  The Connection Manager messages, \<^verbatim>\<open>crates/enip/src/cm.rs\<close>: network connection parameters in
  their 16- and 32-bit packings, ForwardOpen and ForwardClose requests, the two replies, and the
  check that a success reply echoes the identity of the request.
\<close>

definition CM_CONTEXT :: string where "CM_CONTEXT = ''connection manager''"

definition FORWARD_OPEN :: u8 where "FORWARD_OPEN = 0x54"
definition LARGE_FORWARD_OPEN :: u8 where "LARGE_FORWARD_OPEN = 0x5B"
definition FORWARD_CLOSE :: u8 where "FORWARD_CLOSE = 0x4E"
definition UNCONNECTED_SEND :: u8 where "UNCONNECTED_SEND = 0x52"

definition TRANSPORT_CLASS3_TRIGGER :: u8 where "TRANSPORT_CLASS3_TRIGGER = 0xA3"
definition TRANSPORT_CLASS1_TRIGGER :: u8 where "TRANSPORT_CLASS1_TRIGGER = 0x01"

datatype production_trigger = Cyclic | ChangeOfState | Application

fun transport_class1_trigger :: "production_trigger \<Rightarrow> u8" where
  "transport_class1_trigger Cyclic = 0x01"
| "transport_class1_trigger ChangeOfState = 0x11"
| "transport_class1_trigger Application = 0x21"

definition message_router_path :: epath where
  "message_router_path = ep_instance 0x01 (ep_class 0x02 [])"

definition connection_manager_path :: epath where
  "connection_manager_path = ep_instance 0x01 (ep_class 0x06 [])"

definition io_connection_path :: "u16 option \<Rightarrow> u16 \<Rightarrow> u16 \<Rightarrow> epath" where
  "io_connection_path config output input =
     (let p = ep_class 0x04 [];
          p = (case config of Some c \<Rightarrow> ep_instance (ucast c) p | None \<Rightarrow> p)
      in ep_connection_point input (ep_connection_point output p))"

section \<open>Network connection parameters\<close>

datatype conn_type = NullConn | Multicast | P2P

fun conn_type_bits :: "conn_type \<Rightarrow> u32" where
  "conn_type_bits NullConn = 0" | "conn_type_bits Multicast = 1" | "conn_type_bits P2P = 2"

definition conn_type_from_bits :: "u32 \<Rightarrow> conn_type" where
  "conn_type_from_bits bits =
     (if bits AND 3 = 1 then Multicast else if bits AND 3 = 2 then P2P else NullConn)"

datatype priority = Low | High | Scheduled | Urgent

fun priority_bits :: "priority \<Rightarrow> u32" where
  "priority_bits Low = 0" | "priority_bits High = 1"
| "priority_bits Scheduled = 2" | "priority_bits Urgent = 3"

definition priority_from_bits :: "u32 \<Rightarrow> priority" where
  "priority_from_bits bits =
     (if bits AND 3 = 1 then High else if bits AND 3 = 2 then Scheduled
      else if bits AND 3 = 3 then Urgent else Low)"

datatype variable_length = Fixed | Variable

definition is_variable :: "variable_length \<Rightarrow> bool" where
  "is_variable v \<longleftrightarrow> v = Variable"

definition variable_from_bit :: "bool \<Rightarrow> variable_length" where
  "variable_from_bit b = (if b then Variable else Fixed)"

record network_connection_params =
  nc_size :: u16
  nc_variable :: variable_length
  nc_priority :: priority
  nc_conn_type :: conn_type
  nc_redundant_owner :: bool

definition ncp_p2p :: "u16 \<Rightarrow> network_connection_params" where
  "ncp_p2p n =
     \<lparr>nc_size = n, nc_variable = Variable, nc_priority = Low, nc_conn_type = P2P,
      nc_redundant_owner = False\<rparr>"

definition ncp_io ::
    "u16 \<Rightarrow> variable_length \<Rightarrow> priority \<Rightarrow> conn_type \<Rightarrow> network_connection_params" where
  "ncp_io n v p t =
     \<lparr>nc_size = n, nc_variable = v, nc_priority = p, nc_conn_type = t, nc_redundant_owner = False\<rparr>"

definition ncp_encode_u16 :: "network_connection_params \<Rightarrow> enip_error + u16" where
  "ncp_encode_u16 p =
     (if nc_size p > 0x01FF then Inl (ETooLarge 0x01FF)
      else Inr ((nc_size p AND 0x01FF)
        OR push_bit 9 (of_bool (is_variable (nc_variable p)))
        OR push_bit 10 (ucast (priority_bits (nc_priority p)))
        OR push_bit 13 (ucast (conn_type_bits (nc_conn_type p)))
        OR push_bit 15 (of_bool (nc_redundant_owner p))))"

definition ncp_encode_u32 :: "network_connection_params \<Rightarrow> u32" where
  "ncp_encode_u32 p =
     ucast (nc_size p)
      OR push_bit 25 (of_bool (is_variable (nc_variable p)))
      OR push_bit 26 (priority_bits (nc_priority p))
      OR push_bit 29 (conn_type_bits (nc_conn_type p))
      OR push_bit 31 (of_bool (nc_redundant_owner p))"

definition ncp_decode_u16 :: "u16 \<Rightarrow> network_connection_params" where
  "ncp_decode_u16 v =
     \<lparr>nc_size = v AND 0x01FF,
      nc_variable = variable_from_bit (v AND 0x0200 \<noteq> 0),
      nc_priority = priority_from_bits (ucast (drop_bit 10 v)),
      nc_conn_type = conn_type_from_bits (ucast (drop_bit 13 v)),
      nc_redundant_owner = (v AND 0x8000 \<noteq> 0)\<rparr>"

definition ncp_decode_u32 :: "u32 \<Rightarrow> network_connection_params" where
  "ncp_decode_u32 v =
     \<lparr>nc_size = ucast (v AND 0xFFFF),
      nc_variable = variable_from_bit (v AND 0x02000000 \<noteq> 0),
      nc_priority = priority_from_bits (drop_bit 26 v),
      nc_conn_type = conn_type_from_bits (drop_bit 29 v),
      nc_redundant_owner = (v AND 0x80000000 \<noteq> 0)\<rparr>"

section \<open>Timeout multiplier\<close>

datatype timeout_multiplier = X4 | X8 | X16 | X32 | X64 | X128 | X256 | X512

fun multiplier_code :: "timeout_multiplier \<Rightarrow> u8" where
  "multiplier_code X4 = 0" | "multiplier_code X8 = 1" | "multiplier_code X16 = 2"
| "multiplier_code X32 = 3" | "multiplier_code X64 = 4" | "multiplier_code X128 = 5"
| "multiplier_code X256 = 6" | "multiplier_code X512 = 7"

definition multiplier :: "timeout_multiplier \<Rightarrow> u32" where
  "multiplier m = push_bit (unat (multiplier_code m)) 4"

definition multiplier_from_code :: "u8 \<Rightarrow> timeout_multiplier" where
  "multiplier_from_code c =
     (if c = 0 then X4 else if c = 1 then X8 else if c = 2 then X16 else if c = 3 then X32
      else if c = 4 then X64 else if c = 5 then X128 else if c = 6 then X256 else X512)"

section \<open>ForwardOpen\<close>

record forward_open_request =
  fo_priority_time_tick :: u8
  fo_timeout_ticks :: u8
  fo_o_t_connection_id :: u32
  fo_t_o_connection_id :: u32
  fo_connection_serial :: u16
  fo_vendor_id :: u16
  fo_originator_serial :: u32
  fo_timeout_multiplier :: timeout_multiplier
  fo_o_t_rpi :: u32
  fo_o_t_params :: network_connection_params
  fo_t_o_rpi :: u32
  fo_t_o_params :: network_connection_params
  fo_transport_class_trigger :: u8
  fo_connection_path :: epath
  fo_large :: bool

definition forward_open_class3 ::
    "u32 \<Rightarrow> u32 \<Rightarrow> u16 \<Rightarrow> u16 \<Rightarrow> u32 \<Rightarrow> epath \<Rightarrow> u32 \<Rightarrow> timeout_multiplier \<Rightarrow> forward_open_request" where
  "forward_open_class3 o_t_id t_o_id serial vendor orig_serial path rpi_micros mult =
     \<lparr>fo_priority_time_tick = 0x0A, fo_timeout_ticks = 0x0E,
      fo_o_t_connection_id = o_t_id, fo_t_o_connection_id = t_o_id,
      fo_connection_serial = serial, fo_vendor_id = vendor, fo_originator_serial = orig_serial,
      fo_timeout_multiplier = mult, fo_o_t_rpi = rpi_micros, fo_o_t_params = ncp_p2p 500,
      fo_t_o_rpi = rpi_micros, fo_t_o_params = ncp_p2p 500,
      fo_transport_class_trigger = TRANSPORT_CLASS3_TRIGGER, fo_connection_path = path,
      fo_large = False\<rparr>"

definition forward_open_class1 ::
    "u32 \<Rightarrow> u16 \<Rightarrow> u16 \<Rightarrow> u32 \<Rightarrow> timeout_multiplier \<Rightarrow> u32 \<Rightarrow> network_connection_params \<Rightarrow> u32 \<Rightarrow>
     network_connection_params \<Rightarrow> u8 \<Rightarrow> epath \<Rightarrow> bool \<Rightarrow> forward_open_request" where
  "forward_open_class1 t_o_id serial vendor orig_serial mult o_t_rpi o_t_params t_o_rpi t_o_params
     trigger path large =
     \<lparr>fo_priority_time_tick = 0x0A, fo_timeout_ticks = 0x0E,
      fo_o_t_connection_id = 0, fo_t_o_connection_id = t_o_id,
      fo_connection_serial = serial, fo_vendor_id = vendor, fo_originator_serial = orig_serial,
      fo_timeout_multiplier = mult, fo_o_t_rpi = o_t_rpi, fo_o_t_params = o_t_params,
      fo_t_o_rpi = t_o_rpi, fo_t_o_params = t_o_params,
      fo_transport_class_trigger = trigger, fo_connection_path = path, fo_large = large\<rparr>"

definition forward_open_service :: "forward_open_request \<Rightarrow> u8" where
  "forward_open_service q = (if fo_large q then LARGE_FORWARD_OPEN else FORWARD_OPEN)"

definition write_params :: "forward_open_request \<Rightarrow> network_connection_params \<Rightarrow> bytes \<Rightarrow> enip_error + bytes" where
  "write_params q p w =
     (if fo_large q then Inr (w_u32 (ncp_encode_u32 p) w)
      else ok_then (ncp_encode_u16 p) (\<lambda>v. Inr (w_u16 v w)))"

definition forward_open_encode :: "forward_open_request \<Rightarrow> enip_error + bytes" where
  "forward_open_encode q =
     ok_then (epath_encode (fo_connection_path q)) (\<lambda>path_bytes.
     ok_then (ok_or (u8_try_from (length path_bytes div 2)) (ETooLarge 255)) (\<lambda>path_words.
       let w = w_u8 (fo_priority_time_tick q) [];
           w = w_u8 (fo_timeout_ticks q) w;
           w = w_u32 (fo_o_t_connection_id q) w;
           w = w_u32 (fo_t_o_connection_id q) w;
           w = w_u16 (fo_connection_serial q) w;
           w = w_u16 (fo_vendor_id q) w;
           w = w_u32 (fo_originator_serial q) w;
           w = w_u8 (multiplier_code (fo_timeout_multiplier q)) w;
           w = w_put_slice [0, 0, 0] w;
           w = w_u32 (fo_o_t_rpi q) w
       in ok_then (write_params q (fo_o_t_params q) w) (\<lambda>w.
          ok_then (write_params q (fo_t_o_params q) (w_u32 (fo_t_o_rpi q) w)) (\<lambda>w.
          Inr (w_put_slice path_bytes (w_u8 path_words (w_u8 (fo_transport_class_trigger q) w)))))))"

record forward_open_success =
  fos_o_t_connection_id :: u32
  fos_t_o_connection_id :: u32
  fos_connection_serial :: u16
  fos_vendor_id :: u16
  fos_originator_serial :: u32
  fos_o_t_api :: u32
  fos_t_o_api :: u32
  fos_app_data :: bytes

definition forward_open_success_decode :: "bytes \<Rightarrow> wire_error + forward_open_success" where
  "forward_open_success_decode data =
     ok_then (r_u32 (r_with_context data CM_CONTEXT)) (\<lambda>(o_t_id, r).
     ok_then (r_u32 r) (\<lambda>(t_o_id, r).
     ok_then (r_u16 r) (\<lambda>(serial, r).
     ok_then (r_u16 r) (\<lambda>(vendor, r).
     ok_then (r_u32 r) (\<lambda>(orig_serial, r).
     ok_then (r_u32 r) (\<lambda>(o_t_api, r).
     ok_then (r_u32 r) (\<lambda>(t_o_api, r).
     ok_then (r_u8 r) (\<lambda>(app_words, r).
     ok_then (r_u8 r) (\<lambda>(_, r).
     ok_then (ok_or (checked_mul_usize (unat app_words) 2) (Overflow CM_CONTEXT)) (\<lambda>app_bytes.
     ok_then (r_take app_bytes r) (\<lambda>(app_data, _).
     Inr \<lparr>fos_o_t_connection_id = o_t_id, fos_t_o_connection_id = t_o_id,
          fos_connection_serial = serial, fos_vendor_id = vendor,
          fos_originator_serial = orig_serial, fos_o_t_api = o_t_api, fos_t_o_api = t_o_api,
          fos_app_data = app_data\<rparr>)))))))))))"

definition verify_forward_open_echo :: "forward_open_request \<Rightarrow> forward_open_success \<Rightarrow> enip_error + unit" where
  "verify_forward_open_echo open_req success =
     (if fos_t_o_connection_id success \<noteq> fo_t_o_connection_id open_req
      then Inl (EProtocolViolation ''forward-open reply t->o connection id mismatch'')
      else if fos_connection_serial success \<noteq> fo_connection_serial open_req
      then Inl (EProtocolViolation ''forward-open reply connection serial mismatch'')
      else if fos_vendor_id success \<noteq> fo_vendor_id open_req
      then Inl (EProtocolViolation ''forward-open reply vendor id mismatch'')
      else if fos_originator_serial success \<noteq> fo_originator_serial open_req
      then Inl (EProtocolViolation ''forward-open reply originator serial mismatch'')
      else Inr ())"

record forward_request_fail =
  frf_connection_serial :: u16
  frf_vendor_id :: u16
  frf_originator_serial :: u32
  frf_remaining_path_size :: "u8 option"

definition forward_request_fail_decode :: "bytes \<Rightarrow> wire_error + forward_request_fail" where
  "forward_request_fail_decode data =
     ok_then (r_u16 (r_with_context data CM_CONTEXT)) (\<lambda>(serial, r).
     ok_then (r_u16 r) (\<lambda>(vendor, r).
     ok_then (r_u32 r) (\<lambda>(orig_serial, r).
     ok_then (if r_remaining r \<ge> 1 then ok_then (r_u8 r) (\<lambda>(rps, _). Inr (Some rps)) else Inr None) (\<lambda>rps.
     Inr \<lparr>frf_connection_serial = serial, frf_vendor_id = vendor,
          frf_originator_serial = orig_serial, frf_remaining_path_size = rps\<rparr>))))"

section \<open>ForwardClose\<close>

record forward_close_request =
  fc_priority_time_tick :: u8
  fc_timeout_ticks :: u8
  fc_connection_serial :: u16
  fc_vendor_id :: u16
  fc_originator_serial :: u32
  fc_connection_path :: epath

definition forward_close_for_open :: "forward_open_request \<Rightarrow> forward_close_request" where
  "forward_close_for_open q =
     \<lparr>fc_priority_time_tick = fo_priority_time_tick q, fc_timeout_ticks = fo_timeout_ticks q,
      fc_connection_serial = fo_connection_serial q, fc_vendor_id = fo_vendor_id q,
      fc_originator_serial = fo_originator_serial q, fc_connection_path = fo_connection_path q\<rparr>"

definition forward_close_encode :: "forward_close_request \<Rightarrow> enip_error + bytes" where
  "forward_close_encode q =
     ok_then (epath_encode (fc_connection_path q)) (\<lambda>path_bytes.
     ok_then (ok_or (u8_try_from (length path_bytes div 2)) (ETooLarge 255)) (\<lambda>path_words.
       let w = w_u8 (fc_priority_time_tick q) [];
           w = w_u8 (fc_timeout_ticks q) w;
           w = w_u16 (fc_connection_serial q) w;
           w = w_u16 (fc_vendor_id q) w;
           w = w_u32 (fc_originator_serial q) w;
           w = w_u8 path_words w;
           w = w_u8 0 w
       in Inr (w_put_slice path_bytes w)))"

section \<open>Packing\<close>

text \<open>A size that fits the low bits commutes with the flags above them.\<close>

lemma low_bits:
  fixes v c m :: "'a::len word"
  assumes "v AND m = v" and "c AND m = 0"
  shows "(v OR c) AND m = v" and "\<And>k. k AND m = 0 \<Longrightarrow> (v OR c) AND k = c AND k"
proof -
  show "(v OR c) AND m = v" using assms by (simp add: bit.conj_disj_distrib2)
  fix k assume k: "k AND m = 0"
  have "v AND k = v AND (m AND k)" using assms(1) by (metis and.assoc)
  also have "\<dots> = 0" using k by (simp add: and.commute)
  finally show "(v OR c) AND k = c AND k" by (simp add: bit.conj_disj_distrib2)
qed

lemma drop_low_bits:
  fixes v :: "'a::len word"
  assumes "v AND mask n = v" "n \<le> k"
  shows "drop_bit k v = 0"
proof -
  have "\<not> bit v (k + i)" for i
  proof
    assume "bit v (k + i)"
    then have "bit (v AND mask n) (k + i)" by (simp only: assms(1))
    then have "k + i < n" by (simp add: bit_and_iff bit_mask_iff)
    with assms(2) show False by simp
  qed
  then show ?thesis by (intro bit_word_eqI) (simp add: bit_drop_bit_eq)
qed

definition ncp_flags16 :: "network_connection_params \<Rightarrow> u16" where
  "ncp_flags16 p = push_bit 9 (of_bool (is_variable (nc_variable p)))
        OR push_bit 10 (ucast (priority_bits (nc_priority p)))
        OR push_bit 13 (ucast (conn_type_bits (nc_conn_type p)))
        OR push_bit 15 (of_bool (nc_redundant_owner p))"

definition ncp_flags32 :: "network_connection_params \<Rightarrow> u32" where
  "ncp_flags32 p = push_bit 25 (of_bool (is_variable (nc_variable p)))
      OR push_bit 26 (priority_bits (nc_priority p))
      OR push_bit 29 (conn_type_bits (nc_conn_type p))
      OR push_bit 31 (of_bool (nc_redundant_owner p))"

lemma ncp_flags16_decode:
  "ncp_flags16 p AND 0x01FF = 0"
  "ncp_decode_u16 (ncp_flags16 p) = p\<lparr>nc_size := 0\<rparr>"
  by (cases "nc_variable p"; cases "nc_priority p"; cases "nc_conn_type p"; cases "nc_redundant_owner p";
      simp add: ncp_flags16_def ncp_decode_u16_def is_variable_def variable_from_bit_def
        priority_from_bits_def conn_type_from_bits_def)+

lemma ncp_flags32_decode:
  "ncp_flags32 p AND 0xFFFF = 0"
  "ncp_decode_u32 (ncp_flags32 p) = p\<lparr>nc_size := 0\<rparr>"
  by (cases "nc_variable p"; cases "nc_priority p"; cases "nc_conn_type p"; cases "nc_redundant_owner p";
      simp add: ncp_flags32_def ncp_decode_u32_def is_variable_def variable_from_bit_def
        priority_from_bits_def conn_type_from_bits_def)+

lemma size_low_bits:
  "nc_size p \<le> 0x01FF \<Longrightarrow> nc_size p AND 0x01FF = nc_size p"
  "(ucast (nc_size p) :: u32) AND 0xFFFF = ucast (nc_size p)"
proof -
  assume "nc_size p \<le> 0x01FF"
  then have "unat (nc_size p) < 2 ^ 9" by (simp add: word_le_nat_alt)
  then have "unat (take_bit 9 (nc_size p)) = unat (nc_size p)"
    by (simp only: unsigned_take_bit_eq take_bit_nat_eq_self)
  then have "take_bit 9 (nc_size p) = nc_size p" by simp
  then show "nc_size p AND 0x01FF = nc_size p" by (simp add: take_bit_eq_mask mask_eq_exp_minus_1)
next
  show "(ucast (nc_size p) :: u32) AND 0xFFFF = ucast (nc_size p)"
  proof -
    have m: "(0xFFFF :: u32) = mask 16" by (simp add: mask_eq_exp_minus_1)
    have "bit (nc_size p) n \<Longrightarrow> n < 16" for n
      using bit_imp_le_length [of "nc_size p" n] by simp
    then show ?thesis
      unfolding m by (intro bit_word_eqI) (auto simp: bit_and_iff bit_mask_iff bit_unsigned_iff simp del: mask_numeral)
  qed
qed

lemma ucast_widen: "ucast (ucast (w :: u16) :: u32) = w"
  by (rule bit_word_eqI) (simp add: bit_simps)

lemma ncp_encode_split:
  "nc_size p \<le> 0x01FF \<Longrightarrow> ncp_encode_u16 p = Inr (nc_size p OR ncp_flags16 p)"
  "ncp_encode_u32 p = ucast (nc_size p) OR ncp_flags32 p"
  by (simp_all add: ncp_encode_u16_def ncp_encode_u32_def ncp_flags16_def ncp_flags32_def or.assoc size_low_bits)

lemma ncp_round_u16:
  assumes "nc_size p \<le> 0x01FF"
  shows "ncp_encode_u16 p = Inr v \<Longrightarrow> ncp_decode_u16 v = p"
proof -
  note low = size_low_bits(1) [OF assms]
  have low': "nc_size p AND mask 9 = nc_size p" using low by (simp add: mask_eq_exp_minus_1)
  assume "ncp_encode_u16 p = Inr v"
  then have v: "v = nc_size p OR ncp_flags16 p" using ncp_encode_split(1) [OF assms] by simp
  have "ncp_decode_u16 v = (ncp_decode_u16 (ncp_flags16 p))\<lparr>nc_size := nc_size p\<rparr>"
    unfolding v ncp_decode_u16_def
    by (simp add: low_bits(1) [OF low ncp_flags16_decode(1)] low_bits(2) [OF low ncp_flags16_decode(1)]
        drop_low_bits [OF low'])
  then show ?thesis by (simp add: ncp_flags16_decode(2))
qed

lemma ncp_round_u32: "ncp_decode_u32 (ncp_encode_u32 p) = p"
proof -
  note low = size_low_bits(2) [of p]
  have low': "(ucast (nc_size p) :: u32) AND mask 16 = ucast (nc_size p)"
    using low by (simp add: mask_eq_exp_minus_1)
  have "ncp_decode_u32 (ncp_encode_u32 p) = (ncp_decode_u32 (ncp_flags32 p))\<lparr>nc_size := nc_size p\<rparr>"
    unfolding ncp_encode_split(2) ncp_decode_u32_def
    by (simp add: low_bits(1) [OF low ncp_flags32_decode(1)] low_bits(2) [OF low ncp_flags32_decode(1)]
        drop_low_bits [OF low'] ucast_widen)
  then show ?thesis by (simp add: ncp_flags32_decode(2))
qed

section \<open>Requests\<close>

lemma path_words:
  assumes "epath_encode p = Inr bs"
  shows "u8_try_from (length bs div 2) = Some (of_nat (length bs div 2))"
proof -
  from assms have "length bs \<le> 510" unfolding epath_encode_iff by blast
  then show ?thesis by (simp add: u8_try_from_def)
qed

lemma write_params_iff:
  "(\<exists>w'. write_params q p w = Inr w') \<longleftrightarrow> fo_large q \<or> nc_size p \<le> 0x01FF"
  "write_params q p w = Inr w' \<Longrightarrow> length w' = length w + (if fo_large q then 4 else 2)"
  by (auto simp: write_params_def ncp_encode_u16_def writer_defs ok_then_def split: if_splits)

lemma forward_open_encode_ok:
  "(\<exists>bs. forward_open_encode q = Inr bs) \<longleftrightarrow>
     (\<exists>p. epath_encode (fo_connection_path q) = Inr p) \<and>
     (fo_large q \<or> nc_size (fo_o_t_params q) \<le> 0x01FF \<and> nc_size (fo_t_o_params q) \<le> 0x01FF)"
proof (cases "epath_encode (fo_connection_path q)")
  case (Inr p)
  then show ?thesis
    using path_words [OF Inr]
    by (auto simp: forward_open_encode_def Let_def ok_then_Inr_iff write_params_def ncp_encode_u16_def
        split: if_splits)
qed (simp add: forward_open_encode_def)

section \<open>Properties\<close>

text \<open>
  The connection parameters survive both packings: the 32-bit form always, and the 16-bit
  form for every size of at most 511, which are exactly the sizes it accepts. No size, length
  mode, priority, connection type or owner flag leaks into another field.
\<close>

theorem ncp_packing_round_trip:
  "ncp_decode_u32 (ncp_encode_u32 p) = p \<and>
   (case ncp_encode_u16 p of
      Inl e \<Rightarrow> nc_size p > 511 \<and> e = ETooLarge 511
    | Inr v \<Rightarrow> nc_size p \<le> 511 \<and> ncp_decode_u16 v = p)"
proof (cases "nc_size p \<le> 0x01FF")
  case True
  then obtain v where "ncp_encode_u16 p = Inr v" using ncp_encode_split(1) by blast
  with True ncp_round_u16 [OF True] show ?thesis by (simp add: ncp_round_u32)
next
  case False
  then show ?thesis by (simp add: ncp_round_u32 ncp_encode_u16_def not_le)
qed

text \<open>
  Whatever can be opened can be closed: a ForwardOpen request encodes exactly when its path
  does and its sizes fit the chosen form, and then the ForwardClose built from it encodes too,
  with the same serial, vendor and originator serial in its fixed positions.
\<close>

theorem forward_open_closable:
  assumes "forward_open_encode q = Inr bs"
  shows "(fo_large q \<or> nc_size (fo_o_t_params q) \<le> 511 \<and> nc_size (fo_t_o_params q) \<le> 511) \<and>
    (\<exists>p. epath_encode (fo_connection_path q) = Inr p \<and>
      forward_close_encode (forward_close_for_open q) =
        Inr ([fo_priority_time_tick q, fo_timeout_ticks q] @ le_bytes 2 (fo_connection_serial q) @
             le_bytes 2 (fo_vendor_id q) @ le_bytes 4 (fo_originator_serial q) @
             [of_nat (length p div 2), 0] @ p))"
proof -
  obtain p where p: "epath_encode (fo_connection_path q) = Inr p"
    and "fo_large q \<or> nc_size (fo_o_t_params q) \<le> 0x01FF \<and> nc_size (fo_t_o_params q) \<le> 0x01FF"
    using assms forward_open_encode_ok [of q] by blast
  with path_words [OF p] show ?thesis
    by (simp add: forward_close_encode_def forward_close_for_open_def writer_defs)
qed

theorem forward_open_closable_witness:
  "\<exists>p. epath_encode message_router_path = Inr p \<and>
     forward_close_encode (forward_close_for_open
       (forward_open_class3 0 7 1 2 3 message_router_path 2000000 X16)) =
     Inr ([0x0A, 0x0E] @ le_bytes 2 (1 :: u16) @ le_bytes 2 (2 :: u16) @ le_bytes 4 (3 :: u32) @
       [of_nat (length p div 2), 0] @ p)"
proof -
  let ?q = "forward_open_class3 0 7 1 2 3 message_router_path 2000000 X16"
  have "\<exists>bs. forward_open_encode ?q = Inr bs"
    unfolding forward_open_encode_ok
    by (simp add: forward_open_class3_def ncp_p2p_def message_router_path_def ep_class_def ep_instance_def
        epath_encode_iff seg_bytes_logical encode_logical_def encode_logical_wide_def writer_defs)
  then obtain bs where "forward_open_encode ?q = Inr bs" ..
  from forward_open_closable [OF this] show ?thesis
    by (simp add: forward_open_class3_def)
qed

text \<open>
  A success reply arms a connection only when all four identity fields of the request come
  back, while the target-assigned O->T connection id is left to the target.
\<close>

theorem verify_forward_open_echo_iff:
  "verify_forward_open_echo q s = Inr () \<longleftrightarrow>
     fos_t_o_connection_id s = fo_t_o_connection_id q \<and>
     fos_connection_serial s = fo_connection_serial q \<and>
     fos_vendor_id s = fo_vendor_id q \<and>
     fos_originator_serial s = fo_originator_serial q"
  by (auto simp: verify_forward_open_echo_def)

end
