(* ===== verification/Logix.thy ===== *)
theory Logix
  imports Message Cip_Types
begin

text \<open>
  The Logix tag services, \<^verbatim>\<open>crates/enip/src/logix.rs\<close>: the symbol-type word, tag-list pages, and the
  three transfers that drive the peer (read with reassembly, write with chunking, one page of
  enumeration). The peer is an \<open>exchange\<close>, an arbitrary function of the request and of the state
  of the world, so every statement holds against a hostile one.
\<close>

definition LOGIX_CONTEXT :: string where "LOGIX_CONTEXT = ''logix''"

definition SERVICE_READ_TAG :: u8 where "SERVICE_READ_TAG = 0x4C"
definition SERVICE_WRITE_TAG :: u8 where "SERVICE_WRITE_TAG = 0x4D"
definition SERVICE_READ_TAG_FRAGMENTED :: u8 where "SERVICE_READ_TAG_FRAGMENTED = 0x52"
definition SERVICE_WRITE_TAG_FRAGMENTED :: u8 where "SERVICE_WRITE_TAG_FRAGMENTED = 0x53"
definition SERVICE_GET_INSTANCE_ATTRIBUTE_LIST :: u8 where "SERVICE_GET_INSTANCE_ATTRIBUTE_LIST = 0x55"
definition CLASS_SYMBOL :: u16 where "CLASS_SYMBOL = 0x6B"

section \<open>The symbol-type word\<close>

type_synonym symbol_type = u16

definition sym_is_struct :: "symbol_type \<Rightarrow> bool" where
  "sym_is_struct w \<longleftrightarrow> w AND 0x8000 \<noteq> 0"

definition sym_is_atomic :: "symbol_type \<Rightarrow> bool" where
  "sym_is_atomic w \<longleftrightarrow> \<not> sym_is_struct w"

definition sym_dims :: "symbol_type \<Rightarrow> u8" where
  "sym_dims w = ucast (drop_bit 13 w AND 3)"

definition sym_type_code :: "symbol_type \<Rightarrow> u8 option" where
  "sym_type_code w = (if sym_is_struct w then None else Some (ucast (w AND 0xFF)))"

definition sym_cip_type :: "symbol_type \<Rightarrow> cip_type option" where
  "sym_cip_type w = map_option (\<lambda>c. cip_type_from_code (ucast c)) (sym_type_code w)"

definition sym_is_bool :: "symbol_type \<Rightarrow> bool" where
  "sym_is_bool w \<longleftrightarrow> sym_type_code w = Some 0xC1"

definition sym_bit_position :: "symbol_type \<Rightarrow> u8 option" where
  "sym_bit_position w = (if sym_is_bool w then Some (ucast (drop_bit 8 w AND 7)) else None)"

definition sym_template_instance :: "symbol_type \<Rightarrow> u16 option" where
  "sym_template_instance w = (if sym_is_struct w then Some (w AND 0x0FFF) else None)"

definition sym_is_system_predefined :: "symbol_type \<Rightarrow> bool" where
  "sym_is_system_predefined w = (case sym_template_instance w of Some v \<Rightarrow> v > 0xEFF | None \<Rightarrow> False)"

definition sym_is_value_supported :: "symbol_type \<Rightarrow> bool" where
  "sym_is_value_supported w \<longleftrightarrow>
     \<not> sym_is_struct w \<and> sym_dims w = 0 \<and>
     (case sym_cip_type w of Some t \<Rightarrow> is_elementary t | None \<Rightarrow> False)"

section \<open>Tag-list pages\<close>

record symbol_info =
  si_instance_id :: u32
  si_name :: rstr
  si_symbol_type :: symbol_type

definition symbol_info_decode :: "symbol_info decoder" where
  "symbol_info_decode r =
     ok_then (r_u32 r) (\<lambda>(instance_id, r).
     ok_then (r_u16 r) (\<lambda>(name_len, r).
     ok_then (r_take (unat name_len) r) (\<lambda>(name, r).
     if \<not> from_utf8_ok name then Inl (InvalidUtf8 LOGIX_CONTEXT)
     else
       ok_then (r_u16 r) (\<lambda>(symbol_type, r).
       Inr (\<lparr>si_instance_id = instance_id, si_name = name, si_symbol_type = symbol_type\<rparr>, r)))))"

lemma symbol_info_decode_pos:
  assumes "symbol_info_decode r = Inr (x, r')"
  shows "r_remaining r' < r_remaining r"
proof -
  have *: "rd_buf q' = rd_buf q \<and> rd_pos q' = rd_pos q + n \<and> rd_pos q' \<le> length (rd_buf q)"
    if "r_take n q = Inr (y, q')" for n y and q q'
    using that by (auto simp: r_take_def slice_get_def checked_add_usize_def split: if_splits)
  from assms obtain a r1 b r2 c r3 d where "r_take 4 r = Inr (a, r1)" "r_take 2 r1 = Inr (b, r2)"
    "r_take (unat (from_le_bytes b :: u16)) r2 = Inr (c, r3)" "r_take 2 r3 = Inr (d, r')"
    by (auto simp: symbol_info_decode_def r_u32_def r_u16_def r_num_def ok_then_Inr_iff split: if_splits)
  from this [THEN *] have "rd_buf r' = rd_buf r" "rd_pos r < rd_pos r'" "rd_pos r' \<le> length (rd_buf r)"
    by auto
  then show ?thesis unfolding r_remaining_def by (auto intro: diff_less_mono2)
qed

text \<open>The loop \<^verbatim>\<open>while r.remaining() > 0\<close> of \<^verbatim>\<open>parse_tag_list\<close>.\<close>

function parse_records :: "wire_reader \<Rightarrow> wire_error + symbol_info list" where
  "parse_records r =
     (if r_remaining r > 0
      then (case symbol_info_decode r of
              Inl e \<Rightarrow> Inl e
            | Inr (x, r') \<Rightarrow> ok_then (parse_records r') (\<lambda>xs. Inr (x # xs)))
      else Inr [])"
  by pat_completeness auto
termination
  by (relation "measure r_remaining") (auto dest: symbol_info_decode_pos simp del: r_remaining_rest)

declare parse_records.simps [simp del]

definition parse_tag_list :: "bytes \<Rightarrow> wire_error + symbol_info list" where
  "parse_tag_list data = parse_records (r_with_context data LOGIX_CONTEXT)"

datatype scope = Controller | Program rstr

section \<open>Reading\<close>

record tag_read_result =
  tr_value :: cip_value
  tr_wire_type :: cip_type
  tr_fragmented :: bool

definition build_fragment_value :: "cip_type \<Rightarrow> u16 option \<Rightarrow> bytes \<Rightarrow> enip_error + cip_value" where
  "build_fragment_value ty struct_handle acc =
     (case ty of
        TStruct \<Rightarrow> Inr (VStruct (case struct_handle of Some h \<Rightarrow> h | None \<Rightarrow> 0) (length acc))
      | TString \<Rightarrow> Inr (VUnsupported (cip_type_code ty) (length acc))
      | TUnknown _ \<Rightarrow> Inr (VUnsupported (cip_type_code ty) (length acc))
      | elementary \<Rightarrow> map_err EMalformed (cip_value_decode elementary acc))"

text \<open>
  The header of a fragment: the type code and, for a structure, the template handle, each checked
  against the one of the first fragment; then the value bytes.
\<close>

definition fragment_header ::
    "u16 option \<Rightarrow> u16 option \<Rightarrow> bytes \<Rightarrow> enip_error + u16 \<times> u16 option \<times> bytes" where
  "fragment_header wire_code struct_handle data =
     ok_then (map_err EMalformed (r_u16 (r_with_context data LOGIX_CONTEXT))) (\<lambda>(code, r).
     if wire_code \<noteq> None \<and> wire_code \<noteq> Some code
     then Inl (EProtocolViolation ''fragmented read type code changed between fragments'')
     else if cip_type_from_code code = TStruct
     then ok_then (map_err EMalformed (r_u16 r)) (\<lambda>(handle, r).
       if struct_handle \<noteq> None \<and> struct_handle \<noteq> Some handle
       then Inl (EProtocolViolation ''fragmented read struct handle changed between fragments'')
       else Inr (code, Some handle, fst (r_take_rest r)))
     else Inr (code, struct_handle, fst (r_take_rest r)))"

definition read_fragment_request :: "epath \<Rightarrow> u16 \<Rightarrow> u32 \<Rightarrow> message_request" where
  "read_fragment_request path elements offset =
     message_request_new SERVICE_READ_TAG_FRAGMENTED path (w_u32 offset (w_u16 elements []))"

text \<open>
  One iteration up to the end of the loop body: \<open>Inr (more_data, offset', acc', code, handle)\<close> when the
  fragment was taken.
\<close>

definition fragment_step ::
    "nat \<Rightarrow> u32 \<Rightarrow> bytes \<Rightarrow> u16 option \<Rightarrow> u16 option \<Rightarrow> message_reply \<Rightarrow>
     enip_error + bool \<times> u32 \<times> bytes \<times> u16 \<times> u16 option" where
  "fragment_step cap offset acc wire_code struct_handle reply =
     ok_then (expect_service reply SERVICE_READ_TAG_FRAGMENTED) (\<lambda>_.
       let more_data = has_more (mr_status reply) in
       if \<not> cip_is_ok (mr_status reply) \<and> \<not> more_data then Inl (ECip (mr_status reply))
       else
         ok_then (fragment_header wire_code struct_handle (mr_data reply)) (\<lambda>(code, handle, value_bytes).
         ok_then (ok_or (checked_add_usize (length acc) (length value_bytes)) (ETooLarge cap)) (\<lambda>new_len.
         if new_len > cap then Inl (ETooLarge cap)
         else
           ok_then (ok_or (u32_try_from (length value_bytes)) (ETooLarge cap)) (\<lambda>advance.
           ok_then (ok_or (checked_add_u32 offset advance) (ETooLarge cap)) (\<lambda>offset'.
           if more_data \<and> value_bytes = []
           then Inl (EProtocolViolation ''fragmented read made no progress'')
           else Inr (more_data, offset', acc @ value_bytes, code, handle))))))"

lemma fragment_step_grows:
  assumes "fragment_step cap offset acc wc sh reply = Inr (True, offset', acc', code, handle)"
  shows "cap - length acc' < cap - length acc"
proof -
  from assms obtain b where "b \<noteq> []" "acc' = acc @ b" "length acc' \<le> cap"
    by (auto simp: fragment_step_def ok_then_Inr_iff Let_def checked_add_usize_def split: if_splits)
  moreover from this have "length acc < length acc'" by simp
  ultimately show ?thesis by (meson diff_less_mono2 less_le_trans)
qed

function read_fragments ::
    "'s exchange \<Rightarrow> nat \<Rightarrow> epath \<Rightarrow> u16 \<Rightarrow> u32 \<Rightarrow> bytes \<Rightarrow> u16 option \<Rightarrow> u16 option \<Rightarrow> 's \<Rightarrow>
     (enip_error + u16 \<times> u16 option \<times> bytes) \<times> 's" where
  "read_fragments send cap path elements offset acc wire_code struct_handle s =
     (case send (read_fragment_request path elements offset) ''read_tag_fragmented'' s of
        (Inl e, s) \<Rightarrow> (Inl e, s)
      | (Inr reply, s) \<Rightarrow>
          (case fragment_step cap offset acc wire_code struct_handle reply of
             Inl e \<Rightarrow> (Inl e, s)
           | Inr (more_data, offset', acc', code, handle) \<Rightarrow>
               if more_data
               then read_fragments send cap path elements offset' acc' (Some code) handle s
               else (Inr (code, handle, acc'), s)))"
  by pat_completeness auto
termination
  by (relation "measure (\<lambda>(_, cap, _, _, _, acc, _). cap - length acc)")
    (auto dest: fragment_step_grows)

declare read_fragments.simps [simp del]

definition read_tag_fragmented ::
    "'s exchange \<Rightarrow> nat \<Rightarrow> tag_address \<Rightarrow> u16 \<Rightarrow> 's \<Rightarrow> (enip_error + tag_read_result) \<times> 's" where
  "read_tag_fragmented send cap tag elements s =
     (case read_fragments send cap (ta_path tag) elements 0 [] None None s of
        (Inl e, s) \<Rightarrow> (Inl e, s)
      | (Inr (code, handle, acc), s) \<Rightarrow>
          (ok_then (build_fragment_value (cip_type_from_code code) handle acc) (\<lambda>v.
           Inr \<lparr>tr_value = v, tr_wire_type = cip_type_from_code code, tr_fragmented = True\<rparr>), s))"

definition read_tag ::
    "'s exchange \<Rightarrow> nat \<Rightarrow> tag_address \<Rightarrow> u16 \<Rightarrow> 's \<Rightarrow> (enip_error + tag_read_result) \<times> 's" where
  "read_tag send cap tag elements s =
     (case send (message_request_new SERVICE_READ_TAG (ta_path tag) (w_u16 elements [])) ''read_tag'' s of
        (Inl e, s) \<Rightarrow> (Inl e, s)
      | (Inr reply, s) \<Rightarrow>
          (case expect_service reply SERVICE_READ_TAG of
             Inl e \<Rightarrow> (Inl e, s)
           | Inr _ \<Rightarrow>
               if cip_is_ok (mr_status reply)
               then (ok_then (map_err EMalformed (decode_tagged (mr_data reply))) (\<lambda>(wire_ty, v).
                     Inr \<lparr>tr_value = v, tr_wire_type = wire_ty, tr_fragmented = False\<rparr>), s)
               else if has_more (mr_status reply) \<or> general (mr_status reply) = ReplyDataTooLarge
               then read_tag_fragmented send cap tag elements s
               else (Inl (ECip (mr_status reply)), s)))"

section \<open>Writing\<close>

definition write_fragment_request :: "epath \<Rightarrow> cip_type \<Rightarrow> u16 \<Rightarrow> u32 \<Rightarrow> bytes \<Rightarrow> message_request" where
  "write_fragment_request path ty count offset chunk =
     message_request_new SERVICE_WRITE_TAG_FRAGMENTED path
       (w_put_slice chunk (w_u32 offset (w_u16 count (w_u16 (cip_type_code ty) []))))"

text \<open>
  The loop \<^verbatim>\<open>while sent < value_bytes.len()\<close>. It is a partial function: nothing in the loop itself
  says that the chunk is not empty, so not returning is the value \<open>None\<close>.
\<close>

partial_function (option) write_fragments ::
    "'s exchange \<Rightarrow> epath \<Rightarrow> cip_type \<Rightarrow> u16 \<Rightarrow> bytes \<Rightarrow> nat \<Rightarrow> u32 \<Rightarrow> nat \<Rightarrow> 's \<Rightarrow>
     ((enip_error + unit) \<times> 's) option" where
  "write_fragments send path ty count value_bytes chunk_bytes offset sent s =
     (if sent < length value_bytes
      then
        let end_pos = min (case checked_add_usize sent chunk_bytes of
                             Some e \<Rightarrow> e | None \<Rightarrow> length value_bytes) (length value_bytes);
            chunk = (case slice_get value_bytes sent end_pos of Some c \<Rightarrow> c | None \<Rightarrow> [])
        in (case send (write_fragment_request path ty count offset chunk) ''write_tag_fragmented'' s of
              (Inl e, s) \<Rightarrow> Some (Inl e, s)
            | (Inr reply, s) \<Rightarrow>
                (case expect_service reply SERVICE_WRITE_TAG_FRAGMENTED of
                   Inl e \<Rightarrow> Some (Inl e, s)
                 | Inr _ \<Rightarrow>
                     if \<not> cip_is_ok (mr_status reply) then Some (Inl (ECip (mr_status reply)), s)
                     else
                       (case Option.bind (u32_try_from (length chunk)) (checked_add_u32 offset) of
                          None \<Rightarrow> Some (Inl (ETooLarge 4294967295), s)
                        | Some offset' \<Rightarrow>
                            write_fragments send path ty count value_bytes chunk_bytes offset' end_pos s)))
      else Some (Inr (), s))"

definition write_tag ::
    "'s exchange \<Rightarrow> nat \<Rightarrow> tag_address \<Rightarrow> cip_type \<Rightarrow> cip_value \<Rightarrow> 's \<Rightarrow> ((enip_error + unit) \<times> 's) option" where
  "write_tag send usable tag ty v s =
     (case element_size ty of
        None \<Rightarrow> Some (Inl (EUnsupported ''write of non-elementary type''), s)
      | Some elem_size \<Rightarrow>
          (case encode_value v [] of
             Inl e \<Rightarrow> Some (Inl (EMalformed e), s)
           | Inr value_bytes \<Rightarrow>
               (case u16_try_from (element_count v) of
                  None \<Rightarrow> Some (Inl (ETooLarge 65535), s)
                | Some count \<Rightarrow>
                    if length value_bytes + 8 \<le> usable
                    then
                      (case send (message_request_new SERVICE_WRITE_TAG (ta_path tag)
                                (w_put_slice value_bytes (w_u16 count (w_u16 (cip_type_code ty) []))))
                              ''write_tag'' s of
                         (Inl e, s) \<Rightarrow> Some (Inl e, s)
                       | (Inr reply, s) \<Rightarrow>
                           (case expect_service reply SERVICE_WRITE_TAG of
                              Inl e \<Rightarrow> Some (Inl e, s)
                            | Inr _ \<Rightarrow>
                                if cip_is_ok (mr_status reply) then Some (Inr (), s)
                                else Some (Inl (ECip (mr_status reply)), s)))
                    else
                      let chunk_elems = max (if elem_size = 0 then 0 else (usable - 12) div elem_size) 1;
                          chunk_bytes = (case checked_mul_usize chunk_elems elem_size of
                                           Some n \<Rightarrow> n | None \<Rightarrow> elem_size)
                      in write_fragments send (ta_path tag) ty count value_bytes chunk_bytes 0 0 s)))"

section \<open>Enumerating\<close>

text \<open>The ordering guard: one pass with the previous instance id.\<close>

primrec ascending_from :: "u32 option \<Rightarrow> symbol_info list \<Rightarrow> bool" where
  "ascending_from prev [] \<longleftrightarrow> True"
| "ascending_from prev (x # xs) \<longleftrightarrow>
     \<not> (case prev of Some p \<Rightarrow> si_instance_id x \<le> p | None \<Rightarrow> False) \<and>
     ascending_from (Some (si_instance_id x)) xs"

definition list_tags ::
    "'s exchange \<Rightarrow> u32 \<Rightarrow> scope \<Rightarrow> 's \<Rightarrow> (enip_error + symbol_info list \<times> u32 option) \<times> 's" where
  "list_tags send start_instance sc s =
     (let base = (case sc of Controller \<Rightarrow> [] | Program name \<Rightarrow> ep_symbol (ascii ''Program:'' @ name) []);
          path = ep_instance start_instance (ep_class CLASS_SYMBOL base)
      in (case send (message_request_new SERVICE_GET_INSTANCE_ATTRIBUTE_LIST path
                      (w_u16 2 (w_u16 1 (w_u16 2 [])))) ''list_tags'' s of
            (Inl e, s) \<Rightarrow> (Inl e, s)
          | (Inr reply, s) \<Rightarrow>
              (ok_then (expect_service reply SERVICE_GET_INSTANCE_ATTRIBUTE_LIST) (\<lambda>_.
                 let more_data = has_more (mr_status reply) in
                 if \<not> cip_is_ok (mr_status reply) \<and> \<not> more_data then Inl (ECip (mr_status reply))
                 else
                   ok_then (map_err EMalformed (parse_tag_list (mr_data reply))) (\<lambda>records.
                   if \<not> ascending_from None records
                   then Inl (EProtocolViolation ''tag list page is not in ascending instance order'')
                   else if more_data
                   then
                     let n = (if records = [] then None
                              else checked_add_u32 (si_instance_id (last records)) 1)
                     in if (case n of Some n \<Rightarrow> n \<le> start_instance | None \<Rightarrow> False)
                        then Inl (EProtocolViolation ''tag list page did not advance'')
                        else Inr (records, n)
                   else Inr (records, None))), s)))"

section \<open>Recording the exchange\<close>

text \<open>
  \<open>recorded send\<close> behaves as \<open>send\<close> and keeps the requests with what came back, so that a statement
  can speak of everything that crossed the wire during an operation.
\<close>

type_synonym 's wire_log = "(message_request \<times> (enip_error + message_reply)) list \<times> 's"

definition recorded :: "'s exchange \<Rightarrow> 's wire_log exchange" where
  "recorded send q op st =
     (case st of (log, s) \<Rightarrow> (case send q op s of (m, s') \<Rightarrow> (m, (log @ [(q, m)], s'))))"

text \<open>The fragments of a transfer, as the replies carried them.\<close>

definition fragment_of :: "enip_error + message_reply \<Rightarrow> bytes" where
  "fragment_of m = (case m of Inl _ \<Rightarrow> [] | Inr reply \<Rightarrow>
     (let data = mr_data reply in
      if cip_type_from_code (from_le_bytes (take 2 data)) = TStruct then drop 4 data else drop 2 data))"

definition code_of :: "enip_error + message_reply \<Rightarrow> u16" where
  "code_of m = (case m of Inl _ \<Rightarrow> 0 | Inr reply \<Rightarrow> from_le_bytes (take 2 (mr_data reply)))"

definition handle_of :: "enip_error + message_reply \<Rightarrow> u16 option" where
  "handle_of m = (case m of Inl _ \<Rightarrow> None | Inr reply \<Rightarrow>
     (if cip_type_from_code (from_le_bytes (take 2 (mr_data reply))) = TStruct
      then Some (from_le_bytes (take 2 (drop 2 (mr_data reply)))) else None))"

lemma fragment_header_Inr:
  assumes "fragment_header wc sh data = Inr (code, handle, bs)" "length data \<le> isize_max"
  shows "code = from_le_bytes (take 2 data)" "wc = None \<or> wc = Some code"
    "bs = (if cip_type_from_code code = TStruct then drop 4 data else drop 2 data)"
    "cip_type_from_code code = TStruct \<Longrightarrow>
       handle = Some (from_le_bytes (take 2 (drop 2 data))) \<and> (sh = None \<or> sh = handle)"
    "cip_type_from_code code \<noteq> TStruct \<Longrightarrow> handle = sh"
  using assms
  by (auto simp: fragment_header_def ok_then_Inr_iff r_int_eq split: if_splits)

text \<open>No buffer of the program exceeds \<^verbatim>\<open>isize::MAX\<close> bytes.\<close>

definition sized :: "'s exchange \<Rightarrow> bool" where
  "sized send \<longleftrightarrow> (\<forall>q op s reply s'. send q op s = (Inr reply, s') \<longrightarrow> length (mr_data reply) \<le> isize_max)"

text \<open>
  What crosses the wire in a successful fragmented read: every request asks for the bytes from
  where the previous fragments ended, every reply declares the one type code and handle, all but
  the last carry data and signal more, and the last is a plain success.
\<close>

definition good_fragment ::
    "epath \<Rightarrow> u16 \<Rightarrow> u16 \<Rightarrow> u16 option \<Rightarrow> nat \<Rightarrow> message_request \<times> (enip_error + message_reply) \<Rightarrow> bool" where
  "good_fragment path elements code handle start e \<longleftrightarrow>
     fst e = read_fragment_request path elements (of_nat start) \<and> start < 2 ^ 32 \<and>
     (\<exists>reply. snd e = Inr reply \<and> expect_service reply SERVICE_READ_TAG_FRAGMENTED = Inr ()) \<and>
     code_of (snd e) = code \<and> handle_of (snd e) = handle"

definition status_of :: "enip_error + message_reply \<Rightarrow> cip_status" where
  "status_of m = (case m of Inr reply \<Rightarrow> mr_status reply | Inl _ \<Rightarrow> cip_status_new (StatusUnknown 0))"

fun transfer_log ::
    "epath \<Rightarrow> u16 \<Rightarrow> u16 \<Rightarrow> u16 option \<Rightarrow> nat \<Rightarrow> (message_request \<times> (enip_error + message_reply)) list \<Rightarrow> bool" where
  "transfer_log path elements code handle start [] \<longleftrightarrow> False"
| "transfer_log path elements code handle start [e] \<longleftrightarrow>
     good_fragment path elements code handle start e \<and> cip_is_ok (status_of (snd e))"
| "transfer_log path elements code handle start (e # e' # es) \<longleftrightarrow>
     good_fragment path elements code handle start e \<and> has_more (status_of (snd e)) \<and>
     fragment_of (snd e) \<noteq> [] \<and>
     transfer_log path elements code handle (start + length (fragment_of (snd e))) (e' # es)"

definition handle_fits :: "u16 option \<Rightarrow> u16 option \<Rightarrow> bool" where
  "handle_fits wc sh \<longleftrightarrow>
     (case wc of None \<Rightarrow> sh = None | Some c \<Rightarrow> sh \<noteq> None \<longleftrightarrow> cip_type_from_code c = TStruct)"

lemma fragment_step_Inr:
  assumes "fragment_step cap offset acc wc sh reply = Inr (md, offset', acc', code, handle)"
    and "length (mr_data reply) \<le> isize_max" "unat offset = length acc" "handle_fits wc sh"
  shows "acc' = acc @ fragment_of (Inr reply)" "length acc' \<le> cap" "unat offset' = length acc'"
    "wc = None \<or> wc = Some code" "sh = None \<or> sh = handle" "handle_fits (Some code) handle"
    "good_fragment path el code handle (length acc)
       (read_fragment_request path el offset, Inr reply)"
    "md \<longleftrightarrow> has_more (mr_status reply)"
    "md \<Longrightarrow> fragment_of (Inr reply) \<noteq> []" "\<not> md \<Longrightarrow> cip_is_ok (mr_status reply)"
proof -
  from assms(1) obtain b adv where
    h: "fragment_header wc sh (mr_data reply) = Inr (code, handle, b)"
    and svc: "expect_service reply SERVICE_READ_TAG_FRAGMENTED = Inr ()"
    and md: "md = has_more (mr_status reply)" "md \<Longrightarrow> b \<noteq> []" "\<not> md \<Longrightarrow> cip_is_ok (mr_status reply)"
    and acc: "acc' = acc @ b" "length acc + length b \<le> cap"
    and adv: "u32_try_from (length b) = Some adv" "checked_add_u32 offset adv = Some offset'"
    by (auto simp: fragment_step_def ok_then_Inr_iff Let_def checked_add_usize_def split: if_splits)
  note fh = fragment_header_Inr [OF h assms(2)]
  have b: "b = fragment_of (Inr reply)" using fh(1,3) by (simp add: fragment_of_def Let_def)
  have off: "offset = of_nat (length acc)" using assms(3) by (rule word_of_natI)
  show "acc' = acc @ fragment_of (Inr reply)" "length acc' \<le> cap"
    "md \<longleftrightarrow> has_more (mr_status reply)" "md \<Longrightarrow> fragment_of (Inr reply) \<noteq> []"
    "\<not> md \<Longrightarrow> cip_is_ok (mr_status reply)" "wc = None \<or> wc = Some code"
    using acc b md fh(2) by auto
  show "unat offset' = length acc'"
    using checked_add_u32_Some [OF adv(2)] u32_try_from_Some [OF adv(1)] assms(3) acc by simp
  have hc: "handle = (if cip_type_from_code code = TStruct
      then Some (from_le_bytes (take 2 (drop 2 (mr_data reply)))) else None) \<and> (sh = None \<or> sh = handle)"
    using fh(2,4,5) assms(4) by (auto simp: handle_fits_def split: option.splits)
  then show "sh = None \<or> sh = handle" "handle_fits (Some code) handle"
    by (auto simp: handle_fits_def)
  have "length acc < 2 ^ 32" using assms(3) unat32_less [of offset] by simp
  then show "good_fragment path el code handle (length acc) (read_fragment_request path el offset, Inr reply)"
    using svc fh(1) hc off by (simp add: good_fragment_def code_of_def handle_of_def)
qed

lemma read_fragments_log:
  assumes "sized send"
  shows "read_fragments (recorded send) cap path el offset acc wc sh (log0, s) = (Inr (code, handle, acc'), (log, s')) \<Longrightarrow>
    unat offset = length acc \<Longrightarrow> handle_fits wc sh \<Longrightarrow>
    \<exists>new. log = log0 @ new \<and> transfer_log path el code handle (length acc) new \<and>
      acc' = acc @ concat (map (fragment_of \<circ> snd) new) \<and> length acc' \<le> cap \<and>
      (wc = None \<or> wc = Some code) \<and> (sh = None \<or> sh = handle)"
proof (induction "cap - length acc" arbitrary: offset acc wc sh log0 s rule: less_induct)
  case less
  let ?q = "read_fragment_request path el offset"
  obtain reply s1 where send: "send ?q ''read_tag_fragmented'' s = (Inr reply, s1)"
    using less.prems(1) by (subst (asm) read_fragments.simps)
      (auto simp: recorded_def split: prod.splits sum.splits)
  then have len: "length (mr_data reply) \<le> isize_max" using assms unfolding sized_def by blast
  have rec: "recorded send ?q ''read_tag_fragmented'' (log0, s) = (Inr reply, (log0 @ [(?q, Inr reply)], s1))"
    using send by (simp add: recorded_def)
  obtain md off1 acc1 c1 h1 where step:
    "fragment_step cap offset acc wc sh reply = Inr (md, off1, acc1, c1, h1)"
    using less.prems(1) rec by (subst (asm) read_fragments.simps) (auto split: sum.splits)
  note st = fragment_step_Inr [OF step len less.prems(2,3)]
  show ?case
  proof (cases md)
    case False
    with less.prems(1) rec step have "code = c1" "handle = h1" "acc' = acc1"
      "log = log0 @ [(?q, Inr reply)]"
      by (auto simp: read_fragments.simps)
    with st False show ?thesis by (auto simp: status_of_def)
  next
    case True
    with less.prems(1) rec step have rest: "read_fragments (recorded send) cap path el off1 acc1 (Some c1) h1
        (log0 @ [(?q, Inr reply)], s1) = (Inr (code, handle, acc'), (log, s'))"
      by (subst (asm) read_fragments.simps) simp
    have "cap - length acc1 < cap - length acc" using fragment_step_grows [of cap offset acc wc sh reply] step True by simp
    from less.hyps [OF this rest st(3,6)] obtain new where new: "log = log0 @ (?q, Inr reply) # new"
      "transfer_log path el code handle (length acc1) new"
      "acc' = acc1 @ concat (map (fragment_of \<circ> snd) new)" "length acc' \<le> cap" "c1 = code" "h1 = None \<or> h1 = handle"
      by auto
    obtain e es where es: "new = e # es" using new(2) by (cases new) auto
    have "handle = h1"
    proof (cases "cip_type_from_code code = TStruct")
      case True then show ?thesis using st(6) new(5,6) by (auto simp: handle_fits_def)
    next
      case False
      have "good_fragment path el code handle (length acc1) e" using new(2) es by (cases es) auto
      then have "handle = None" using False by (auto simp: good_fragment_def handle_of_def code_of_def)
      then show ?thesis using st(6) False new(5) by (auto simp: handle_fits_def)
    qed
    with st True new es show ?thesis by (auto simp: status_of_def)
  qed
qed

lemma read_fragments_bound:
  "snd (read_fragments (recorded send) cap path el offset acc wc sh (log0, s)) = (log, s') \<Longrightarrow>
     length log \<le> length log0 + (cap - length acc) + 1"
proof (induction "cap - length acc" arbitrary: offset acc wc sh log0 s rule: less_induct)
  case less
  let ?q = "read_fragment_request path el offset"
  obtain m s1 where send: "send ?q ''read_tag_fragmented'' s = (m, s1)" by fastforce
  then have rec: "recorded send ?q ''read_tag_fragmented'' (log0, s) = (m, (log0 @ [(?q, m)], s1))"
    by (simp add: recorded_def)
  show ?case
  proof (cases "\<exists>reply off1 acc1 c1 h1. m = Inr reply \<and>
      fragment_step cap offset acc wc sh reply = Inr (True, off1, acc1, c1, h1)")
    case False
    with less.prems rec have "log = log0 @ [(?q, m)]"
      by (subst (asm) read_fragments.simps) (auto split: sum.splits if_splits)
    then show ?thesis by simp
  next
    case True
    then obtain reply off1 acc1 c1 h1 where m: "m = Inr reply"
      and step: "fragment_step cap offset acc wc sh reply = Inr (True, off1, acc1, c1, h1)" by blast
    note grow = fragment_step_grows [OF step]
    have "snd (read_fragments (recorded send) cap path el off1 acc1 (Some c1) h1 (log0 @ [(?q, m)], s1)) = (log, s')"
      using less.prems rec m step by (subst (asm) read_fragments.simps) simp
    from less.hyps [OF grow this] grow show ?thesis by simp
  qed
qed

text \<open>
  A conforming target holding the bytes \<open>val\<close> of a tag of type \<open>code\<close>: asked for the bytes from an
  offset it answers with some of them, at least one while any remain, and signals whether the
  value continues.
\<close>

definition serves_tag :: "'s exchange \<Rightarrow> epath \<Rightarrow> u16 \<Rightarrow> u16 \<Rightarrow> bytes \<Rightarrow> bool" where
  "serves_tag send path el code val \<longleftrightarrow>
     (\<forall>n s op. n \<le> length val \<longrightarrow>
        (\<exists>k s' svc. (n < length val \<longrightarrow> 0 < k) \<and> n + k \<le> length val \<and>
           svc = SERVICE_READ_TAG_FRAGMENTED OR REPLY_MASK \<and>
           send (read_fragment_request path el (of_nat n)) op s =
             (Inr \<lparr>mr_reply_service = svc,
                   mr_status = cip_status_new (if n + k < length val then PartialTransfer else Success),
                   mr_data = le_bytes 2 code @ take k (drop n val)\<rparr>, s')))"

lemma fragment_header_ok:
  assumes "wc = None \<or> wc = Some code" "cip_type_from_code code \<noteq> TStruct" "length bs + 2 \<le> isize_max"
  shows "fragment_header wc sh (le_bytes 2 code @ bs) = Inr (code, sh, bs)"
  using assms by (auto simp: fragment_header_def wire_simps)

lemma read_fragments_honest:
  assumes "serves_tag send path el code val" "cip_type_from_code code \<noteq> TStruct"
    and "length val \<le> cap" "length val < 2 ^ 32"
  shows "acc = take n val \<Longrightarrow> n \<le> length val \<Longrightarrow> wc = None \<or> wc = Some code \<Longrightarrow>
    \<exists>s'. read_fragments send cap path el (of_nat n) acc wc None s = (Inr (code, None, val), s')"
proof (induction "length val - n" arbitrary: n acc wc s rule: less_induct)
  case less
  from assms(1) less.prems(2) obtain k s1 where k: "n < length val \<longrightarrow> 0 < k" "n + k \<le> length val"
    and send: "send (read_fragment_request path el (of_nat n)) ''read_tag_fragmented'' s =
      (Inr \<lparr>mr_reply_service = SERVICE_READ_TAG_FRAGMENTED OR REPLY_MASK,
            mr_status = cip_status_new (if n + k < length val then PartialTransfer else Success),
            mr_data = le_bytes 2 code @ take k (drop n val)\<rparr>, s1)"
    unfolding serves_tag_def by metis
  have un: "unat (of_nat n :: u32) = n" using less.prems(2) assms(4) by (simp add: unat_of_nat_small)
  have "length (take k (drop n val)) = k" using k by simp
  have hdr: "fragment_header wc None (le_bytes 2 code @ take k (drop n val)) = Inr (code, None, take k (drop n val))"
    by (rule fragment_header_ok [OF less.prems(3) assms(2)]) (use k assms(4) in \<open>simp add: isize_max_def\<close>)
  have add: "checked_add_u32 (of_nat n) (of_nat k) = Some (of_nat (n + k))"
    using k assms(4) un by (simp add: checked_add_u32_def unat_of_nat_small)
  have step: "fragment_step cap (of_nat n) acc wc None
      \<lparr>mr_reply_service = SERVICE_READ_TAG_FRAGMENTED OR REPLY_MASK,
       mr_status = cip_status_new (if n + k < length val then PartialTransfer else Success),
       mr_data = le_bytes 2 code @ take k (drop n val)\<rparr> =
    Inr (n + k < length val, of_nat (n + k), take (n + k) val, code, None)"
    using k hdr add less.prems(1,2) assms(3,4)
    by (auto simp: fragment_step_def expect_service_def Let_def cip_status_defs cip_status_new_def
        checked_add_usize_def usize_max_def u32_try_from_def take_add)
  show ?case
  proof (cases "n + k < length val")
    case True
    then have "length val - (n + k) < length val - n" using k by auto
    from less.hyps [OF this refl _ ] True send step k show ?thesis
      by (subst read_fragments.simps) simp
  next
    case False
    with send step k show ?thesis by (subst read_fragments.simps) simp
  qed
qed

section \<open>Writing in fragments\<close>

text \<open>
  What crosses the wire in a successful fragmented write of \<open>rest\<close>: consecutive chunks of \<open>cb\<close>
  bytes with their offsets, each answered by a plain success, until nothing is left.
\<close>

fun write_log ::
    "epath \<Rightarrow> cip_type \<Rightarrow> u16 \<Rightarrow> nat \<Rightarrow> nat \<Rightarrow> bytes \<Rightarrow> (message_request \<times> (enip_error + message_reply)) list \<Rightarrow> bool" where
  "write_log path ty count cb start rest [] \<longleftrightarrow> rest = []"
| "write_log path ty count cb start rest (e # es) \<longleftrightarrow>
     rest \<noteq> [] \<and> start < 2 ^ 32 \<and>
     fst e = write_fragment_request path ty count (of_nat start) (take cb rest) \<and>
     (\<exists>reply. snd e = Inr reply \<and> expect_service reply SERVICE_WRITE_TAG_FRAGMENTED = Inr () \<and>
        cip_is_ok (mr_status reply)) \<and>
     write_log path ty count cb (start + length (take cb rest)) (drop cb rest) es"

lemma write_chunk:
  assumes "length vb \<le> isize_max" "sent < length vb" "0 < cb"
    and "end_pos = min (case checked_add_usize sent cb of Some e \<Rightarrow> e | None \<Rightarrow> length vb) (length vb)"
  shows "(case slice_get vb sent end_pos of Some c \<Rightarrow> c | None \<Rightarrow> []) = take cb (drop sent vb)"
    and "drop end_pos vb = drop cb (drop sent vb)" and "sent < end_pos" "end_pos \<le> length vb"
    and "end_pos = sent + length (take cb (drop sent vb))"
proof -
  have e: "end_pos = min (sent + cb) (length vb)"
    using assms usize_bounds(1) [of "length vb"] by (auto simp: checked_add_usize_def)
  then show "drop end_pos vb = drop cb (drop sent vb)" "sent < end_pos" "end_pos \<le> length vb"
    "end_pos = sent + length (take cb (drop sent vb))"
    using assms(2,3) by (auto simp: min_def add.commute)
  show "(case slice_get vb sent end_pos of Some c \<Rightarrow> c | None \<Rightarrow> []) = take cb (drop sent vb)"
    unfolding e using assms(2) by (auto simp: slice_get_def min_def)
qed

lemma write_fragments_log:
  assumes "length vb \<le> isize_max" "0 < cb"
  shows "sent \<le> length vb \<Longrightarrow> unat offset = sent \<Longrightarrow>
    \<exists>res new s'. write_fragments (recorded send) path ty count vb cb offset sent (log0, s) =
        Some (res, (log0 @ new, s')) \<and>
      (res = Inr () \<longrightarrow> write_log path ty count cb sent (drop sent vb) new)"
proof (induction "length vb - sent" arbitrary: sent offset log0 s rule: less_induct)
  case less
  show ?case
  proof (cases "sent < length vb")
    case False
    then show ?thesis by (subst write_fragments.simps) simp
  next
    case True
    define end_pos where
      "end_pos = min (case checked_add_usize sent cb of Some e \<Rightarrow> e | None \<Rightarrow> length vb) (length vb)"
    note ch = write_chunk [OF assms(1) True assms(2) end_pos_def]
    define chunk where "chunk = take cb (drop sent vb)"
    let ?q = "write_fragment_request path ty count offset chunk"
    obtain m s1 where send: "send ?q ''write_tag_fragmented'' s = (m, s1)" by fastforce
    then have rec: "recorded send ?q ''write_tag_fragmented'' (log0, s) = (m, (log0 @ [(?q, m)], s1))"
      by (simp add: recorded_def)
    have "sent < 4294967296" unfolding less.prems(2) [symmetric] by (rule unat32_less)
    then have off: "offset = of_nat sent" "sent < 2 ^ 32"
      using word_of_natI [OF less.prems(2)] by simp_all
    note unfold = write_fragments.simps [of _ _ _ _ vb cb offset sent, unfolded Let_def,
        folded end_pos_def, unfolded ch(1), folded chunk_def]
    show ?thesis
    proof (cases "\<exists>reply off1. m = Inr reply \<and> expect_service reply SERVICE_WRITE_TAG_FRAGMENTED = Inr () \<and>
        cip_is_ok (mr_status reply) \<and>
        Option.bind (u32_try_from (length chunk)) (checked_add_u32 offset) = Some off1")
      case False
      then show ?thesis
        using True rec by (subst unfold) (auto split: sum.splits option.splits)
    next
      case True': True
      then obtain reply off1 where m: "m = Inr reply" "expect_service reply SERVICE_WRITE_TAG_FRAGMENTED = Inr ()"
        "cip_is_ok (mr_status reply)" "Option.bind (u32_try_from (length chunk)) (checked_add_u32 offset) = Some off1"
        by blast
      have off1: "unat off1 = end_pos"
        using m(4) less.prems(2) ch(5)
        by (auto simp: bind_eq_Some_conv chunk_def dest!: checked_add_u32_Some u32_try_from_Some)
      have "length vb - end_pos < length vb - sent" using ch(3,4) by simp
      from less.hyps [OF this ch(4) off1] obtain res new s' where
        rest: "write_fragments (recorded send) path ty count vb cb off1 end_pos (log0 @ [(?q, m)], s1) =
          Some (res, (log0 @ [(?q, m)]) @ new, s')"
        "res = Inr () \<longrightarrow> write_log path ty count cb end_pos (drop end_pos vb) new" by blast
      have "write_fragments (recorded send) path ty count vb cb offset sent (log0, s) =
          Some (res, (log0 @ (?q, m) # new, s'))"
        using True rec m rest(1) by (subst unfold) simp
      moreover have "write_log path ty count cb sent (drop sent vb) ((?q, m) # new)" if "res = Inr ()"
        using that rest(2) m off ch(2,5) True by (simp add: chunk_def)
      ultimately show ?thesis by blast
    qed
  qed
qed

definition write_chunk_bytes :: "nat \<Rightarrow> nat \<Rightarrow> nat" where
  "write_chunk_bytes usable elem_size = max ((usable - 12) div elem_size) 1 * elem_size"

lemma write_chunk_bytes_facts:
  assumes "element_size ty = Some n"
  shows "0 < write_chunk_bytes usable n" "n dvd write_chunk_bytes usable n"
    "n \<le> usable - 12 \<Longrightarrow> write_chunk_bytes usable n \<le> usable - 12"
    "usable \<le> usize_max \<Longrightarrow> (case checked_mul_usize (max ((usable - 12) div n) 1) n of Some k \<Rightarrow> k | None \<Rightarrow> n) =
       write_chunk_bytes usable n"
proof -
  have n: "0 < n" "n \<le> 8" using element_size_pos [OF assms] by auto
  then show "0 < write_chunk_bytes usable n" "n dvd write_chunk_bytes usable n"
    by (auto simp: write_chunk_bytes_def)
  have m: "(usable - 12) div n * n \<le> usable - 12" by simp
  show "n \<le> usable - 12 \<Longrightarrow> write_chunk_bytes usable n \<le> usable - 12"
    using n m by (auto simp: write_chunk_bytes_def max_def not_le div_eq_0_iff)
  assume u: "usable \<le> usize_max"
  have "(usable - 12) div n * n \<le> usize_max" "n \<le> usize_max"
    using n m u by (linarith, simp add: usize_max_def)
  then have "max ((usable - 12) div n) 1 * n \<le> usize_max"
    by (auto simp: max_def)
  then show "(case checked_mul_usize (max ((usable - 12) div n) 1) n of Some k \<Rightarrow> k | None \<Rightarrow> n) =
      write_chunk_bytes usable n"
    by (simp add: checked_mul_usize_def write_chunk_bytes_def)
qed

lemma ascending_sorted:
  "ascending_from prev xs \<Longrightarrow> sorted_wrt (\<lambda>x y. si_instance_id x < si_instance_id y) xs \<and>
     (\<forall>p. prev = Some p \<longrightarrow> (\<forall>x \<in> set xs. p < si_instance_id x))"
  by (induction xs arbitrary: prev) (fastforce simp: not_le split: option.splits)+

section \<open>Properties\<close>

text \<open>
  C23. A fragmented read against any peer: if it succeeds, then every reply it accepted declared
  one and the same type code (and template handle), each request asked for the bytes right after
  those already received, and the value is built from the concatenation of exactly those bytes,
  at most the configured cap.
\<close>

theorem read_tag_fragmented_sound:
  assumes "sized send"
    and "read_tag_fragmented (recorded send) cap tag el ([], s) = (Inr res, (log, s'))"
  shows "\<exists>code handle. transfer_log (ta_path tag) el code handle 0 log \<and>
    tr_wire_type res = cip_type_from_code code \<and> tr_fragmented res \<and>
    length (concat (map (fragment_of \<circ> snd) log)) \<le> cap \<and>
    build_fragment_value (cip_type_from_code code) handle (concat (map (fragment_of \<circ> snd) log)) =
      Inr (tr_value res)"
proof -
  from assms(2) obtain code handle acc where
    r: "read_fragments (recorded send) cap (ta_path tag) el 0 [] None None ([], s) = (Inr (code, handle, acc), (log, s'))"
    and v: "build_fragment_value (cip_type_from_code code) handle acc = Inr (tr_value res)"
      "tr_wire_type res = cip_type_from_code code" "tr_fragmented res"
    by (auto simp: read_tag_fragmented_def ok_then_Inr_iff split: prod.splits sum.splits)
  from read_fragments_log [OF assms(1) r] have
    "transfer_log (ta_path tag) el code handle 0 log" "acc = concat (map (fragment_of \<circ> snd) log)" "length acc \<le> cap"
    by (auto simp: handle_fits_def)
  with v show ?thesis by blast
qed

definition one_reply :: "message_reply \<Rightarrow> unit exchange" where
  "one_reply reply q op s = (Inr reply, s)"

definition sample_tag :: tag_address where
  "sample_tag = \<lparr>ta_path = [Symbol (ascii ''T'')], ta_display = ascii ''T''\<rparr>"

definition int_reply :: message_reply where
  "int_reply = \<lparr>mr_reply_service = 0xD2, mr_status = cip_status_new Success, mr_data = [0xC3, 0, 0x34, 0x12]\<rparr>"

lemma int_reply_sized: "sized (one_reply int_reply)"
  by (simp add: sized_def one_reply_def int_reply_def)

lemma int_reply_read:
  "read_tag_fragmented (recorded (one_reply int_reply)) 10 sample_tag 1 ([], ()) =
     (Inr \<lparr>tr_value = VInt 0x1234, tr_wire_type = TInt, tr_fragmented = True\<rparr>,
      [(read_fragment_request (ta_path sample_tag) 1 0, Inr int_reply)], ())"
  by (simp add: read_tag_fragmented_def read_fragments.simps recorded_def one_reply_def int_reply_def
      fragment_step_def expect_service_def SERVICE_READ_TAG_FRAGMENTED_def REPLY_MASK_def Let_def
      cip_status_defs cip_status_new_def fragment_header_def wire_simps cip_type_from_code_def
      checked_add_usize_def usize_max_def u32_try_from_def checked_add_u32_def build_fragment_value_def
      cip_value_decode_def as_value_def)

theorem read_tag_fragmented_sound_witness:
  "\<exists>code handle. transfer_log (ta_path sample_tag) 1 code handle 0
       [(read_fragment_request (ta_path sample_tag) 1 0, Inr int_reply)] \<and>
     cip_type_from_code code = TInt"
  using read_tag_fragmented_sound [OF int_reply_sized int_reply_read] by auto

text \<open>
  C25. A fragmented read always ends, whatever the peer answers: it issues at most one request
  more than the cap on the value size.
\<close>

theorem read_tag_fragmented_bounded:
  "length (fst (snd (read_tag_fragmented (recorded send) cap tag el ([], s)))) \<le> cap + 1"
proof -
  obtain m log s' where r: "read_fragments (recorded send) cap (ta_path tag) el 0 [] None None ([], s) = (m, (log, s'))"
    by (metis prod.collapse)
  then have "length log \<le> cap + 1"
    using read_fragments_bound [of send cap "ta_path tag" el 0 "[]" None None "[]" s log s'] by simp
  with r show ?thesis by (auto simp: read_tag_fragmented_def split: sum.splits)
qed

text \<open>
  C24. Against a conforming target the read returns the tag: however the target cuts the value
  into fragments, the bytes are reassembled in full and decoded by the declared type.
\<close>

theorem read_tag_fragmented_complete:
  assumes "serves_tag send (ta_path tag) el code val" "cip_type_from_code code \<noteq> TStruct"
    and "length val \<le> cap" "length val < 2 ^ 32"
    and "build_fragment_value (cip_type_from_code code) None val = Inr v"
  shows "fst (read_tag_fragmented send cap tag el s) =
    Inr \<lparr>tr_value = v, tr_wire_type = cip_type_from_code code, tr_fragmented = True\<rparr>"
proof -
  obtain s' where "read_fragments send cap (ta_path tag) el 0 [] None None s = (Inr (code, None, val), s')"
    using read_fragments_honest [OF assms(1-4), of "[]" 0 None s] by auto
  with assms(5) show ?thesis by (simp add: read_tag_fragmented_def)
qed

text \<open>A conforming target that serves two bytes at a time.\<close>

definition chunk_server :: "u16 \<Rightarrow> bytes \<Rightarrow> unit exchange" where
  "chunk_server code val q op s =
     (let n = unat (from_le_bytes (drop 2 (mq_data q)) :: u32); k = min 2 (length val - n)
      in (Inr \<lparr>mr_reply_service = SERVICE_READ_TAG_FRAGMENTED OR REPLY_MASK,
               mr_status = cip_status_new (if n + k < length val then PartialTransfer else Success),
               mr_data = le_bytes 2 code @ take k (drop n val)\<rparr>, s))"

lemma chunk_server_serves:
  assumes "length val < 2 ^ 32"
  shows "serves_tag (chunk_server code val) path el code val"
  unfolding serves_tag_def
proof (intro allI impI)
  fix n s op assume n: "n \<le> length val"
  have un: "unat (of_nat n :: u32) = n" using n assms by (simp add: unat_of_nat_small)
  show "\<exists>k s' svc. (n < length val \<longrightarrow> 0 < k) \<and> n + k \<le> length val \<and>
      svc = SERVICE_READ_TAG_FRAGMENTED OR REPLY_MASK \<and>
      chunk_server code val (read_fragment_request path el (of_nat n)) op s =
        (Inr \<lparr>mr_reply_service = svc,
              mr_status = cip_status_new (if n + k < length val then PartialTransfer else Success),
              mr_data = le_bytes 2 code @ take k (drop n val)\<rparr>, s')"
    using n un by (intro exI [of _ "min 2 (length val - n)"])
      (simp add: chunk_server_def read_fragment_request_def message_request_new_def writer_defs Let_def)
qed

theorem read_tag_fragmented_complete_witness:
  "fst (read_tag_fragmented (chunk_server 0xC4 [1, 2, 3, 4]) 8 sample_tag 1 ()) =
     Inr \<lparr>tr_value = VDint 0x04030201, tr_wire_type = TDint, tr_fragmented = True\<rparr>"
proof -
  have ty: "cip_type_from_code 0xC4 = TDint" by (simp add: cip_type_from_code_def)
  have "fst (read_tag_fragmented (chunk_server 0xC4 [1, 2, 3, 4]) 8 sample_tag 1 ()) =
     Inr \<lparr>tr_value = VDint 0x04030201, tr_wire_type = cip_type_from_code 0xC4, tr_fragmented = True\<rparr>"
    by (rule read_tag_fragmented_complete [OF chunk_server_serves])
      (simp_all add: ty build_fragment_value_def cip_value_decode_def as_value_def wire_simps)
  then show ?thesis by (simp add: ty)
qed

text \<open>
  C26. Writing ends, and success means written: the write of any value returns, and when it
  returns success either one request carried the whole encoded value or consecutive chunks of
  whole elements covered it from the first byte to the last, every reply being General Status 0.
\<close>

theorem write_tag_sound:
  assumes "element_size ty = Some n" "encode_value v [] = Inr vb" "length vb \<le> isize_max" "usable \<le> usize_max"
  shows "\<exists>res log s'. write_tag (recorded send) usable tag ty v ([], s) = Some (res, (log, s')) \<and>
    (res = Inr () \<longrightarrow>
      (\<exists>count. u16_try_from (element_count v) = Some count \<and>
        (if length vb + 8 \<le> usable
         then \<exists>reply. log = [(message_request_new SERVICE_WRITE_TAG (ta_path tag)
                  (le_bytes 2 (cip_type_code ty) @ le_bytes 2 count @ vb), Inr reply)] \<and>
                cip_is_ok (mr_status reply)
         else write_log (ta_path tag) ty count (write_chunk_bytes usable n) 0 vb log \<and>
              n dvd write_chunk_bytes usable n)))"
proof (cases "u16_try_from (element_count v)")
  case None
  with assms show ?thesis by (simp add: write_tag_def)
next
  case (Some count)
  show ?thesis
  proof (cases "length vb + 8 \<le> usable")
    case True
    let ?q = "message_request_new SERVICE_WRITE_TAG (ta_path tag) (le_bytes 2 (cip_type_code ty) @ le_bytes 2 count @ vb)"
    obtain m s1 where "send ?q ''write_tag'' s = (m, s1)" by fastforce
    with assms(1,2) Some True show ?thesis
      by (simp add: write_tag_def writer_defs recorded_def split: sum.splits)
  next
    case False
    note cb = write_chunk_bytes_facts [OF assms(1)]
    from write_fragments_log [OF assms(3) cb(1), of 0 0 send "ta_path tag" ty count usable "[]" s]
    obtain res new s' where
      "write_fragments (recorded send) (ta_path tag) ty count vb (write_chunk_bytes usable n) 0 0 ([], s) =
         Some (res, (new, s'))"
      "res = Inr () \<longrightarrow> write_log (ta_path tag) ty count (write_chunk_bytes usable n) 0 vb new"
      by auto
    moreover have "n \<noteq> 0" using element_size_pos [OF assms(1)] by simp
    ultimately show ?thesis
      using assms(1,2) Some False cb(2) cb(4) [OF assms(4)] by (simp add: write_tag_def Let_def)
  qed
qed

theorem write_tag_sound_witness:
  "\<exists>res log s'. write_tag (recorded (one_reply \<lparr>mr_reply_service = 0xD3, mr_status = cip_status_new Success,
        mr_data = []\<rparr>)) 14 sample_tag TInt (VArray TInt [VInt 1, VInt 2, VInt 3, VInt 4]) ([], ()) = Some (res, (log, s'))"
proof -
  have enc: "encode_value (VArray TInt [VInt 1, VInt 2, VInt 3, VInt 4]) [] = Inr [1, 0, 2, 0, 3, 0, 4, 0]"
    by (simp add: writer_defs le_bytes_unfold)
  show ?thesis
    using write_tag_sound [OF _ enc, of TInt 2 14 "one_reply \<lparr>mr_reply_service = 0xD3,
        mr_status = cip_status_new Success, mr_data = []\<rparr>" sample_tag "()"]
    by (auto simp: usize_max_def)
qed

text \<open>
  A page of the tag list is safe to resume from: an accepted page is strictly ascending in
  instance id, and the resume point, when there is one, lies just past the last record and past
  the instance the page was asked to start at. Enumeration therefore neither loops nor skips.
\<close>

theorem list_tags_page:
  assumes "list_tags send start sc s = (Inr (records, next_start), s')"
  shows "sorted_wrt (\<lambda>x y. si_instance_id x < si_instance_id y) records \<and>
    (\<forall>n. next_start = Some n \<longrightarrow>
       records \<noteq> [] \<and> start < n \<and> unat n = unat (si_instance_id (last records)) + 1)"
proof -
  from assms have asc: "ascending_from None records"
    and n: "\<forall>n. next_start = Some n \<longrightarrow> records \<noteq> [] \<and> \<not> n \<le> start \<and>
      checked_add_u32 (si_instance_id (last records)) 1 = Some n"
    by (auto simp: list_tags_def Let_def ok_then_Inr_iff split: prod.splits sum.splits if_splits option.splits)
  from ascending_sorted [OF asc] n show ?thesis
    by (auto simp: not_le dest!: checked_add_u32_Some)
qed

theorem list_tags_page_witness:
  "list_tags (one_reply \<lparr>mr_reply_service = 0xD5, mr_status = cip_status_new PartialTransfer,
       mr_data = [5, 0, 0, 0, 1, 0, 0x41, 0xC4, 0]\<rparr>) 3 Controller () =
     (Inr ([\<lparr>si_instance_id = 5, si_name = [0x41], si_symbol_type = 0xC4\<rparr>], Some 6), ()) \<and>
   (3 :: u32) < 6"
proof -
  have *: "list_tags (one_reply \<lparr>mr_reply_service = 0xD5, mr_status = cip_status_new PartialTransfer,
       mr_data = [5, 0, 0, 0, 1, 0, 0x41, 0xC4, 0]\<rparr>) 3 Controller () =
     (Inr ([\<lparr>si_instance_id = 5, si_name = [0x41], si_symbol_type = 0xC4\<rparr>], Some 6), ())"
    by (simp add: list_tags_def one_reply_def Let_def expect_service_def REPLY_MASK_def
        SERVICE_GET_INSTANCE_ATTRIBUTE_LIST_def cip_status_defs cip_status_new_def parse_tag_list_def
        parse_records.simps symbol_info_decode_def wire_simps r_take_eq checked_add_u32_def)
  with list_tags_page [OF *] show ?thesis by blast
qed

end
