(* ===== verification/Step_System.thy ===== *)
theory Step_System
  imports Prelude
begin

text \<open>
  Labelled step systems: the states reachable from the initial ones, and the interface by which a
  stateful component shows an invariant. A component provides the two laws of \<open>invariant_system\<close>
  for its own steps; reachability and traces are dealt with here once.
\<close>

inductive reachable :: "('s \<Rightarrow> bool) \<Rightarrow> ('s \<Rightarrow> 'l \<Rightarrow> 's \<Rightarrow> bool) \<Rightarrow> 's \<Rightarrow> bool"
  for init :: "'s \<Rightarrow> bool" and step :: "'s \<Rightarrow> 'l \<Rightarrow> 's \<Rightarrow> bool" where
  reach_init: "init s \<Longrightarrow> reachable init step s"
| reach_step: "reachable init step s \<Longrightarrow> step s l s' \<Longrightarrow> reachable init step s'"

inductive steps_to :: "('s \<Rightarrow> 'l \<Rightarrow> 's \<Rightarrow> bool) \<Rightarrow> 's \<Rightarrow> 'l list \<Rightarrow> 's \<Rightarrow> bool"
  for step :: "'s \<Rightarrow> 'l \<Rightarrow> 's \<Rightarrow> bool" where
  steps_nil: "steps_to step s [] s"
| steps_cons: "step s l s' \<Longrightarrow> steps_to step s' ls s'' \<Longrightarrow> steps_to step s (l # ls) s''"

inductive_cases steps_nilE: "steps_to step s [] s'"
inductive_cases steps_consE: "steps_to step s (l # ls) s'"

lemma reachable_steps:
  assumes "steps_to step s ls s'" "reachable init step s"
  shows "reachable init step s'"
  using assms by (induction rule: steps_to.induct) (auto intro: reach_step)

locale invariant_system =
  fixes init :: "'s \<Rightarrow> bool"
    and step :: "'s \<Rightarrow> 'l \<Rightarrow> 's \<Rightarrow> bool"
    and inv :: "'s \<Rightarrow> bool"
  assumes inv_init: "init s \<Longrightarrow> inv s"
    and inv_step: "inv s \<Longrightarrow> step s l s' \<Longrightarrow> inv s'"
begin

lemma reachable_inv: "reachable init step s \<Longrightarrow> inv s"
  by (induction rule: reachable.induct) (auto intro: inv_init inv_step)

lemma steps_inv: "steps_to step s ls s' \<Longrightarrow> inv s \<Longrightarrow> inv s'"
  by (induction rule: steps_to.induct) (auto intro: inv_step)

end

end
