(* ===== verification/Session.thy ===== *)
theory Session
  imports Encap_Codec Step_System
begin

text \<open>
  The session actor, \<^verbatim>\<open>crates/enip/src/client/session.rs\<close>. The actor owns one stream and runs one
  transaction at a time. The stream and the clock are inputs: a transaction comes with the outcome
  of its write and with the arrivals on the read side up to its deadline, in order. Running out of
  arrivals means that the deadline elapsed. Whatever is unread when a transaction ends stays for
  the next one, and so does a reply that arrives late.
\<close>

section \<open>State\<close>

record session_stats =
  st_stale_replies :: u64
  st_timeouts :: u64
  st_connected_seq_mismatches :: u64
  st_keepalives_sent :: u64
  st_discarded_options :: u64

text \<open>
  The outcomes of the two stream operations: a write completes, fails, or is cut by the deadline;
  a read gives bytes (none at all being the end of the stream) or fails. The read side of the
  stream is the list of what has arrived and has not been read, \<open>ac_inbox\<close>; \<open>ac_outbox\<close> holds the
  bytes of the completed writes.
\<close>

datatype write_event = Written | WriteError io_error_kind | WriteElapsed

datatype arrival = Chunk bytes | ReadError io_error_kind

datatype read_outcome = Frame encap_frame | Eof | TimedOut | Broken enip_error

record session_actor =
  ac_inbox :: "arrival list"
  ac_outbox :: bytes
  ac_buf :: bytes
  ac_session_handle :: u32
  ac_next_context :: u64
  ac_consecutive_timeouts :: u32
  ac_max_consecutive_timeouts :: u32
  ac_stats :: session_stats

record transaction =
  tx_command :: command
  tx_data :: bytes
  tx_deadline :: instant
  tx_reply_closed :: bool
  tx_now :: instant
  tx_write :: write_event
  tx_arrivals :: "arrival list"

section \<open>Correlation and triage\<close>

record reply_expectation =
  re_command :: command
  re_session_handle :: u32
  re_context :: bytes

datatype reply_match = Match | StaleContext | HeaderMismatch string

definition session_handle_exempt :: "command \<Rightarrow> bool" where
  "session_handle_exempt c \<longleftrightarrow> c = ListIdentity \<or> c = ListServices \<or> c = ListInterfaces"

definition match_reply :: "reply_expectation \<Rightarrow> encap_header \<Rightarrow> reply_match" where
  "match_reply expected header =
     (if eh_sender_context header \<noteq> re_context expected then StaleContext
      else if eh_command header \<noteq> re_command expected then HeaderMismatch ''command''
      else if \<not> session_handle_exempt (re_command expected) \<and>
              eh_session_handle header \<noteq> re_session_handle expected
      then HeaderMismatch ''session handle''
      else Match)"

datatype preflight_verdict = Run | Expired | Abandoned

definition preflight :: "instant \<Rightarrow> bool \<Rightarrow> instant \<Rightarrow> preflight_verdict" where
  "preflight deadline reply_closed now =
     (if reply_closed then Abandoned else if deadline \<le> now then Expired else Run)"

definition FAR_FUTURE :: duration where "FAR_FUTURE = from_secs 31536000"

definition deadline_from :: "instant \<Rightarrow> duration \<Rightarrow> instant" where
  "deadline_from now dur =
     (case instant_checked_add now dur of
        Some i \<Rightarrow> i
      | None \<Rightarrow> (case instant_checked_add now FAR_FUTURE of Some i \<Rightarrow> i | None \<Rightarrow> now))"

section \<open>Reading\<close>

text \<open>\<^verbatim>\<open>read_outcome\<close>: decode from the buffer first, then take the next arrival.\<close>

fun read_frame :: "bytes \<Rightarrow> arrival list \<Rightarrow> read_outcome \<times> bytes \<times> arrival list" where
  "read_frame buf arrivals =
     (case encap_codec_decode buf of
        (Inr (Some frame), buf) \<Rightarrow> (Frame frame, buf, arrivals)
      | (Inl e, buf) \<Rightarrow> (Broken e, buf, arrivals)
      | (Inr None, buf) \<Rightarrow>
          (case arrivals of
             [] \<Rightarrow> (TimedOut, buf, [])
           | ReadError k # arrivals \<Rightarrow> (Broken (EIo k), buf, arrivals)
           | Chunk bs # arrivals \<Rightarrow>
               if bs = []
               then (case encap_codec_decode_eof buf of
                       (Inr (Some frame), buf) \<Rightarrow> (Frame frame, buf, arrivals)
                     | (Inr None, buf) \<Rightarrow> (Eof, buf, arrivals)
                     | (Inl e, buf) \<Rightarrow> (Broken e, buf, arrivals))
               else read_frame (buf @ bs) arrivals))"

declare read_frame.simps [simp del]

definition recv_frame ::
    "string \<Rightarrow> bytes \<Rightarrow> arrival list \<Rightarrow> (enip_error + encap_frame) \<times> bytes \<times> arrival list" where
  "recv_frame op buf arrivals =
     (case read_frame buf arrivals of
        (Frame frame, rest) \<Rightarrow> (Inr frame, rest)
      | (Eof, rest) \<Rightarrow> (Inl (EConnectionLost ''eof during handshake''), rest)
      | (TimedOut, rest) \<Rightarrow> (Inl (ETimeout op), rest)
      | (Broken e, rest) \<Rightarrow> (Inl e, rest))"

text \<open>\<^verbatim>\<open>send_frame\<close> and \<^verbatim>\<open>send_frame_by\<close>: the encoding fails before anything is written.\<close>

definition send_frame :: "encap_frame \<Rightarrow> write_event \<Rightarrow> (enip_error + bytes) option" where
  "send_frame frame ev =
     (case encap_frame_encode frame of
        Inl e \<Rightarrow> Some (Inl (EMalformed e))
      | Inr bs \<Rightarrow>
          (case ev of
             Written \<Rightarrow> Some (Inr bs)
           | WriteError k \<Rightarrow> Some (Inl (EIo k))
           | WriteElapsed \<Rightarrow> None))"

definition send_frame_by :: "encap_frame \<Rightarrow> write_event \<Rightarrow> enip_error + bytes" where
  "send_frame_by frame ev =
     (case send_frame frame ev of
        Some res \<Rightarrow> res
      | None \<Rightarrow> Inl (EConnectionLost ''send deadline elapsed mid-frame''))"

section \<open>The actor\<close>

definition next_context :: "session_actor \<Rightarrow> bytes \<times> session_actor" where
  "next_context a =
     (let n = ac_next_context a + 1 in (le_bytes 8 n, a\<lparr>ac_next_context := n\<rparr>))"

definition count_timeout :: "session_actor \<Rightarrow> session_actor" where
  "count_timeout a = a\<lparr>ac_stats := (ac_stats a)\<lparr>st_timeouts := st_timeouts (ac_stats a) + 1\<rparr>\<rparr>"

definition count_stale :: "session_actor \<Rightarrow> session_actor" where
  "count_stale a = a\<lparr>ac_stats := (ac_stats a)\<lparr>st_stale_replies := st_stale_replies (ac_stats a) + 1\<rparr>\<rparr>"

definition count_options :: "session_actor \<Rightarrow> session_actor" where
  "count_options a =
     a\<lparr>ac_stats := (ac_stats a)\<lparr>st_discarded_options := st_discarded_options (ac_stats a) + 1\<rparr>\<rparr>"

text \<open>
  The result of a transaction: whether the actor lives on, and what the caller receives (nothing
  when it no longer listens).
\<close>

type_synonym transact_result = "bool \<times> (enip_error + encap_frame) option"

definition pending :: "bytes \<Rightarrow> arrival list \<Rightarrow> nat" where
  "pending buf arrivals =
     length buf + sum_list (map (\<lambda>e. case e of Chunk bs \<Rightarrow> length bs | ReadError _ \<Rightarrow> 0) arrivals)"

lemma codec_decode_eof_shrinks:
  "encap_codec_decode_eof src = (Inr (Some f), rest) \<Longrightarrow> length rest < length src"
  by (auto simp: encap_codec_decode_eof_def dest: codec_decode_shrinks
      split: prod.splits sum.splits option.splits if_splits)

lemma codec_decode_none_shrinks:
  "encap_codec_decode src = (Inr None, rest) \<Longrightarrow> length rest \<le> length src"
proof (induction "length src" arbitrary: src rule: less_induct)
  case less
  from less.prems show ?case
    by (subst (asm) codec_decode_step) (auto split: if_splits dest!: less.hyps [rotated])
qed

lemma read_frame_shrinks:
  "read_frame buf arrivals = (Frame f, buf', arrivals') \<Longrightarrow> pending buf' arrivals' < pending buf arrivals"
proof (induction buf arrivals rule: read_frame.induct)
  case (1 buf arrivals)
  obtain m b1 where d: "encap_codec_decode buf = (m, b1)" by fastforce
  note eq = "1.prems" [unfolded read_frame.simps [of buf arrivals] d]
  consider (frame) "m = Inr (Some f)" "buf' = b1" "arrivals' = arrivals"
    | (eof) rest where "m = Inr None" "arrivals = Chunk [] # rest" "arrivals' = rest"
        "encap_codec_decode_eof b1 = (Inr (Some f), buf')"
    | (chunk) bs rest where "m = Inr None" "arrivals = Chunk bs # rest" "bs \<noteq> []"
        "read_frame (b1 @ bs) rest = (Frame f, buf', arrivals')"
    using eq by (auto split: sum.splits option.splits list.splits arrival.splits if_splits prod.splits)
  then show ?case
  proof cases
    case frame
    then show ?thesis using codec_decode_shrinks [of buf f b1] d by (simp add: pending_def)
  next
    case eof
    then show ?thesis
      using codec_decode_eof_shrinks [of b1 f buf'] codec_decode_none_shrinks [of buf b1] d
      by (simp add: pending_def)
  next
    case chunk
    from "1.IH" [OF d [symmetric] chunk(1) refl chunk(2) refl chunk(3,4)]
    show ?thesis using chunk codec_decode_none_shrinks [of buf b1] d by (simp add: pending_def)
  qed
qed

function await_reply ::
    "reply_expectation \<Rightarrow> session_actor \<Rightarrow> transact_result \<times> session_actor" where
  "await_reply expected a =
     (case read_frame (ac_buf a) (ac_inbox a) of
        (out, buf, inbox) \<Rightarrow>
          (let a = a\<lparr>ac_buf := buf, ac_inbox := inbox\<rparr> in
           case out of
             Frame reply \<Rightarrow>
               if eh_options (ef_header reply) \<noteq> 0 then await_reply expected (count_options a)
               else (case match_reply expected (ef_header reply) of
                       Match \<Rightarrow>
                         (let a = a\<lparr>ac_consecutive_timeouts := 0\<rparr> in
                          if poisons_session (eh_status (ef_header reply))
                          then ((False, Some (Inl (EEncap (eh_status (ef_header reply))))), a)
                          else ((True, Some (Inr reply)), a))
                     | StaleContext \<Rightarrow> await_reply expected (count_stale a)
                     | HeaderMismatch _ \<Rightarrow> await_reply expected (count_stale a))
           | Eof \<Rightarrow> ((False, Some (Inl (EConnectionLost ''session eof''))), a)
           | Broken e \<Rightarrow> ((False, Some (Inl e)), a)
           | TimedOut \<Rightarrow>
               (let a = count_timeout a;
                    a = a\<lparr>ac_consecutive_timeouts := saturating_add_u32 (ac_consecutive_timeouts a) 1\<rparr>
                in if ac_consecutive_timeouts a \<ge> ac_max_consecutive_timeouts a
                   then ((False, Some (Inl (EConnectionLost ''consecutive request timeouts''))), a)
                   else ((True, Some (Inl (ETimeout ''request''))), a))))"
  by pat_completeness auto
termination
  by (relation "measure (\<lambda>(_, a). pending (ac_buf a) (ac_inbox a))")
    (auto dest: read_frame_shrinks [OF sym] simp: count_options_def count_stale_def)

declare await_reply.simps [simp del]

definition transact :: "transaction \<Rightarrow> session_actor \<Rightarrow> transact_result \<times> session_actor" where
  "transact t a =
     (let a = a\<lparr>ac_inbox := ac_inbox a @ tx_arrivals t\<rparr> in
      case preflight (tx_deadline t) (tx_reply_closed t) (tx_now t) of
        Abandoned \<Rightarrow> ((True, None), a)
      | Expired \<Rightarrow> ((True, Some (Inl (ETimeout ''request''))), count_timeout a)
      | Run \<Rightarrow>
          (case next_context a of
             (ctx, a) \<Rightarrow>
               (let header = encap_header_request (tx_command t) 0 (ac_session_handle a) ctx;
                    frame = encap_frame_new header (tx_data t)
                in case send_frame frame (tx_write t) of
                     Some (Inl e) \<Rightarrow> ((False, Some (Inl e)), a)
                   | None \<Rightarrow>
                       ((False, Some (Inl (EConnectionLost ''send deadline elapsed mid-frame''))),
                        count_timeout a)
                   | Some (Inr bs) \<Rightarrow>
                       await_reply \<lparr>re_command = tx_command t, re_session_handle = ac_session_handle a,
                         re_context = ctx\<rparr> (a\<lparr>ac_outbox := ac_outbox a @ bs\<rparr>))))"

definition UNREGISTER_WRITE_DEADLINE :: duration where
  "UNREGISTER_WRITE_DEADLINE = from_millis 500"

text \<open>
  The courtesy frame at the end of a session; the outcome of its write, which the deadline above
  bounds, is ignored.
\<close>

definition send_unregister :: "write_event \<Rightarrow> session_actor \<Rightarrow> session_actor" where
  "send_unregister ev a =
     (let header = encap_header_request UnRegisterSession 0 (ac_session_handle a) (replicate 8 0);
          frame = encap_frame_new header []
      in case send_frame frame ev of
           Some (Inr bs) \<Rightarrow> a\<lparr>ac_outbox := ac_outbox a @ bs\<rparr>
         | _ \<Rightarrow> a)"

datatype session_command = Transact transaction | Unregister write_event

text \<open>
  The loop of the actor: the results delivered, in order, whether the actor still lives, and its
  state. Commands after its end are dropped with the channel.
\<close>

fun session_run ::
    "session_command list \<Rightarrow> session_actor \<Rightarrow> (enip_error + encap_frame) option list \<times> bool \<times> session_actor" where
  "session_run [] a = ([], True, a)"
| "session_run (Unregister ev # cmds) a = ([], False, send_unregister ev a)"
| "session_run (Transact t # cmds) a =
     (case transact t a of
        ((False, r), a) \<Rightarrow> ([r], False, a)
      | ((True, r), a) \<Rightarrow> (case session_run cmds a of (rs, a') \<Rightarrow> (r # rs, a')))"

definition spawn_session :: "bytes \<Rightarrow> u32 \<Rightarrow> u32 \<Rightarrow> session_stats \<Rightarrow> session_actor" where
  "spawn_session leftover session_handle max_consecutive stats =
     \<lparr>ac_inbox = [], ac_outbox = [], ac_buf = leftover, ac_session_handle = session_handle,
      ac_next_context = 0, ac_consecutive_timeouts = 0,
      ac_max_consecutive_timeouts = max max_consecutive 1, ac_stats = stats\<rparr>"

section \<open>What is delivered\<close>

lemma await_reply_delivers:
  "await_reply ex a = ((alive, Some (Inr f)), a') \<Longrightarrow>
     alive \<and> match_reply ex (ef_header f) = Match \<and> eh_options (ef_header f) = 0 \<and>
     \<not> poisons_session (eh_status (ef_header f)) \<and> ac_consecutive_timeouts a' = 0"
proof (induction ex a rule: await_reply.induct)
  case (1 ex a)
  obtain out buf inbox where r: "read_frame (ac_buf a) (ac_inbox a) = (out, buf, inbox)"
    by (metis prod_cases3)
  show ?case
    using "1.prems" "1.IH" [OF r [symmetric] refl refl]
    by (subst (asm) await_reply.simps)
      (auto simp: r Let_def split: read_outcome.splits reply_match.splits if_splits)
qed

lemma await_reply_keeps:
  "await_reply ex a = (res, a') \<Longrightarrow>
     ac_next_context a' = ac_next_context a \<and> ac_session_handle a' = ac_session_handle a \<and>
     ac_max_consecutive_timeouts a' = ac_max_consecutive_timeouts a"
proof (induction ex a rule: await_reply.induct)
  case (1 ex a)
  obtain out buf inbox where r: "read_frame (ac_buf a) (ac_inbox a) = (out, buf, inbox)"
    by (metis prod_cases3)
  show ?case
    using "1.prems" "1.IH" [OF r [symmetric] refl refl]
    by (subst (asm) await_reply.simps)
      (auto simp: r Let_def count_options_def count_stale_def count_timeout_def
        split: read_outcome.splits reply_match.splits if_splits)
qed

lemma await_reply_timeouts:
  "await_reply ex a = ((True, res), a') \<Longrightarrow>
     ac_consecutive_timeouts a < ac_max_consecutive_timeouts a \<Longrightarrow>
     ac_consecutive_timeouts a' < ac_max_consecutive_timeouts a'"
proof (induction ex a rule: await_reply.induct)
  case (1 ex a)
  obtain out buf inbox where r: "read_frame (ac_buf a) (ac_inbox a) = (out, buf, inbox)"
    by (metis prod_cases3)
  have pos: "0 < ac_max_consecutive_timeouts a" using "1.prems"(2) by (metis le_less_trans word_zero_le)
  show ?case
    using "1.prems" pos "1.IH" [OF r [symmetric] refl refl]
    by (subst (asm) await_reply.simps)
      (auto simp: r Let_def count_options_def count_stale_def count_timeout_def not_le
        split: read_outcome.splits reply_match.splits if_splits)
qed

section \<open>The reading loop against the stream of frames\<close>

text \<open>
  The reference: walk the frames the stream holds, in order, discarding and counting those that
  are not the reply, until the reply, the failure of the stream, or the deadline.
\<close>

primrec await_frames ::
    "reply_expectation \<Rightarrow> encap_frame list \<Rightarrow> enip_error option \<Rightarrow> session_actor \<Rightarrow> transact_result \<times> session_actor" where
  "await_frames ex [] e a =
     (case e of
        Some err \<Rightarrow> ((False, Some (Inl err)), a)
      | None \<Rightarrow>
          (let a = (count_timeout a)\<lparr>ac_consecutive_timeouts :=
                     saturating_add_u32 (ac_consecutive_timeouts a) 1\<rparr>
           in if ac_max_consecutive_timeouts a \<le> ac_consecutive_timeouts a
              then ((False, Some (Inl (EConnectionLost ''consecutive request timeouts''))), a)
              else ((True, Some (Inl (ETimeout ''request''))), a)))"
| "await_frames ex (f # fs) e a =
     (if eh_options (ef_header f) \<noteq> 0 then await_frames ex fs e (count_options a)
      else if match_reply ex (ef_header f) \<noteq> Match then await_frames ex fs e (count_stale a)
      else if poisons_session (eh_status (ef_header f))
      then ((False, Some (Inl (EEncap (eh_status (ef_header f))))), a\<lparr>ac_consecutive_timeouts := 0\<rparr>)
      else ((True, Some (Inr f)), a\<lparr>ac_consecutive_timeouts := 0\<rparr>))"

text \<open>The actor without the unread part of its stream.\<close>

definition core :: "session_actor \<Rightarrow> session_actor" where
  "core a = a\<lparr>ac_buf := [], ac_inbox := []\<rparr>"

lemma core_simps [simp]:
  "core (a\<lparr>ac_buf := b, ac_inbox := i\<rparr>) = core a"
  "core (count_options a) = count_options (core a)"
  "core (count_stale a) = count_stale (core a)"
  "core (count_timeout a) = count_timeout (core a)"
  "core (a\<lparr>ac_consecutive_timeouts := n\<rparr>) = (core a)\<lparr>ac_consecutive_timeouts := n\<rparr>"
  "ac_consecutive_timeouts (core a) = ac_consecutive_timeouts a"
  "ac_max_consecutive_timeouts (core a) = ac_max_consecutive_timeouts a"
  by (simp_all add: core_def count_options_def count_stale_def count_timeout_def)

lemma read_frame_drain:
  assumes "[] \<notin> set cs"
  shows "case read_frame buf (map Chunk cs) of
      (Frame f, buf', inbox') \<Rightarrow> \<exists>cs'. inbox' = map Chunk cs' \<and> [] \<notin> set cs' \<and>
        codec_drain (buf @ concat cs) = (case codec_drain (buf' @ concat cs') of (fs, e, r) \<Rightarrow> (f # fs, e, r))
    | (TimedOut, _) \<Rightarrow> \<exists>r. codec_drain (buf @ concat cs) = ([], None, r)
    | (Broken e, _) \<Rightarrow> \<exists>r. codec_drain (buf @ concat cs) = ([], Some e, r)
    | (Eof, _) \<Rightarrow> False"
  using assms
proof (induction cs arbitrary: buf)
  case Nil
  then show ?case
    by (subst read_frame.simps) (auto simp: codec_drain.simps [of buf] split: prod.splits sum.splits option.splits)
next
  case (Cons c cs)
  obtain m b1 where d: "encap_codec_decode buf = (m, b1)" by fastforce
  note app = codec_decode_append [of buf "c @ concat cs", unfolded d]
  show ?case
  proof (cases m)
    case (Inl e)
    with d app show ?thesis by (subst read_frame.simps) (simp add: codec_drain.simps [of "buf @ c @ concat cs"])
  next
    case (Inr o')
    show ?thesis
    proof (cases o')
      case (Some f)
      then show ?thesis
        using d app Inr Cons.prems
        by (subst read_frame.simps)
          (auto simp: codec_drain.simps [of "buf @ c @ concat cs"] split: prod.splits intro!: exI [of _ "c # cs"])
    next
      case None
      have eq1: "read_frame buf (map Chunk (c # cs)) = read_frame (b1 @ c) (map Chunk cs)"
        using d Inr None Cons.prems by (subst read_frame.simps) auto
      have eq2: "codec_drain (buf @ concat (c # cs)) = codec_drain ((b1 @ c) @ concat cs)"
        using app Inr None by (simp add: codec_drain.simps [of "buf @ c @ concat cs"]
            codec_drain.simps [of "b1 @ c @ concat cs"])
      show ?thesis unfolding eq1 eq2 by (rule Cons.IH) (use Cons.prems in auto)
    qed
  qed
qed

lemma await_reply_spec:
  "ac_inbox a = map Chunk cs \<Longrightarrow> [] \<notin> set cs \<Longrightarrow> codec_drain (ac_buf a @ concat cs) = (fs, e, r) \<Longrightarrow>
     map_prod id core (await_reply ex a) = await_frames ex fs e (core a)"
proof (induction "pending (ac_buf a) (ac_inbox a)" arbitrary: a cs fs rule: less_induct)
  case less
  obtain out buf inbox where r: "read_frame (ac_buf a) (ac_inbox a) = (out, buf, inbox)"
    by (metis prod_cases3)
  note drain = read_frame_drain [OF less.prems(2), of "ac_buf a", folded less.prems(1), unfolded r]
  show ?case
  proof (cases out)
    case (Frame f)
    with drain obtain cs' where c: "inbox = map Chunk cs'" "[] \<notin> set cs'"
      "codec_drain (ac_buf a @ concat cs) = (case codec_drain (buf @ concat cs') of (fs, e, r) \<Rightarrow> (f # fs, e, r))"
      by auto
    then obtain fs' where cs': "inbox = map Chunk cs'" "[] \<notin> set cs'"
      "codec_drain (buf @ concat cs') = (fs', e, r)" and fs: "fs = f # fs'"
      using less.prems(3) by (cases "codec_drain (buf @ concat cs')") auto
    have small: "pending buf inbox < pending (ac_buf a) (ac_inbox a)"
      using read_frame_shrinks r Frame by blast
    let ?a = "a\<lparr>ac_buf := buf, ac_inbox := inbox\<rparr>"
    have rec: "map_prod id core (await_reply ex (g ?a)) = await_frames ex fs' e (g (core a))"
      if "g = count_options \<or> g = count_stale" for g
    proof -
      have g: "ac_buf (g ?a) = buf" "ac_inbox (g ?a) = inbox" "core (g ?a) = g (core a)"
        using that by (auto simp: count_options_def count_stale_def core_def)
      show ?thesis using less.hyps [of "g ?a" cs' fs'] small cs' g by simp
    qed
    show ?thesis
      unfolding fs
      by (subst await_reply.simps)
        (auto simp: r Frame Let_def rec split: reply_match.splits)
  next
    case Eof
    with drain show ?thesis by simp
  next
    case TimedOut
    with drain less.prems(3) have "fs = []" "e = None" by auto
    then show ?thesis
      by (subst await_reply.simps) (simp add: r TimedOut Let_def count_timeout_def core_def)
  next
    case (Broken err)
    with drain less.prems(3) have "fs = []" "e = Some err" by auto
    then show ?thesis
      by (subst await_reply.simps) (simp add: r Broken Let_def)
  qed
qed

section \<open>Runs of the actor\<close>

definition issues :: "session_command \<Rightarrow> bool" where
  "issues c = (case c of
     Transact t \<Rightarrow> preflight (tx_deadline t) (tx_reply_closed t) (tx_now t) = Run | Unregister _ \<Rightarrow> False)"

text \<open>How many requests the actor puts on the wire for a list of commands: the contexts are numbered by it.\<close>

definition issued :: "session_command list \<Rightarrow> nat" where
  "issued cmds = length (filter issues cmds)"

definition context_of :: "session_command list \<Rightarrow> nat \<Rightarrow> bytes" where
  "context_of cmds i = le_bytes 8 (of_nat (issued (take (Suc i) cmds)) :: u64)"

definition answers :: "u32 \<Rightarrow> transaction \<Rightarrow> bytes \<Rightarrow> encap_frame \<Rightarrow> bool" where
  "answers handle t ctx f \<longleftrightarrow>
     eh_sender_context (ef_header f) = ctx \<and> eh_command (ef_header f) = tx_command t \<and>
     (session_handle_exempt (tx_command t) \<or> eh_session_handle (ef_header f) = handle) \<and>
     eh_options (ef_header f) = 0 \<and> \<not> poisons_session (eh_status (ef_header f))"

lemma match_reply_iff:
  "match_reply ex h = Match \<longleftrightarrow>
     eh_sender_context h = re_context ex \<and> eh_command h = re_command ex \<and>
     (session_handle_exempt (re_command ex) \<or> eh_session_handle h = re_session_handle ex)"
  by (auto simp: match_reply_def)

lemma transact_delivers:
  assumes "transact t a = ((alive, Some (Inr f)), a')"
  shows "alive \<and> issues (Transact t) \<and> answers (ac_session_handle a) t (le_bytes 8 (ac_next_context a + 1)) f"
  using assms
  by (auto simp: transact_def Let_def next_context_def issues_def answers_def match_reply_iff
      split: preflight_verdict.splits option.splits sum.splits dest!: await_reply_delivers)

lemma transact_keeps:
  assumes "transact t a = (res, a')"
  shows "ac_next_context a' = ac_next_context a + of_bool (issues (Transact t)) \<and>
    ac_session_handle a' = ac_session_handle a \<and>
    ac_max_consecutive_timeouts a' = ac_max_consecutive_timeouts a"
  using assms
  by (auto simp: transact_def Let_def next_context_def issues_def count_timeout_def
      split: preflight_verdict.splits option.splits sum.splits dest!: await_reply_keeps)

lemma session_run_delivers:
  "session_run cmds a = (rs, a') \<Longrightarrow> i < length rs \<Longrightarrow> rs ! i = Some (Inr f) \<Longrightarrow>
     i < length cmds \<and> (\<exists>t. cmds ! i = Transact t \<and> issues (Transact t) \<and>
       answers (ac_session_handle a) t (le_bytes 8 (ac_next_context a + of_nat (issued (take (Suc i) cmds)))) f)"
proof (induction cmds arbitrary: a a' rs i)
  case (Cons c cmds)
  obtain t where c: "c = Transact t" using Cons.prems by (cases c) auto
  obtain alive r a1 where t: "transact t a = ((alive, r), a1)" by (metis prod.collapse)
  show ?case
  proof (cases i)
    case 0
    with Cons.prems t c have "r = Some (Inr f)" by (auto split: bool.splits prod.splits)
    from transact_delivers [OF t [unfolded this]] 0 c show ?thesis by (simp add: issued_def)
  next
    case (Suc k)
    have alive: alive using Cons.prems t c Suc by (cases alive) (auto split: prod.splits)
    obtain rs' a2 where run: "session_run cmds a1 = (rs', a2)" by (metis prod.collapse)
    have rs: "rs = r # rs'" using Cons.prems(1) t c alive run by simp
    note keep = transact_keeps [OF t]
    have ih: "k < length cmds \<and> (\<exists>t. cmds ! k = Transact t \<and> issues (Transact t) \<and>
       answers (ac_session_handle a1) t (le_bytes 8 (ac_next_context a1 + of_nat (issued (take (Suc k) cmds)))) f)"
      using Cons.prems rs Suc by (intro Cons.IH [OF run]) auto
    have eq: "ac_next_context a1 + of_nat (issued (take (Suc k) cmds)) =
        ac_next_context a + of_nat (issued (take (Suc i) (c # cmds)))"
      using keep Suc c by (simp add: issued_def)
    have "Suc k < length (c # cmds) \<and> (c # cmds) ! i = cmds ! k" if "k < length cmds"
      using that Suc by simp
    with ih [unfolded eq] keep Suc show ?thesis by metis
  qed
qed auto

lemma issued_take_less:
  assumes "i < j" "j < length cmds" "issues (cmds ! j)"
  shows "issued (take (Suc i) cmds) < issued (take (Suc j) cmds)"
proof -
  have "take (Suc j) cmds = take (Suc i) cmds @ drop (Suc i) (take (Suc j) cmds)"
    using assms(1,2) by (metis append_take_drop_id min_def take_take less_or_eq_imp_le Suc_le_mono)
  moreover have "cmds ! j \<in> set (drop (Suc i) (take (Suc j) cmds))"
    using assms(1,2) by (auto simp: in_set_conv_nth intro!: exI [of _ "j - Suc i"])
  ultimately show ?thesis
    using assms(3) by (metis (no_types, lifting) filter_append filter_empty_conv issued_def length_append
        length_greater_0_conv less_add_same_cancel1)
qed

lemma context_of_inject:
  assumes "length cmds < 2 ^ 64" "i < length cmds" "j < length cmds" "i \<noteq> j"
    and "issues (cmds ! i)" "issues (cmds ! j)"
  shows "context_of cmds i \<noteq> context_of cmds j"
proof -
  have small: "issued (take (Suc k) cmds) < 2 ^ 64" for k
    using assms(1) by (metis issued_def length_filter_le length_take le_less_trans min.cobounded1)
  have "issued (take (Suc i) cmds) \<noteq> issued (take (Suc j) cmds)"
    using issued_take_less [of i j cmds] issued_take_less [of j i cmds] assms by (metis nat_neq_iff)
  then have "(of_nat (issued (take (Suc i) cmds)) :: u64) \<noteq> of_nat (issued (take (Suc j) cmds))"
    using unat_of_nat_small [of "issued (take (Suc i) cmds)", where ?'a = 64] small [of i]
      unat_of_nat_small [of "issued (take (Suc j) cmds)", where ?'a = 64] small [of j] by auto
  then show ?thesis by (simp add: context_of_def)
qed

section \<open>The timeout counter\<close>

text \<open>The steps of a living actor.\<close>

definition session_init :: "session_actor \<Rightarrow> bool" where
  "session_init a \<longleftrightarrow> (\<exists>buf h m st. a = spawn_session buf h m st)"

inductive session_step :: "session_actor \<Rightarrow> transaction \<Rightarrow> session_actor \<Rightarrow> bool" where
  "transact t a = ((True, r), a') \<Longrightarrow> session_step a t a'"

inductive_simps session_step_iff: "session_step a t a'"

definition session_inv :: "session_actor \<Rightarrow> bool" where
  "session_inv a \<longleftrightarrow> ac_consecutive_timeouts a < ac_max_consecutive_timeouts a"

lemma transact_timeouts:
  assumes "transact t a = ((True, r), a')" "session_inv a"
  shows "session_inv a'"
  using assms
  by (auto simp: transact_def Let_def next_context_def count_timeout_def session_inv_def
      split: preflight_verdict.splits option.splits sum.splits dest!: await_reply_timeouts)

interpretation session: invariant_system session_init session_step session_inv
proof
  show "session_inv a" if "session_init a" for a
    using that by (auto simp: session_init_def spawn_session_def session_inv_def max_def)
      (metis word_gt_0 le_less_trans less_le word_zero_le)
  show "session_inv a'" if "session_inv a" "session_step a t a'" for a t a'
    using that transact_timeouts by (auto simp: session_step_iff)
qed

text \<open>A request to a peer that says nothing.\<close>

definition silent :: "transaction \<Rightarrow> bool" where
  "silent t \<longleftrightarrow>
     \<not> tx_reply_closed t \<and> tx_now t < tx_deadline t \<and> tx_write t = Written \<and> tx_arrivals t = [] \<and>
     length (tx_data t) \<le> MAX_DATA_LEN"

lemma await_reply_silent:
  assumes "ac_buf a = []" "ac_inbox a = []"
  shows "await_reply ex a = await_frames ex [] None a"
proof -
  have "encap_codec_decode [] = (Inr None, [])" by (simp add: codec_decode_step [of "[]"])
  then have "read_frame [] [] = (TimedOut, [], [])" by (subst read_frame.simps) simp
  then show ?thesis using assms
    by (subst await_reply.simps) (simp add: Let_def count_timeout_def)
qed

lemma send_silent:
  "silent t \<Longrightarrow> \<exists>bs. send_frame (encap_frame_new h (tx_data t)) (tx_write t) = Some (Inr bs)"
  by (auto simp: send_frame_def silent_def encap_frame_encode_def encap_frame_new_def Let_def)

lemma transact_silent:
  assumes "silent t" "ac_buf a = []" "ac_inbox a = []"
  shows "\<exists>a'. transact t a =
     (if ac_max_consecutive_timeouts a \<le> saturating_add_u32 (ac_consecutive_timeouts a) 1
      then (False, Some (Inl (EConnectionLost ''consecutive request timeouts'')))
      else (True, Some (Inl (ETimeout ''request''))), a') \<and>
     ac_buf a' = [] \<and> ac_inbox a' = [] \<and> ac_max_consecutive_timeouts a' = ac_max_consecutive_timeouts a \<and>
     ac_consecutive_timeouts a' = saturating_add_u32 (ac_consecutive_timeouts a) 1"
proof -
  let ?h = "encap_header_request (tx_command t) 0 (ac_session_handle a) (le_bytes 8 (ac_next_context a + 1))"
  obtain bs where "send_frame (encap_frame_new ?h (tx_data t)) (tx_write t) = Some (Inr bs)"
    using send_silent [OF assms(1)] by blast
  moreover have "preflight (tx_deadline t) (tx_reply_closed t) (tx_now t) = Run"
    using assms(1) by (simp add: preflight_def silent_def)
  ultimately show ?thesis
    using assms
    by (auto simp: transact_def Let_def next_context_def silent_def await_reply_silent count_timeout_def)
qed

definition silent_results :: "nat \<Rightarrow> (enip_error + encap_frame) option list" where
  "silent_results n =
     replicate (n - 1) (Some (Inl (ETimeout ''request''))) @
     [Some (Inl (EConnectionLost ''consecutive request timeouts''))]"

lemma silent_results_Suc:
  "silent_results (Suc n) =
     (if n = 0 then [Some (Inl (EConnectionLost ''consecutive request timeouts''))]
      else Some (Inl (ETimeout ''request'')) # silent_results n)"
  by (cases n) (simp_all add: silent_results_def)

lemma session_run_silent:
  "\<forall>t \<in> set ts. silent t \<Longrightarrow> ts \<noteq> [] \<Longrightarrow> ac_buf a = [] \<Longrightarrow> ac_inbox a = [] \<Longrightarrow>
   unat (ac_consecutive_timeouts a) + length ts = unat (ac_max_consecutive_timeouts a) \<Longrightarrow>
     \<exists>a'. session_run (map Transact ts) a = (silent_results (length ts), False, a')"
proof (induction ts arbitrary: a)
  case (Cons t ts)
  have "unat (ac_consecutive_timeouts a) + 1 < 2 ^ 32 "
    using Cons.prems(5) unat32_less [of "ac_max_consecutive_timeouts a"] by (simp del: unat32_less)
  then have sat: "unat (saturating_add_u32 (ac_consecutive_timeouts a) 1) = Suc (unat (ac_consecutive_timeouts a))"
    using unat_add_lem [of "ac_consecutive_timeouts a" 1] by (simp add: saturating_add_u32_def)
  have "silent t" using Cons.prems by simp
  from transact_silent [OF this Cons.prems(3,4)] obtain a' where a':
    "transact t a =
     (if ac_max_consecutive_timeouts a \<le> saturating_add_u32 (ac_consecutive_timeouts a) 1
      then (False, Some (Inl (EConnectionLost ''consecutive request timeouts'')))
      else (True, Some (Inl (ETimeout ''request''))), a')"
    "ac_buf a' = []" "ac_inbox a' = []" "ac_max_consecutive_timeouts a' = ac_max_consecutive_timeouts a"
    "ac_consecutive_timeouts a' = saturating_add_u32 (ac_consecutive_timeouts a) 1"
    by blast
  show ?case
  proof (cases "ts = []")
    case True
    then show ?thesis using a'(1) sat Cons.prems by (simp add: word_le_nat_alt silent_results_def)
  next
    case False
    then obtain a2 where "session_run (map Transact ts) a' = (silent_results (length ts), False, a2)"
      using Cons.prems a' sat Cons.IH [of a'] by auto
    moreover have "\<not> unat (ac_max_consecutive_timeouts a) \<le> Suc (unat (ac_consecutive_timeouts a))"
      using Cons.prems(5) False by (cases ts) auto
    ultimately show ?thesis using a'(1) sat False by (simp add: word_le_nat_alt silent_results_Suc)
  qed
qed simp

section \<open>An example\<close>

text \<open>A reply frame of session 7 with one byte of data, and a fresh actor of that session.\<close>

definition example_reply :: "u8 \<Rightarrow> bytes" where
  "example_reply ctx = [0x6F, 0, 1, 0, 7, 0, 0, 0, 0, 0, 0, 0, ctx, 0, 0, 0, 0, 0, 0, 0, 0, 0, 0, 0, 5]"

definition example_frame :: "u8 \<Rightarrow> encap_frame" where
  "example_frame ctx = encap_frame_new (encap_header_request SendRRData 0 7 [ctx, 0, 0, 0, 0, 0, 0, 0]) [5]"

definition example_actor :: "u32 \<Rightarrow> session_actor" where
  "example_actor m = spawn_session [] 7 m \<lparr>st_stale_replies = 0, st_timeouts = 0,
     st_connected_seq_mismatches = 0, st_keepalives_sent = 0, st_discarded_options = 0\<rparr>"

definition example_transaction :: "arrival list \<Rightarrow> transaction" where
  "example_transaction arrivals = \<lparr>tx_command = SendRRData, tx_data = [1], tx_deadline = 5,
     tx_reply_closed = False, tx_now = 0, tx_write = Written, tx_arrivals = arrivals\<rparr>"

lemma le_bytes_8_1: "le_bytes 8 (1 :: u64) = [1, 0, 0, 0, 0, 0, 0, 0]"
  by code_simp

lemma example_reply_ne: "[] \<noteq> example_reply ctx" "example_reply ctx \<noteq> []"
  by (simp_all add: example_reply_def)

lemma example_frame_wf:
  "wf_encap_frame (example_frame ctx)"
  "encap_frame_encode (example_frame ctx) = Inr (example_reply ctx)"
  by (simp_all add: wf_encap_frame_def wf_encap_header_def encap_frame_new_def encap_header_request_def
      command_from_code_def encap_status_from_code_def u16_try_from_def example_frame_def example_reply_def
      encap_frame_encode_def Let_def encap_header_write_def writer_defs le_bytes_unfold)

lemma example_drain:
  "codec_drain (example_reply c1 @ example_reply c2) = ([example_frame c1, example_frame c2], None, [])"
proof -
  have "eh_command (ef_header (example_frame c)) \<noteq> Nop" for c
    by (simp add: example_frame_def encap_frame_new_def encap_header_request_def)
  then show ?thesis
    using codec_drain_stream [of "[example_frame c1, example_frame c2]" "[example_reply c1, example_reply c2]" "[]"]
      codec_drain.simps [of "[]"] codec_decode_step [of "[]"]
    by (simp add: example_frame_wf)
qed

lemma example_await:
  assumes "ac_inbox a = [Chunk (example_reply 9 @ example_reply 1)]" "ac_buf a = []"
  shows "\<exists>a'. await_reply \<lparr>re_command = SendRRData, re_session_handle = 7, re_context = [1, 0, 0, 0, 0, 0, 0, 0]\<rparr> a =
    ((True, Some (Inr (example_frame 1))), a')"
  using await_reply_spec [of a "[example_reply 9 @ example_reply 1]" "[example_frame 9, example_frame 1]" None "[]"
      "\<lparr>re_command = SendRRData, re_session_handle = 7, re_context = [1, 0, 0, 0, 0, 0, 0, 0]\<rparr>"] assms
  by (cases "await_reply \<lparr>re_command = SendRRData, re_session_handle = 7, re_context = [1, 0, 0, 0, 0, 0, 0, 0]\<rparr> a")
    (simp add: example_drain example_reply_ne example_frame_def encap_frame_new_def encap_header_request_def
      match_reply_def session_handle_exempt_def poisons_session_def)

section \<open>Properties\<close>

text \<open>
  C4. A peer that says nothing. Every request to it fails with a timeout and keeps the session
  until as many have failed in a row as the configured maximum (at least one): that request fails
  with a lost connection and the actor ends.
\<close>

theorem silent_peer_ends_session:
  assumes "\<forall>t \<in> set ts. silent t" "length ts = unat (max m 1)"
  shows "\<exists>a'. session_run (map Transact ts) (spawn_session [] h m st) = (silent_results (length ts), False, a')"
proof -
  have "0 < unat (max m 1)"
    by (metis max.cobounded2 unat_1 word_le_nat_alt le_eq_less_or_eq less_le_trans zero_less_one)
  then show ?thesis using assms by (intro session_run_silent) (auto simp: spawn_session_def)
qed

theorem silent_peer_ends_session_witness:
  "\<exists>a'. session_run (map Transact (replicate 2 (example_transaction []))) (example_actor 2) =
     ([Some (Inl (ETimeout ''request'')), Some (Inl (EConnectionLost ''consecutive request timeouts''))], False, a')"
  using silent_peer_ends_session [of "replicate 2 (example_transaction [])" 2 7]
  by (simp add: silent_def silent_results_def max_def word_le_nat_alt example_transaction_def example_actor_def)

text \<open>
  C1. No reply crosses over. In a run of a fresh actor over fewer than \<open>2 ^ 64\<close> commands, whatever
  the peer sends and however it is cut, a frame handed to the \<open>i\<close>-th caller carries the context of
  the request issued for that caller, its command and session handle, no options and no status
  that ends a session; and that context differs from the one of every other request of the run.
\<close>

theorem session_no_cross_delivery:
  assumes "session_run cmds (spawn_session buf h m st) = (rs, a')" "length cmds < 2 ^ 64"
    and "i < length rs" "rs ! i = Some (Inr f)"
  shows "\<exists>t. cmds ! i = Transact t \<and> answers h t (context_of cmds i) f \<and>
    (\<forall>j < length cmds. j \<noteq> i \<longrightarrow> issues (cmds ! j) \<longrightarrow>
       eh_sender_context (ef_header f) \<noteq> context_of cmds j)"
proof -
  from session_run_delivers [OF assms(1,3,4)] obtain t where
    t: "i < length cmds" "cmds ! i = Transact t" "issues (cmds ! i)" "answers h t (context_of cmds i) f"
    by (auto simp: spawn_session_def context_of_def)
  then show ?thesis using context_of_inject [OF assms(2) t(1)] by (auto simp: answers_def)
qed

text \<open>
  C3. The reply loop reads chunks as they come, yet what it returns depends on the byte stream
  alone: it is what \<open>await_frames\<close> says of the frames that decoding the whole stream gives. So a
  stale or foreign frame never satisfies a request and never fails it, and it is counted.
\<close>

theorem await_reply_refines:
  assumes "ac_inbox a = map Chunk cs" "[] \<notin> set cs" "codec_drain (ac_buf a @ concat cs) = (fs, e, r)"
  shows "map_prod id core (await_reply ex a) = await_frames ex fs e (core a)"
  using assms by (rule await_reply_spec)

text \<open>Two chunks that hold a late reply to request 9 and the reply to request 1.\<close>

theorem await_reply_refines_witness:
  "map_prod id core
     (await_reply \<lparr>re_command = SendRRData, re_session_handle = 7, re_context = [1, 0, 0, 0, 0, 0, 0, 0]\<rparr>
        ((example_actor 3)\<lparr>ac_inbox := map Chunk [example_reply 9 @ take 10 (example_reply 1), drop 10 (example_reply 1)]\<rparr>)) =
     ((True, Some (Inr (example_frame 1))), count_stale (core (example_actor 3)))"
proof -
  have ne: "drop 10 (example_reply 1) \<noteq> []" by (simp add: example_reply_def)
  show ?thesis
    by (subst await_reply_refines [of _ "[example_reply 9 @ take 10 (example_reply 1), drop 10 (example_reply 1)]"
          "[example_frame 9, example_frame 1]" None "[]"])
      (use ne in \<open>auto simp: example_reply_ne example_drain example_actor_def spawn_session_def count_stale_def core_def
         example_frame_def encap_frame_new_def encap_header_request_def match_reply_def
         session_handle_exempt_def poisons_session_def\<close>)
qed

theorem session_no_cross_delivery_witness:
  "\<exists>t. [Transact (example_transaction [Chunk (example_reply 9 @ example_reply 1)])] ! 0 = Transact t \<and>
     answers 7 t [1, 0, 0, 0, 0, 0, 0, 0] (example_frame 1)"
proof -
  let ?t = "example_transaction [Chunk (example_reply 9 @ example_reply 1)]"
  let ?ex = "\<lparr>re_command = SendRRData, re_session_handle = 7, re_context = [1, 0, 0, 0, 0, 0, 0, 0]\<rparr>"
  have "\<exists>b. transact ?t (example_actor 3) = await_reply ?ex b \<and>
      ac_inbox b = [Chunk (example_reply 9 @ example_reply 1)] \<and> ac_buf b = []"
    by (simp add: transact_def preflight_def example_transaction_def next_context_def Let_def send_frame_def
        encap_frame_encode_def encap_frame_new_def example_actor_def spawn_session_def le_bytes_8_1)
      (rule exI, rule conjI, rule refl, simp)
  then obtain a' where "transact ?t (example_actor 3) = ((True, Some (Inr (example_frame 1))), a')"
    using example_await by metis
  then have run: "session_run [Transact ?t] (example_actor 3) = ([Some (Inr (example_frame 1))], True, a')"
    by simp
  have "context_of [Transact ?t] 0 = [1, 0, 0, 0, 0, 0, 0, 0]"
    by (simp add: context_of_def issued_def issues_def preflight_def example_transaction_def le_bytes_8_1)
  then show ?thesis
    using session_no_cross_delivery [OF run [unfolded example_actor_def], of 0 "example_frame 1"] by auto
qed

text \<open>
  A living actor is always below its limit: whatever requests it has served, the count of
  consecutive timeouts is smaller than the maximum, which is therefore at least one.
\<close>

theorem session_reachable_timeouts:
  assumes "reachable session_init session_step a"
  shows "ac_consecutive_timeouts a < ac_max_consecutive_timeouts a"
  using session.reachable_inv [OF assms] by (simp add: session_inv_def)

theorem session_reachable_timeouts_witness:
  "ac_consecutive_timeouts (example_actor 0) < ac_max_consecutive_timeouts (example_actor 0)"
  by (rule session_reachable_timeouts, rule reach_init) (auto simp: session_init_def example_actor_def)

end
