(* ===== verification/Io_Frame.thy ===== *)
theory Io_Frame
  imports Cpf Cm
begin

text \<open>
  The socket-free helpers and the frame codec of \<^verbatim>\<open>crates/enip/src/io.rs\<close>: the bounds on the packet
  intervals of a Forward Open reply, the socket error policies, and the class 1 frame.
\<close>

section \<open>Limits and error policies\<close>

definition MIN_REPLY_API :: duration where "MIN_REPLY_API = from_micros 100"
definition MAX_REPLY_API :: duration where "MAX_REPLY_API = from_secs 600"
definition MAX_CONSECUTIVE_FATAL_RECV_ERRORS :: u32 where "MAX_CONSECUTIVE_FATAL_RECV_ERRORS = 3"
definition MAX_CONSECUTIVE_SEND_ERRORS :: u32 where "MAX_CONSECUTIVE_SEND_ERRORS = 3"

definition api_out_of_range :: "duration \<Rightarrow> bool" where
  "api_out_of_range api \<longleftrightarrow> api < MIN_REPLY_API \<or> api > MAX_REPLY_API"

definition validate_reply_apis :: "forward_open_success \<Rightarrow> enip_error + duration \<times> duration" where
  "validate_reply_apis success =
     (let o2t = from_micros (unat (fos_o_t_api success));
          t2o = from_micros (unat (fos_t_o_api success))
      in if api_out_of_range o2t \<or> api_out_of_range t2o
         then Inl (EProtocolViolation ''forward-open reply API out of range'')
         else Inr (o2t, t2o))"

definition is_per_datagram_error :: "io_error_kind \<Rightarrow> bool" where
  "is_per_datagram_error kind \<longleftrightarrow>
     kind = IoConnectionReset \<or> kind = IoConnectionRefused \<or> kind = IoConnectionAborted \<or>
     kind = IoInterrupted \<or> kind = IoWouldBlock"

record recv_error_policy =
  rp_consecutive_fatal :: u32

datatype recv_error_action = Continue | FatalSocket

definition on_recv_error :: "io_error_kind \<Rightarrow> recv_error_policy \<Rightarrow> recv_error_action \<times> recv_error_policy" where
  "on_recv_error kind p =
     (if is_per_datagram_error kind then (Continue, p\<lparr>rp_consecutive_fatal := 0\<rparr>)
      else
        let p = p\<lparr>rp_consecutive_fatal := saturating_add_u32 (rp_consecutive_fatal p) 1\<rparr>
        in (if rp_consecutive_fatal p \<ge> MAX_CONSECUTIVE_FATAL_RECV_ERRORS then FatalSocket else Continue, p))"

definition on_recv_ok :: "recv_error_policy \<Rightarrow> recv_error_policy" where
  "on_recv_ok p = p\<lparr>rp_consecutive_fatal := 0\<rparr>"

datatype send_outcome = Sent | SendDropped | ConnectionDead

section \<open>The class 1 frame\<close>

datatype real_time_format = Modeless | Header32Bit | Heartbeat | ZeroLength

definition has_sequence :: "real_time_format \<Rightarrow> bool" where
  "has_sequence fmt \<longleftrightarrow> fmt \<noteq> ZeroLength"

definition has_header :: "real_time_format \<Rightarrow> bool" where
  "has_header fmt \<longleftrightarrow> fmt = Header32Bit"

definition carries_data :: "real_time_format \<Rightarrow> bool" where
  "carries_data fmt \<longleftrightarrow> fmt = Modeless \<or> fmt = Header32Bit"

definition overhead :: "real_time_format \<Rightarrow> nat" where
  "overhead fmt =
     (let seq = if has_sequence fmt then 2 else 0; hdr = if has_header fmt then 4 else 0 in seq + hdr)"

record io_frame =
  if_sequence :: "u16 option"
  if_run_mode :: "bool option"
  if_data :: bytes

definition unwrap_or :: "'a option \<Rightarrow> 'a \<Rightarrow> 'a" where
  "unwrap_or m d = (case m of Some x \<Rightarrow> x | None \<Rightarrow> d)"

lemma unwrap_or_simps [simp]: "unwrap_or (Some x) d = x" "unwrap_or None d = d"
  by (simp_all add: unwrap_or_def)

definition io_frame_encode :: "io_frame \<Rightarrow> real_time_format \<Rightarrow> bytes" where
  "io_frame_encode f fmt =
     (let w = [];
          w = (if has_sequence fmt then w_u16 (unwrap_or (if_sequence f) 0) w else w);
          w = (if has_header fmt then w_u32 (of_bool (unwrap_or (if_run_mode f) True)) w else w)
      in w_put_slice (if_data f) w)"

definition io_frame_decode :: "real_time_format \<Rightarrow> bytes \<Rightarrow> wire_error + io_frame" where
  "io_frame_decode fmt buf =
     ok_then (if has_sequence fmt
              then ok_then (r_u16 (r_with_context buf ''io frame'')) (\<lambda>(s, r). Inr (Some s, r))
              else Inr (None, r_with_context buf ''io frame'')) (\<lambda>(sequence, r).
     ok_then (if has_header fmt
              then ok_then (r_u32 r) (\<lambda>(header, r). Inr (Some (header AND 1 \<noteq> 0), r))
              else Inr (None, r)) (\<lambda>(run_mode, r).
     Inr \<lparr>if_sequence = sequence, if_run_mode = run_mode, if_data = fst (r_take_rest r)\<rparr>))"

section \<open>Exactness of the codec\<close>

text \<open>What a direction may carry: a sequence and a header exactly as its format says.\<close>

definition io_frame_conforms :: "real_time_format \<Rightarrow> io_frame \<Rightarrow> bool" where
  "io_frame_conforms fmt f \<longleftrightarrow>
     (if_sequence f \<noteq> None \<longleftrightarrow> has_sequence fmt) \<and> (if_run_mode f \<noteq> None \<longleftrightarrow> has_header fmt)"

lemma length_io_frame_encode [simp]:
  "length (io_frame_encode f fmt) = overhead fmt + length (if_data f)"
  by (simp add: io_frame_encode_def overhead_def writer_defs Let_def)

lemma io_frame_round:
  assumes "io_frame_conforms fmt f" "length (if_data f) \<le> 8589934592 - 6"
  shows "io_frame_decode fmt (io_frame_encode f fmt) = Inr f"
proof -
  have wf: "wf_reader (r_with_context (io_frame_encode f fmt) ''io frame'')"
    using assms(2) by (intro wf_intros small_le_isize) (cases fmt; simp add: overhead_def has_sequence_def has_header_def)
  show ?thesis
    using assms(1) wf
    by (cases f; cases fmt)
      (auto simp: io_frame_decode_def io_frame_encode_def io_frame_conforms_def has_sequence_def has_header_def
        Let_def wire_simps)
qed

lemma io_frame_decode_ok:
  assumes "length buf \<le> isize_max"
  shows "case io_frame_decode fmt buf of
      Inl _ \<Rightarrow> length buf < overhead fmt
    | Inr f \<Rightarrow> overhead fmt \<le> length buf \<and> io_frame_conforms fmt f \<and> if_data f = drop (overhead fmt) buf \<and>
        take 2 (io_frame_encode f fmt) = take 2 buf"
  using assms
  by (cases fmt)
    (auto simp: io_frame_decode_def io_frame_encode_def io_frame_conforms_def has_sequence_def has_header_def
      overhead_def Let_def wire_simps le_back)

end
