(* ===== verification/Io_Queue.thy ===== *)
theory Io_Queue
  imports Io_Frame "HOL-Library.Sublist"
begin

text \<open>
  The event queue of one I/O connection, \<^verbatim>\<open>crates/enip/src/io.rs\<close>: bounded in its samples, never in
  its control events, and latest-wins on overflow. The lock serialises the operations, so an
  interleaving of the two halves is a list of operations. The wake-up of a waiting receiver is not
  state of the queue: a receiver that finds it empty looks again.
\<close>

section \<open>Events and counters\<close>

datatype lost_reason = LostTimeout | ClosedByPeer | LostIo

record io_update =
  iu_data :: bytes
  iu_sequence :: u16
  iu_encap_sequence :: u32
  iu_run_mode :: bool
  iu_received_at :: instant

datatype io_event = Up duration duration | Data io_update | Lost lost_reason

fun is_data :: "io_event \<Rightarrow> bool" where
  "is_data (Data _) \<longleftrightarrow> True"
| "is_data (Up _ _) \<longleftrightarrow> False"
| "is_data (Lost _) \<longleftrightarrow> False"

datatype drop_reason = DropMalformed | UnknownConnection | SourceMismatch | SizeMismatch | Stale

record conn_counters =
  cc_frames_accepted :: u64
  cc_frames_produced :: u64
  cc_size_mismatch :: u64
  cc_stale_frames :: u64
  cc_sequence_gaps :: u64
  cc_overflowed_events :: u64
  cc_produce_overruns :: u64
  cc_send_errors :: u64
  cc_refused_redirects :: u64

definition conn_counters_default :: conn_counters where
  "conn_counters_default =
     \<lparr>cc_frames_accepted = 0, cc_frames_produced = 0, cc_size_mismatch = 0, cc_stale_frames = 0,
      cc_sequence_gaps = 0, cc_overflowed_events = 0, cc_produce_overruns = 0, cc_send_errors = 0,
      cc_refused_redirects = 0\<rparr>"

record manager_counters =
  mc_malformed_frames :: u64
  mc_unknown_connection :: u64
  mc_recv_errors :: u64
  mc_source_mismatch_datagrams :: u64

section \<open>The queue\<close>

record event_queue =
  eq_deque :: "io_event list"
  eq_capacity :: nat
  eq_data_len :: nat
  eq_tx_closed :: bool
  eq_rx_closed :: bool

definition event_queue_new :: "nat \<Rightarrow> event_queue" where
  "event_queue_new capacity =
     \<lparr>eq_deque = [], eq_capacity = max capacity 1, eq_data_len = 0, eq_tx_closed = False,
      eq_rx_closed = False\<rparr>"

definition event_queue_pop :: "event_queue \<Rightarrow> io_event option \<times> event_queue" where
  "event_queue_pop q =
     (case eq_deque q of
        [] \<Rightarrow> (None, q)
      | ev # rest \<Rightarrow>
          (Some ev, q\<lparr>eq_deque := rest,
             eq_data_len := (if is_data ev then eq_data_len q - 1 else eq_data_len q)\<rparr>))"

datatype push_outcome = Queued | EvictedOldest | ReceiverGone

text \<open>\<^verbatim>\<open>Iterator::position\<close> and \<^verbatim>\<open>VecDeque::remove\<close>.\<close>

primrec position :: "('a \<Rightarrow> bool) \<Rightarrow> 'a list \<Rightarrow> nat option" where
  "position P [] = None"
| "position P (x # xs) = (if P x then Some 0 else map_option Suc (position P xs))"

definition remove_at :: "nat \<Rightarrow> 'a list \<Rightarrow> 'a list" where
  "remove_at i xs = take i xs @ drop (Suc i) xs"

definition push_latest_wins :: "io_event \<Rightarrow> event_queue \<Rightarrow> push_outcome \<times> event_queue" where
  "push_latest_wins ev q =
     (if eq_rx_closed q then (ReceiverGone, q)
      else if \<not> is_data ev then (Queued, q\<lparr>eq_deque := eq_deque q @ [ev]\<rparr>)
      else
        case (if eq_data_len q \<ge> eq_capacity q then position is_data (eq_deque q) else None) of
          Some idx \<Rightarrow>
            (EvictedOldest,
             q\<lparr>eq_deque := remove_at idx (eq_deque q) @ [ev], eq_data_len := (eq_data_len q - 1) + 1\<rparr>)
        | None \<Rightarrow> (Queued, q\<lparr>eq_deque := eq_deque q @ [ev], eq_data_len := eq_data_len q + 1\<rparr>))"

datatype try_recv_error = Empty | Disconnected

definition event_queue_take :: "event_queue \<Rightarrow> (try_recv_error + io_event) \<times> event_queue" where
  "event_queue_take q =
     (case event_queue_pop q of
        (Some ev, q) \<Rightarrow> (Inr ev, q)
      | (None, q) \<Rightarrow> (Inl (if eq_tx_closed q then Disconnected else Empty), q))"

text \<open>The sender counts an eviction; dropping either half closes its side.\<close>

definition event_send :: "io_event \<Rightarrow> event_queue \<times> conn_counters \<Rightarrow> event_queue \<times> conn_counters" where
  "event_send ev s =
     (case push_latest_wins ev (fst s) of
        (EvictedOldest, q) \<Rightarrow> (q, (snd s)\<lparr>cc_overflowed_events := cc_overflowed_events (snd s) + 1\<rparr>)
      | (Queued, q) \<Rightarrow> (q, snd s)
      | (ReceiverGone, q) \<Rightarrow> (q, snd s))"

definition drop_sender :: "event_queue \<Rightarrow> event_queue" where
  "drop_sender q = q\<lparr>eq_tx_closed := True\<rparr>"

definition drop_receiver :: "event_queue \<Rightarrow> event_queue" where
  "drop_receiver q = q\<lparr>eq_rx_closed := True\<rparr>"

section \<open>Latest wins\<close>

text \<open>
  The specification: of a sequence of events, keep the last \<open>n\<close> of those that may be dropped, and
  all others, in their order.
\<close>

primrec keep_first :: "('a \<Rightarrow> bool) \<Rightarrow> nat \<Rightarrow> 'a list \<Rightarrow> 'a list" where
  "keep_first P n [] = []"
| "keep_first P n (x # xs) =
     (if P x then (case n of 0 \<Rightarrow> keep_first P 0 xs | Suc m \<Rightarrow> x # keep_first P m xs)
      else x # keep_first P n xs)"

definition keep_latest :: "('a \<Rightarrow> bool) \<Rightarrow> nat \<Rightarrow> 'a list \<Rightarrow> 'a list" where
  "keep_latest P n xs = rev (keep_first P n (rev xs))"

lemma keep_first_id: "length (filter P xs) \<le> n \<Longrightarrow> keep_first P n xs = xs"
  by (induction xs arbitrary: n) (auto split: nat.splits)

lemma keep_first_keep_first: "m \<le> n \<Longrightarrow> keep_first P m (keep_first P n xs) = keep_first P m xs"
  by (induction xs arbitrary: m n) (auto split: nat.splits)

lemma keep_first_append: "keep_first P n (ys @ keep_first P n xs) = keep_first P n (ys @ xs)"
proof -
  have "keep_first P m (ys @ keep_first P n xs) = keep_first P m (ys @ xs)" if "m \<le> n" for m
    using that by (induction ys arbitrary: m) (auto simp: keep_first_keep_first split: nat.splits)
  then show ?thesis by simp
qed

lemma keep_first_others: "filter (\<lambda>x. \<not> P x) (keep_first P n xs) = filter (\<lambda>x. \<not> P x) xs"
  by (induction xs arbitrary: n) (auto split: nat.splits)

lemma keep_first_kept: "filter P (keep_first P n xs) = take n (filter P xs)"
  by (induction xs arbitrary: n) (auto split: nat.splits)

lemma keep_first_last:
  "keep_first P n (xs @ [x]) =
     keep_first P n xs @ (if P x \<and> n \<le> length (filter P xs) then [] else [x])"
  by (induction xs arbitrary: n) (auto split: nat.splits)

lemma keep_latest_id: "length (filter P xs) \<le> n \<Longrightarrow> keep_latest P n xs = xs"
  by (simp add: keep_latest_def keep_first_id rev_filter [symmetric])

lemma keep_latest_append: "keep_latest P n (keep_latest P n xs @ ys) = keep_latest P n (xs @ ys)"
  by (simp add: keep_latest_def keep_first_append)

lemma keep_latest_others: "filter (\<lambda>x. \<not> P x) (keep_latest P n xs) = filter (\<lambda>x. \<not> P x) xs"
  by (simp add: keep_latest_def rev_filter [symmetric] keep_first_others)

lemma keep_latest_kept:
  "filter P (keep_latest P n xs) = drop (length (filter P xs) - n) (filter P xs)"
  by (simp add: keep_latest_def rev_filter [symmetric] keep_first_kept take_rev)

lemma keep_latest_snoc_other: "\<not> P x \<Longrightarrow> keep_latest P n (xs @ [x]) = keep_latest P n xs @ [x]"
  by (simp add: keep_latest_def)

lemma keep_latest_full:
  assumes "length (filter P xs) = Suc n" "position P xs = Some i" "P x"
  shows "keep_latest P (Suc n) (xs @ [x]) = remove_at i xs @ [x]"
proof -
  have "keep_latest P n xs = remove_at i xs" using assms(1,2)
  proof (induction xs arbitrary: i)
    case (Cons y ys)
    show ?case
    proof (cases "P y")
      case True
      then show ?thesis using Cons.prems
        by (simp add: keep_latest_def keep_first_last keep_first_id remove_at_def rev_filter [symmetric])
    next
      case False
      with Cons.prems obtain j where "position P ys = Some j" "i = Suc j" by auto
      then show ?thesis using Cons False
        by (simp add: keep_latest_def keep_first_last remove_at_def)
    qed
  qed simp
  then show ?thesis using assms(3) by (simp add: keep_latest_def)
qed

lemma keep_latest_Cons:
  "keep_latest P n (x # xs) =
     (if P x \<and> n \<le> length (filter P xs) then [] else [x]) @ keep_latest P n xs"
  by (simp add: keep_latest_def keep_first_last rev_filter [symmetric])

lemma keep_latest_subseq: "subseq (keep_latest P n xs) xs"
  by (induction xs) (auto simp: keep_latest_Cons, simp add: keep_latest_def)

section \<open>The interface of a latest-wins queue\<close>

text \<open>The operations of an interleaving: \<open>Some e\<close> pushes, \<open>None\<close> asks for the next event.\<close>

primrec run_ops :: "('e \<Rightarrow> 'q \<Rightarrow> 'q) \<Rightarrow> ('q \<Rightarrow> 'e option \<times> 'q) \<Rightarrow> 'e option list \<Rightarrow> 'q \<Rightarrow> 'e list \<times> 'q" where
  "run_ops push pop [] q = ([], q)"
| "run_ops push pop (x # xs) q =
     (case x of
        Some e \<Rightarrow> run_ops push pop xs (push e q)
      | None \<Rightarrow>
          (case pop q of
             (None, q) \<Rightarrow> run_ops push pop xs q
           | (Some e, q) \<Rightarrow> (case run_ops push pop xs q of (es, q) \<Rightarrow> (e # es, q))))"

definition pushed :: "'e option list \<Rightarrow> 'e list" where
  "pushed xs = List.map_filter id xs"

lemma pushed_simps [simp]:
  "pushed [] = []" "pushed (Some e # xs) = e # pushed xs" "pushed (None # xs) = pushed xs"
  by (simp_all add: pushed_def List.map_filter_simps)

locale latest_wins_queue =
  fixes contents :: "'q \<Rightarrow> 'e list"
    and bound :: "'q \<Rightarrow> nat"
    and invar :: "'q \<Rightarrow> bool"
    and droppable :: "'e \<Rightarrow> bool"
    and push :: "'e \<Rightarrow> 'q \<Rightarrow> 'q"
    and pop :: "'q \<Rightarrow> 'e option \<times> 'q"
  assumes push_contents: "invar q \<Longrightarrow> contents (push e q) = keep_latest droppable (bound q) (contents q @ [e])"
    and push_invar: "invar q \<Longrightarrow> invar (push e q) \<and> bound (push e q) = bound q"
    and pop_empty: "invar q \<Longrightarrow> contents q = [] \<Longrightarrow> pop q = (None, q)"
    and pop_next: "invar q \<Longrightarrow> contents q = e # es \<Longrightarrow> \<exists>q'. pop q = (Some e, q') \<and> contents q' = es \<and> invar q' \<and> bound q' = bound q"
    and within_bound: "invar q \<Longrightarrow> length (filter droppable (contents q)) \<le> bound q"
begin

lemma push_all:
  "invar q \<Longrightarrow> contents (fold push es q) = keep_latest droppable (bound q) (contents q @ es)"
proof (induction es arbitrary: q)
  case Nil
  then show ?case using within_bound by (simp add: keep_latest_id)
next
  case (Cons e es)
  then show ?case using push_invar [of q e] by (simp add: push_contents keep_latest_append)
qed

lemma run_ops_delivers:
  "invar q \<Longrightarrow> run_ops push pop xs q = (es, q') \<Longrightarrow>
     invar q' \<and> bound q' = bound q \<and>
     subseq (es @ contents q') (contents q @ pushed xs) \<and>
     filter (\<lambda>e. \<not> droppable e) (es @ contents q') = filter (\<lambda>e. \<not> droppable e) (contents q @ pushed xs)"
proof (induction xs arbitrary: q es)
  case (Cons x xs)
  show ?case
  proof (cases x)
    case (Some e)
    have sub: "subseq (contents (push e q) @ pushed xs) (contents q @ pushed (x # xs))"
      using keep_latest_subseq [of droppable "bound q" "contents q @ [e]"] Cons.prems(1) Some
      by (simp add: push_contents) (metis append.assoc append_Cons append_Nil list_emb_append_mono subseq_order.refl)
    from Cons.IH [of "push e q" es] Cons.prems Some push_invar [of q e] sub show ?thesis
      by (auto simp: push_contents keep_latest_others intro: subseq_order.trans)
  next
    case None
    show ?thesis
    proof (cases "contents q")
      case Nil
      then show ?thesis using Cons.IH [of q es] Cons.prems None pop_empty [of q] by simp
    next
      case (Cons e cs)
      then obtain q1 where q1: "pop q = (Some e, q1)" "contents q1 = cs" "invar q1" "bound q1 = bound q"
        using pop_next Cons.prems(1) by blast
      obtain es1 where es1: "run_ops push pop xs q1 = (es1, q')" "es = e # es1"
        using Cons.prems(2) None q1(1) by (auto split: prod.splits)
      from Cons.IH [OF q1(3) es1(1)] show ?thesis using None Cons q1 es1(2) by simp
    qed
  qed
qed simp

end

section \<open>The event queue is one\<close>

type_synonym event_channel = "event_queue \<times> conn_counters"

definition channel_invar :: "event_channel \<Rightarrow> bool" where
  "channel_invar s \<longleftrightarrow>
     \<not> eq_rx_closed (fst s) \<and> 0 < eq_capacity (fst s) \<and>
     eq_data_len (fst s) = length (filter is_data (eq_deque (fst s))) \<and>
     eq_data_len (fst s) \<le> eq_capacity (fst s)"

definition channel_recv :: "event_channel \<Rightarrow> io_event option \<times> event_channel" where
  "channel_recv s = (case event_queue_take (fst s) of (r, q) \<Rightarrow> (case r of Inr e \<Rightarrow> Some e | Inl _ \<Rightarrow> None, q, snd s))"

lemma position_None: "position P xs = None \<longleftrightarrow> filter P xs = []"
  by (induction xs) auto

lemma position_Some: "position P xs = Some i \<Longrightarrow> i < length xs \<and> P (xs ! i)"
  by (induction xs arbitrary: i) (auto split: if_splits)

lemma filter_remove_at:
  "position P xs = Some i \<Longrightarrow> Suc (length (filter P (remove_at i xs))) = length (filter P xs)"
  by (induction xs arbitrary: i) (auto simp: remove_at_def split: if_splits)

lemma push_full:
  assumes "channel_invar s" "is_data ev" "eq_capacity (fst s) \<le> eq_data_len (fst s)"
  obtains i where "position is_data (eq_deque (fst s)) = Some i"
    "push_latest_wins ev (fst s) = (EvictedOldest,
       (fst s)\<lparr>eq_deque := remove_at i (eq_deque (fst s)) @ [ev], eq_data_len := eq_data_len (fst s)\<rparr>)"
proof -
  have "0 < length (filter is_data (eq_deque (fst s)))"
    using assms(1,3) unfolding channel_invar_def by linarith
  then obtain i where "position is_data (eq_deque (fst s)) = Some i"
    using position_None by (metis length_0_conv less_irrefl option.exhaust)
  then show ?thesis using that assms by (auto simp: push_latest_wins_def channel_invar_def)
qed

lemma push_free:
  assumes "channel_invar s" "\<not> is_data ev \<or> eq_data_len (fst s) < eq_capacity (fst s)"
  shows "push_latest_wins ev (fst s) = (Queued,
     (fst s)\<lparr>eq_deque := eq_deque (fst s) @ [ev], eq_data_len := eq_data_len (fst s) + of_bool (is_data ev)\<rparr>)"
  using assms by (auto simp: push_latest_wins_def channel_invar_def)

lemma event_send_contents:
  assumes "channel_invar s"
  shows "channel_invar (event_send ev s) \<and> eq_capacity (fst (event_send ev s)) = eq_capacity (fst s) \<and>
    eq_deque (fst (event_send ev s)) = keep_latest is_data (eq_capacity (fst s)) (eq_deque (fst s) @ [ev]) \<and>
    cc_overflowed_events (snd (event_send ev s)) + of_nat (length (eq_deque (fst (event_send ev s)))) =
      cc_overflowed_events (snd s) + of_nat (Suc (length (eq_deque (fst s))))"
proof (cases "is_data ev \<and> eq_capacity (fst s) \<le> eq_data_len (fst s)")
  case True
  then obtain i where i: "position is_data (eq_deque (fst s)) = Some i"
    "push_latest_wins ev (fst s) = (EvictedOldest,
       (fst s)\<lparr>eq_deque := remove_at i (eq_deque (fst s)) @ [ev], eq_data_len := eq_data_len (fst s)\<rparr>)"
    using push_full assms by blast
  from True assms obtain n where n: "eq_capacity (fst s) = Suc n" "length (filter is_data (eq_deque (fst s))) = Suc n"
    by (cases "eq_capacity (fst s)") (auto simp: channel_invar_def)
  have "Suc (length (remove_at i (eq_deque (fst s)))) = length (eq_deque (fst s))"
    using position_Some [OF i(1)] by (cases "eq_deque (fst s)") (auto simp: remove_at_def min_def)
  then show ?thesis
    using i n True assms filter_remove_at [OF i(1)] keep_latest_full [OF n(2) i(1), of ev]
    by (auto simp: event_send_def channel_invar_def)
next
  case False
  then have "push_latest_wins ev (fst s) = (Queued,
     (fst s)\<lparr>eq_deque := eq_deque (fst s) @ [ev], eq_data_len := eq_data_len (fst s) + of_bool (is_data ev)\<rparr>)"
    using push_free [OF assms, of ev] by auto
  then show ?thesis
    using False assms by (auto simp: event_send_def channel_invar_def keep_latest_id)
qed

interpretation channel: latest_wins_queue "\<lambda>s. eq_deque (fst s)" "\<lambda>s. eq_capacity (fst s)" channel_invar is_data
  event_send channel_recv
proof
  fix q e
  assume "channel_invar q"
  then show "eq_deque (fst (event_send e q)) = keep_latest is_data (eq_capacity (fst q)) (eq_deque (fst q) @ [e])"
    "channel_invar (event_send e q) \<and> eq_capacity (fst (event_send e q)) = eq_capacity (fst q)"
    "length (filter is_data (eq_deque (fst q))) \<le> eq_capacity (fst q)"
    "eq_deque (fst q) = [] \<Longrightarrow> channel_recv q = (None, q)"
    using event_send_contents [of q e]
    by (auto simp: channel_invar_def channel_recv_def event_queue_take_def event_queue_pop_def)
next
  fix q e es
  assume "channel_invar q" "eq_deque (fst q) = e # es"
  then show "\<exists>q'. channel_recv q = (Some e, q') \<and> eq_deque (fst q') = es \<and> channel_invar q' \<and>
      eq_capacity (fst q') = eq_capacity (fst q)"
    by (cases "is_data e") (auto simp: channel_invar_def channel_recv_def event_queue_take_def event_queue_pop_def)
qed

lemma channel_overflow_count:
  "channel_invar s \<Longrightarrow> run_ops event_send channel_recv xs s = (es, s') \<Longrightarrow>
     cc_overflowed_events (snd s') + of_nat (length es + length (eq_deque (fst s'))) =
     cc_overflowed_events (snd s) + of_nat (length (eq_deque (fst s)) + length (pushed xs))"
proof (induction xs arbitrary: s es)
  case (Cons x xs)
  show ?case
  proof (cases x)
    case (Some e)
    note send = event_send_contents [OF Cons.prems(1), of e]
    have "cc_overflowed_events (snd s') + of_nat (length es + length (eq_deque (fst s'))) =
        (cc_overflowed_events (snd (event_send e s)) + of_nat (length (eq_deque (fst (event_send e s))))) +
        of_nat (length (pushed xs))"
      using Cons.IH [of "event_send e s" es] Cons.prems Some send by (simp add: add.assoc)
    also have "\<dots> = cc_overflowed_events (snd s) + of_nat (length (eq_deque (fst s)) + length (pushed (x # xs)))"
      unfolding send [THEN conjunct2, THEN conjunct2, THEN conjunct2] using Some by simp
    finally show ?thesis .
  next
    case None
    show ?thesis
    proof (cases "eq_deque (fst s)")
      case Nil
      then show ?thesis using Cons.IH [of s es] Cons.prems None channel.pop_empty [of s] by simp
    next
      case (Cons e cs)
      then obtain s1 where s1: "channel_recv s = (Some e, s1)" "eq_deque (fst s1) = cs" "channel_invar s1"
        using channel.pop_next Cons.prems(1) by blast
      moreover have "snd s1 = snd s" using s1(1) by (auto simp: channel_recv_def split: prod.splits)
      moreover obtain es1 where "run_ops event_send channel_recv xs s1 = (es1, s')" "es = e # es1"
        using Cons.prems(2) None s1(1) by (auto split: prod.splits)
      ultimately show ?thesis using Cons.IH [of s1 es1] None Cons by (simp add: algebra_simps)
    qed
  qed
qed simp

section \<open>Properties\<close>

text \<open>
  C17. Pushing refines the latest-wins specification: after any sends to a queue whose receiver
  lives, it holds the last \<open>capacity\<close> samples (at least one) and every control event, in order.
\<close>

theorem event_queue_latest_wins:
  "eq_deque (fst (fold event_send evs (event_queue_new cap, c))) = keep_latest is_data (max cap 1) evs"
proof -
  have "channel_invar (event_queue_new cap, c)" by (simp add: channel_invar_def event_queue_new_def)
  from channel.push_all [OF this, of evs] show ?thesis by (simp add: event_queue_new_def)
qed

text \<open>
  Whatever the interleaving of sends and receives, nothing is invented, duplicated or
  reordered: what was received and what is still queued is a subsequence of what was sent, every
  control event is among it, the queued samples stay within the capacity with their census exact,
  and the overflow counter advanced by exactly the number of events missing.
\<close>

theorem event_queue_interleaving:
  assumes "run_ops event_send channel_recv xs (event_queue_new cap, c) = (es, (q, c'))"
  shows "subseq (es @ eq_deque q) (pushed xs) \<and>
    filter (\<lambda>e. \<not> is_data e) (es @ eq_deque q) = filter (\<lambda>e. \<not> is_data e) (pushed xs) \<and>
    eq_data_len q = length (filter is_data (eq_deque q)) \<and> eq_data_len q \<le> max cap 1 \<and>
    cc_overflowed_events c' =
      cc_overflowed_events c + of_nat (length (pushed xs) - (length es + length (eq_deque q)))"
proof -
  have inv: "channel_invar (event_queue_new cap, c)" by (simp add: channel_invar_def event_queue_new_def)
  note run = channel.run_ops_delivers [OF inv assms]
  have "length es + length (eq_deque q) \<le> length (pushed xs)"
    using run list_emb_length [of "(=)" "es @ eq_deque q" "pushed xs"] by (simp add: event_queue_new_def)
  moreover have "cc_overflowed_events c' + of_nat (length es + length (eq_deque q)) =
      cc_overflowed_events c + of_nat (length (pushed xs))"
    using channel_overflow_count [OF inv assms] by (simp add: event_queue_new_def)
  ultimately have "cc_overflowed_events c' =
      cc_overflowed_events c + of_nat (length (pushed xs) - (length es + length (eq_deque q)))"
    by (simp add: of_nat_diff algebra_simps)
  then show ?thesis using run by (simp add: channel_invar_def event_queue_new_def)
qed

theorem event_queue_interleaving_witness:
  "let d = (\<lambda>n. Data \<lparr>iu_data = [n], iu_sequence = 0, iu_encap_sequence = 0, iu_run_mode = True, iu_received_at = 0\<rparr>)
   in subseq [d 1, Up 5 5, d 3, Lost LostIo] [d 1, Up 5 5, d 2, d 3, Lost LostIo]"
proof -
  let ?d = "\<lambda>n. Data \<lparr>iu_data = [n], iu_sequence = 0, iu_encap_sequence = 0, iu_run_mode = True, iu_received_at = 0\<rparr>"
  have "\<exists>q c'. run_ops event_send channel_recv
      [Some (?d 1), None, Some (Up 5 5), Some (?d 2), Some (?d 3), Some (Lost LostIo)]
      (event_queue_new 1, conn_counters_default) = ([?d 1], (q, c')) \<and> eq_deque q = [Up 5 5, ?d 3, Lost LostIo]"
    by (simp add: event_send_def push_latest_wins_def channel_recv_def event_queue_take_def event_queue_pop_def
        event_queue_new_def remove_at_def)
  then obtain q c' where "run_ops event_send channel_recv
      [Some (?d 1), None, Some (Up 5 5), Some (?d 2), Some (?d 3), Some (Lost LostIo)]
      (event_queue_new 1, conn_counters_default) = ([?d 1], (q, c'))" "eq_deque q = [Up 5 5, ?d 3, Lost LostIo]"
    by blast
  from event_queue_interleaving [OF this(1)] this(2) show ?thesis by simp
qed

end
