(* ===== verification/Io_Connection.thy ===== *)
theory Io_Connection
  imports Io_Queue
begin

text \<open>
  The socket-free state machine of one class 1 connection, \<^verbatim>\<open>IoConnection\<close> of
  \<^verbatim>\<open>crates/enip/src/io.rs\<close>, and the routing of a datagram to it, \<^verbatim>\<open>Registry\<close>. Time is an argument,
  as in the source. The counters, shared between tasks in the source, are part of the connection.
\<close>

section \<open>State\<close>

datatype ip_addr = V4 u32 | V6 "128 word"

record socket_addr =
  sk_ip :: ip_addr
  sk_port :: u16

record io_connection_params =
  ip_o2t_connection_id :: u32
  ip_t2o_connection_id :: u32
  ip_o2t_api :: duration
  ip_t2o_api :: duration
  ip_timeout_multiplier :: u32
  ip_o2t_format :: real_time_format
  ip_t2o_format :: real_time_format
  ip_o2t_data_size :: nat
  ip_t2o_data_size :: nat
  ip_o2t_fixed :: bool
  ip_t2o_fixed :: bool
  ip_tx_endpoint :: socket_addr
  ip_expected_source_ip :: ip_addr
  ip_multicast_group :: "u32 option"

record io_connection =
  ic_params :: io_connection_params
  ic_o2t_class1_seq :: u16
  ic_encap_seq :: u32
  ic_output :: bytes
  ic_run :: bool
  ic_next_produce_at :: instant
  ic_consecutive_send_errors :: u32
  ic_last_accepted_seq :: "u16 option"
  ic_up :: bool
  ic_watchdog_deadline :: instant
  ic_counters :: conn_counters

definition watchdog_timeout :: "duration \<Rightarrow> u32 \<Rightarrow> duration" where
  "watchdog_timeout t2o_api mult = unwrap_or (duration_checked_mul t2o_api mult) duration_max"

definition io_connection_new :: "io_connection_params \<Rightarrow> instant \<Rightarrow> io_connection" where
  "io_connection_new p now =
     \<lparr>ic_params = p, ic_o2t_class1_seq = 0, ic_encap_seq = 0, ic_output = [], ic_run = True,
      ic_next_produce_at = unwrap_or (instant_checked_add now (ip_o2t_api p)) now,
      ic_consecutive_send_errors = 0, ic_last_accepted_seq = None, ic_up = False,
      ic_watchdog_deadline =
        unwrap_or (instant_checked_add now (watchdog_timeout (ip_t2o_api p) (ip_timeout_multiplier p))) now,
      ic_counters = conn_counters_default\<rparr>"

definition set_output :: "bytes \<Rightarrow> io_connection \<Rightarrow> io_connection" where
  "set_output bs c = c\<lparr>ic_output := bs\<rparr>"

definition set_run :: "bool \<Rightarrow> io_connection \<Rightarrow> io_connection" where
  "set_run run c = c\<lparr>ic_run := run\<rparr>"

section \<open>Consume\<close>

datatype consume_outcome = Accepted bool io_update | Dropped drop_reason

definition count_size_mismatch :: "io_connection \<Rightarrow> io_connection" where
  "count_size_mismatch c =
     c\<lparr>ic_counters := (ic_counters c)\<lparr>cc_size_mismatch := cc_size_mismatch (ic_counters c) + 1\<rparr>\<rparr>"

definition count_stale_frame :: "io_connection \<Rightarrow> io_connection" where
  "count_stale_frame c =
     c\<lparr>ic_counters := (ic_counters c)\<lparr>cc_stale_frames := cc_stale_frames (ic_counters c) + 1\<rparr>\<rparr>"

definition count_gap :: "u64 \<Rightarrow> io_connection \<Rightarrow> io_connection" where
  "count_gap gap c =
     c\<lparr>ic_counters := (ic_counters c)\<lparr>cc_sequence_gaps := cc_sequence_gaps (ic_counters c) + gap\<rparr>\<rparr>"

text \<open>
  The sequence rule: \<open>None\<close> is the stale drop. The difference wraps at 16 bits and is read as signed.
\<close>

definition accept_sequence :: "u16 option \<Rightarrow> io_connection \<Rightarrow> io_connection option" where
  "accept_sequence sequence c =
     (case sequence of
        None \<Rightarrow> Some c
      | Some seq \<Rightarrow>
          (case ic_last_accepted_seq c of
             None \<Rightarrow> Some (c\<lparr>ic_last_accepted_seq := Some seq\<rparr>)
           | Some prev \<Rightarrow>
               (let delta = seq - prev in
                if sint delta \<le> 0 then None
                else
                  let c = (if sint delta > 1 then count_gap (of_nat (unat delta - 1)) c else c)
                  in Some (c\<lparr>ic_last_accepted_seq := Some seq\<rparr>))))"

definition consume :: "bytes \<Rightarrow> u32 \<Rightarrow> instant \<Rightarrow> io_connection \<Rightarrow> consume_outcome \<times> io_connection" where
  "consume payload encap_sequence now c =
     (case io_frame_decode (ip_t2o_format (ic_params c)) payload of
        Inl _ \<Rightarrow> (Dropped SizeMismatch, count_size_mismatch c)
      | Inr frame \<Rightarrow>
          (let len = length (if_data frame);
               bad = (if ip_t2o_fixed (ic_params c) then len \<noteq> ip_t2o_data_size (ic_params c)
                      else len > ip_t2o_data_size (ic_params c))
           in if bad then (Dropped SizeMismatch, count_size_mismatch c)
              else
                case accept_sequence (if_sequence frame) c of
                  None \<Rightarrow> (Dropped Stale, count_stale_frame c)
                | Some c \<Rightarrow>
                    (Accepted (\<not> ic_up c)
                       \<lparr>iu_data = if_data frame, iu_sequence = unwrap_or (if_sequence frame) 0,
                        iu_encap_sequence = encap_sequence, iu_run_mode = unwrap_or (if_run_mode frame) True,
                        iu_received_at = now\<rparr>,
                     c\<lparr>ic_up := True,
                       ic_watchdog_deadline :=
                         unwrap_or (instant_checked_add now (watchdog_timeout (ip_t2o_api (ic_params c))
                           (ip_timeout_multiplier (ic_params c)))) now,
                       ic_counters := (ic_counters c)\<lparr>cc_frames_accepted := cc_frames_accepted (ic_counters c) + 1\<rparr>\<rparr>)))"

section \<open>Produce\<close>

definition produce_frame :: "io_connection \<Rightarrow> (enip_error + bytes) \<times> io_connection" where
  "produce_frame c =
     (let c = c\<lparr>ic_encap_seq := ic_encap_seq c + 1, ic_o2t_class1_seq := ic_o2t_class1_seq c + 1\<rparr>;
          c = (if ic_o2t_class1_seq c = 0 then c\<lparr>ic_o2t_class1_seq := 1\<rparr> else c);
          fmt = ip_o2t_format (ic_params c);
          data = (if carries_data fmt then ic_output c else []);
          frame = \<lparr>if_sequence = if has_sequence fmt then Some (ic_o2t_class1_seq c) else None,
                   if_run_mode = if has_header fmt then Some (ic_run c) else None,
                   if_data = data\<rparr>;
          payload = io_frame_encode frame fmt;
          seq_addr = \<lparr>sa_connection_id = ip_o2t_connection_id (ic_params c), sa_encap_sequence = ic_encap_seq c\<rparr>;
          items = [cpf_item_new SequencedAddressItem (sequenced_address_encode seq_addr), connected_data payload]
      in (map_err EMalformed (cpf_encode items), c))"

text \<open>
  \<^verbatim>\<open>poll_produce\<close>: the catch-up is arithmetic. The nanosecond counts are far below the \<^verbatim>\<open>u128\<close> they
  are held in; the conversions to \<^verbatim>\<open>u64\<close> and \<^verbatim>\<open>u32\<close> are checked as written.
\<close>

definition u64_saturating :: "nat \<Rightarrow> u64" where
  "u64_saturating n = (if n < 2 ^ 64 then of_nat n else - 1)"

definition poll_produce :: "instant \<Rightarrow> io_connection \<Rightarrow> (enip_error + bytes) option \<times> io_connection" where
  "poll_produce now c =
     (if now < ic_next_produce_at c then (None, c)
      else
        let period = max (ip_o2t_api (ic_params c)) (from_nanos 1);
            elapsed = saturating_duration_since now (ic_next_produce_at c);
            skipped = elapsed div max period 1;
            counted = (if ip_o2t_api (ic_params c) = 0 then min skipped 1 else skipped);
            c = (if counted > 0
                 then c\<lparr>ic_counters := (ic_counters c)\<lparr>cc_produce_overruns :=
                          cc_produce_overruns (ic_counters c) + u64_saturating counted\<rparr>\<rparr>
                 else c);
            rearmed = Option.bind (u32_try_from (skipped + 1)) (\<lambda>steps.
                      Option.bind (duration_checked_mul period steps) (\<lambda>delta.
                      instant_checked_add (ic_next_produce_at c) delta));
            c = c\<lparr>ic_next_produce_at :=
                    (case rearmed of
                       Some t \<Rightarrow> t
                     | None \<Rightarrow> unwrap_or (instant_checked_add now period) now)\<rparr>
        in (case produce_frame c of (r, c) \<Rightarrow> (Some r, c)))"

fun record_send :: "(io_error_kind + unit) \<Rightarrow> io_connection \<Rightarrow> send_outcome \<times> io_connection" where
  "record_send (Inr _) c =
     (Sent, c\<lparr>ic_counters := (ic_counters c)\<lparr>cc_frames_produced := cc_frames_produced (ic_counters c) + 1\<rparr>,
              ic_consecutive_send_errors := 0\<rparr>)"
| "record_send (Inl kind) c =
     (let c = c\<lparr>ic_counters := (ic_counters c)\<lparr>cc_send_errors := cc_send_errors (ic_counters c) + 1\<rparr>\<rparr>
      in if is_per_datagram_error kind then (SendDropped, c)
         else
           let c = c\<lparr>ic_consecutive_send_errors := saturating_add_u32 (ic_consecutive_send_errors c) 1\<rparr>
           in (if ic_consecutive_send_errors c \<ge> MAX_CONSECUTIVE_SEND_ERRORS then ConnectionDead
               else SendDropped, c))"

definition poll_watchdog :: "instant \<Rightarrow> io_connection \<Rightarrow> bool" where
  "poll_watchdog now c \<longleftrightarrow> now \<ge> ic_watchdog_deadline c"

section \<open>Routing\<close>

record registry =
  rg_conns :: "u32 \<rightharpoonup> io_connection"
  rg_stats :: manager_counters

datatype routed = RoutedAccepted u32 bool io_update | RoutedDropped "u32 option" drop_reason

definition count_malformed :: "registry \<Rightarrow> registry" where
  "count_malformed g =
     g\<lparr>rg_stats := (rg_stats g)\<lparr>mc_malformed_frames := mc_malformed_frames (rg_stats g) + 1\<rparr>\<rparr>"

definition consume_datagram :: "bytes \<Rightarrow> ip_addr \<Rightarrow> instant \<Rightarrow> registry \<Rightarrow> routed \<times> registry" where
  "consume_datagram buf src_ip now g =
     (case cpf_decode buf of
        Inl _ \<Rightarrow> (RoutedDropped None DropMalformed, count_malformed g)
      | Inr cpf \<Rightarrow>
          (case (cpf_find cpf SequencedAddressItem, cpf_find cpf ConnectedData) of
             (Some addr_item, Some data_item) \<Rightarrow>
               (case sequenced_address_decode (ci_data addr_item) of
                  Inl _ \<Rightarrow> (RoutedDropped None DropMalformed, count_malformed g)
                | Inr addr \<Rightarrow>
                    (let cid = sa_connection_id addr in
                     case rg_conns g cid of
                       None \<Rightarrow>
                         (RoutedDropped (Some cid) UnknownConnection,
                          g\<lparr>rg_stats := (rg_stats g)\<lparr>mc_unknown_connection := mc_unknown_connection (rg_stats g) + 1\<rparr>\<rparr>)
                     | Some conn \<Rightarrow>
                         if src_ip \<noteq> ip_expected_source_ip (ic_params conn)
                         then (RoutedDropped (Some cid) SourceMismatch,
                               g\<lparr>rg_stats := (rg_stats g)\<lparr>mc_source_mismatch_datagrams :=
                                   mc_source_mismatch_datagrams (rg_stats g) + 1\<rparr>\<rparr>)
                         else
                           (case consume (ci_data data_item) (sa_encap_sequence addr) now conn of
                              (out, conn) \<Rightarrow>
                                (case out of
                                   Accepted first update \<Rightarrow> RoutedAccepted cid first update
                                 | Dropped reason \<Rightarrow> RoutedDropped (Some cid) reason,
                                 g\<lparr>rg_conns := (rg_conns g)(cid \<mapsto> conn)\<rparr>))))
           | _ \<Rightarrow> (RoutedDropped None DropMalformed, count_malformed g)))"

section \<open>The sequence window\<close>

definition forward :: "u16 \<Rightarrow> u16 \<Rightarrow> bool" where
  "forward p q \<longleftrightarrow> 0 < sint (q - p)"

definition refreshed :: "instant \<Rightarrow> io_connection_params \<Rightarrow> instant" where
  "refreshed now p =
     unwrap_or (instant_checked_add now (watchdog_timeout (ip_t2o_api p) (ip_timeout_multiplier p))) now"

lemma sint_one: "\<not> sint (d :: u16) \<le> 0 \<Longrightarrow> \<not> 1 < sint d \<Longrightarrow> unat d = 1"
proof -
  assume "\<not> sint d \<le> 0" "\<not> 1 < sint d"
  then have "sint d = sint (1 :: u16)" by simp
  then have "d = 1" by (rule signed_word_eqI)
  then show "unat d = 1" by simp
qed

lemma count_gap_0 [simp]: "count_gap 0 c = c"
  by (simp add: count_gap_def)

text \<open>The part of the state that the sequence rule touches, before and after.\<close>

lemma accept_sequence_Some:
  assumes "accept_sequence (Some seq) c = Some c'"
  shows "(\<forall>p. ic_last_accepted_seq c = Some p \<longrightarrow> forward p seq) \<and>
    c' = count_gap (case ic_last_accepted_seq c of None \<Rightarrow> 0 | Some p \<Rightarrow> of_nat (unat (seq - p) - 1)) c
           \<lparr>ic_last_accepted_seq := Some seq\<rparr>"
proof (cases "ic_last_accepted_seq c")
  case None
  then show ?thesis using assms by (simp add: accept_sequence_def)
next
  case (Some p)
  then have fwd: "\<not> sint (seq - p) \<le> 0"
    and eq: "c' = (if 1 < sint (seq - p) then count_gap (of_nat (unat (seq - p) - 1)) c else c)
                    \<lparr>ic_last_accepted_seq := Some seq\<rparr>"
    using assms by (auto simp: accept_sequence_def Let_def split: if_splits)
  show ?thesis
  proof (cases "1 < sint (seq - p)")
    case False
    then show ?thesis using Some fwd eq sint_one [OF fwd] by (simp add: forward_def)
  qed (use Some fwd eq in \<open>simp add: forward_def\<close>)
qed

text \<open>What one call may do to the connection.\<close>

definition size_ok :: "io_connection_params \<Rightarrow> bytes \<Rightarrow> bool" where
  "size_ok p data \<longleftrightarrow>
     (if ip_t2o_fixed p then length data = ip_t2o_data_size p else length data \<le> ip_t2o_data_size p)"

definition accepts :: "io_connection_params \<Rightarrow> u16 option \<Rightarrow> bytes \<Rightarrow> io_frame \<Rightarrow> bool" where
  "accepts p prev payload f \<longleftrightarrow>
     io_frame_decode (ip_t2o_format p) payload = Inr f \<and> size_ok p (if_data f) \<and>
     (\<forall>s l. if_sequence f = Some s \<longrightarrow> prev = Some l \<longrightarrow> forward l s)"

lemma accept_sequence_None_iff:
  "accept_sequence sq c = None \<longleftrightarrow> (\<exists>s l. sq = Some s \<and> ic_last_accepted_seq c = Some l \<and> \<not> forward l s)"
  by (auto simp: accept_sequence_def forward_def Let_def split: option.splits)

lemma accept_sequence_keeps:
  "accept_sequence sq c = Some c' \<Longrightarrow> ic_up c' = ic_up c \<and> ic_params c' = ic_params c \<and>
     cc_frames_accepted (ic_counters c') = cc_frames_accepted (ic_counters c)"
  by (auto simp: accept_sequence_def count_gap_def Let_def split: option.splits if_splits)

lemma consume_accepts:
  assumes "accepts (ic_params c) (ic_last_accepted_seq c) payload f"
  shows "\<exists>c1. accept_sequence (if_sequence f) c = Some c1 \<and>
    consume payload es now c =
      (Accepted (\<not> ic_up c)
         \<lparr>iu_data = if_data f, iu_sequence = unwrap_or (if_sequence f) 0, iu_encap_sequence = es,
          iu_run_mode = unwrap_or (if_run_mode f) True, iu_received_at = now\<rparr>,
       c1\<lparr>ic_up := True, ic_watchdog_deadline := refreshed now (ic_params c),
         ic_counters := (ic_counters c1)\<lparr>cc_frames_accepted := cc_frames_accepted (ic_counters c) + 1\<rparr>\<rparr>)"
proof -
  have "accept_sequence (if_sequence f) c \<noteq> None"
    using assms by (auto simp: accept_sequence_None_iff accepts_def)
  then obtain c1 where "accept_sequence (if_sequence f) c = Some c1" by auto
  with accept_sequence_keeps [OF this] assms show ?thesis
    by (auto simp: consume_def accepts_def size_ok_def Let_def refreshed_def)
qed

lemma consume_drops:
  assumes "\<And>f. \<not> accepts (ic_params c) (ic_last_accepted_seq c) payload f"
  shows "consume payload es now c = (Dropped SizeMismatch, count_size_mismatch c) \<or>
    consume payload es now c = (Dropped Stale, count_stale_frame c)"
proof (cases "io_frame_decode (ip_t2o_format (ic_params c)) payload")
  case (Inr f)
  then show ?thesis
    using assms [of f] accept_sequence_None_iff [of "if_sequence f" c]
    by (auto simp: consume_def accepts_def size_ok_def Let_def split: option.splits)
qed (simp add: consume_def)

text \<open>
  The consume gauntlet. A payload is delivered exactly when it decodes under the negotiated
  format, fits the negotiated size and, where it has a sequence count and one was accepted before,
  lies in the signed forward window; the sample is then the payload's own data, the watchdog is
  re-armed and the link is up. Every other payload changes one drop counter and nothing else: it
  neither moves the window nor feeds the watchdog.
\<close>

theorem consume_gauntlet:
  "case consume payload es now c of
     (Accepted first u, c') \<Rightarrow>
       (\<exists>f. accepts (ic_params c) (ic_last_accepted_seq c) payload f \<and> iu_data u = if_data f) \<and>
       first = (\<not> ic_up c) \<and> ic_up c' \<and> ic_watchdog_deadline c' = refreshed now (ic_params c)
   | (Dropped r, c') \<Rightarrow>
       (\<nexists>f. accepts (ic_params c) (ic_last_accepted_seq c) payload f) \<and>
       (r = SizeMismatch \<and> c' = count_size_mismatch c \<or> r = Stale \<and> c' = count_stale_frame c)"
proof (cases "\<exists>f. accepts (ic_params c) (ic_last_accepted_seq c) payload f")
  case True
  then obtain f where f: "accepts (ic_params c) (ic_last_accepted_seq c) payload f" by blast
  with consume_accepts [OF f, of es now] show ?thesis by (auto intro!: exI [of _ f])
next
  case False
  with consume_drops [of c payload es now] show ?thesis by auto
qed

section \<open>A stream of frames\<close>

primrec consume_all :: "(bytes \<times> u32 \<times> instant) list \<Rightarrow> io_connection \<Rightarrow> io_update list \<times> io_connection" where
  "consume_all [] c = ([], c)"
| "consume_all (x # xs) c =
     (case x of (payload, es, now) \<Rightarrow>
        (case consume payload es now c of
           (Accepted _ u, c) \<Rightarrow> (case consume_all xs c of (us, c) \<Rightarrow> (u # us, c))
         | (Dropped _, c) \<Rightarrow> consume_all xs c))"

text \<open>
  The reference for the window: consecutive accepted counts move forward by less than half the
  16-bit circle, and what lies between them was missed.
\<close>

fun seq_chain :: "u16 option \<Rightarrow> u16 list \<Rightarrow> bool" where
  "seq_chain prev [] \<longleftrightarrow> True"
| "seq_chain prev (s # ss) \<longleftrightarrow> (case prev of None \<Rightarrow> True | Some p \<Rightarrow> forward p s) \<and> seq_chain (Some s) ss"

fun seq_missed :: "u16 option \<Rightarrow> u16 list \<Rightarrow> nat" where
  "seq_missed prev [] = 0"
| "seq_missed prev (s # ss) =
     (case prev of None \<Rightarrow> 0 | Some p \<Rightarrow> unat (s - p) - 1) + seq_missed (Some s) ss"

lemma consume_all_account:
  "has_sequence (ip_t2o_format (ic_params c)) \<Longrightarrow> \<forall>(payload, _, _) \<in> set xs. length payload \<le> isize_max \<Longrightarrow>
   consume_all xs c = (us, c') \<Longrightarrow>
     seq_chain (ic_last_accepted_seq c) (map iu_sequence us) \<and>
     cc_sequence_gaps (ic_counters c') =
       cc_sequence_gaps (ic_counters c) + of_nat (seq_missed (ic_last_accepted_seq c) (map iu_sequence us)) \<and>
     cc_frames_accepted (ic_counters c') = cc_frames_accepted (ic_counters c) + of_nat (length us) \<and>
     cc_frames_accepted (ic_counters c') + cc_size_mismatch (ic_counters c') + cc_stale_frames (ic_counters c') =
       cc_frames_accepted (ic_counters c) + cc_size_mismatch (ic_counters c) + cc_stale_frames (ic_counters c) +
       of_nat (length xs) \<and>
     ic_watchdog_deadline c' =
       (if us = [] then ic_watchdog_deadline c else refreshed (iu_received_at (last us)) (ic_params c))"
proof (induction xs arbitrary: c us)
  case (Cons x xs)
  obtain payload es now where x: "x = (payload, es, now)" by (cases x)
  show ?case
  proof (cases "\<exists>f. accepts (ic_params c) (ic_last_accepted_seq c) payload f")
    case False
    then have "consume payload es now c = (Dropped SizeMismatch, count_size_mismatch c) \<or>
        consume payload es now c = (Dropped Stale, count_stale_frame c)"
      using consume_drops by blast
    then show ?thesis
      using Cons.IH [of "count_size_mismatch c" us] Cons.IH [of "count_stale_frame c" us] Cons.prems x
      by (auto simp: count_size_mismatch_def count_stale_frame_def)
  next
    case True
    then obtain f where f: "accepts (ic_params c) (ic_last_accepted_seq c) payload f" by blast
    obtain s where s: "if_sequence f = Some s"
      using f io_frame_decode_ok [of payload "ip_t2o_format (ic_params c)"] Cons.prems x
      by (auto simp: accepts_def io_frame_conforms_def)
    from consume_accepts [OF f, of es now] obtain c1 where c1:
      "accept_sequence (Some s) c = Some c1"
      "consume payload es now c =
         (Accepted (\<not> ic_up c)
            \<lparr>iu_data = if_data f, iu_sequence = s, iu_encap_sequence = es,
             iu_run_mode = unwrap_or (if_run_mode f) True, iu_received_at = now\<rparr>,
          c1\<lparr>ic_up := True, ic_watchdog_deadline := refreshed now (ic_params c),
            ic_counters := (ic_counters c1)\<lparr>cc_frames_accepted := cc_frames_accepted (ic_counters c) + 1\<rparr>\<rparr>)"
      using s by auto
    let ?c2 = "snd (consume payload es now c)"
    obtain us1 where us1: "consume_all xs ?c2 = (us1, c')"
      "us = \<lparr>iu_data = if_data f, iu_sequence = s, iu_encap_sequence = es,
             iu_run_mode = unwrap_or (if_run_mode f) True, iu_received_at = now\<rparr> # us1"
      using Cons.prems(3) x c1(2) by (auto split: prod.splits)
    note acc = accept_sequence_Some [OF c1(1)]
    have c2: "ic_last_accepted_seq ?c2 = Some s" "ic_params ?c2 = ic_params c"
      "ic_watchdog_deadline ?c2 = refreshed now (ic_params c)"
      using c1(2) acc by (auto simp: count_gap_def)
    show ?thesis
      using Cons.IH [OF _ _ us1(1)] Cons.prems(1,2) c2 acc c1(2) us1(2)
      by (auto simp: count_gap_def split: option.splits)
  qed
qed simp

text \<open>
  C14. The accounts of a connection. Over any sequence of payloads from the opening of the
  connection, whatever they hold: the accepted counts form a forward chain (none twice in a row,
  none out of order), the gap counter is the number of counts missed between them, every payload
  is counted as accepted or as one kind of drop, and the watchdog stands at the last accepted
  payload.
\<close>

theorem consume_all_new:
  assumes "has_sequence (ip_t2o_format p)" "\<forall>(payload, _, _) \<in> set xs. length payload \<le> isize_max"
    and "consume_all xs (io_connection_new p start) = (us, c)"
  shows "seq_chain None (map iu_sequence us) \<and>
    cc_sequence_gaps (ic_counters c) = of_nat (seq_missed None (map iu_sequence us)) \<and>
    cc_frames_accepted (ic_counters c) = of_nat (length us) \<and>
    cc_frames_accepted (ic_counters c) + cc_size_mismatch (ic_counters c) + cc_stale_frames (ic_counters c) =
      of_nat (length xs) \<and>
    ic_watchdog_deadline c = refreshed (last (start # map iu_received_at us)) p"
proof -
  have "ic_params (io_connection_new p start) = p" "ic_last_accepted_seq (io_connection_new p start) = None"
    "ic_counters (io_connection_new p start) = conn_counters_default"
    "ic_watchdog_deadline (io_connection_new p start) = refreshed start p"
    by (simp_all add: io_connection_new_def refreshed_def)
  then show ?thesis
    using consume_all_account [of "io_connection_new p start" xs us c] assms
    by (auto simp: conn_counters_default_def last_map)
qed

definition example_params :: io_connection_params where
  "example_params =
     \<lparr>ip_o2t_connection_id = 0x11, ip_t2o_connection_id = 0x22, ip_o2t_api = 10, ip_t2o_api = 10,
      ip_timeout_multiplier = 4, ip_o2t_format = Modeless, ip_t2o_format = Modeless,
      ip_o2t_data_size = 1, ip_t2o_data_size = 1, ip_o2t_fixed = True, ip_t2o_fixed = True,
      ip_tx_endpoint = \<lparr>sk_ip = V4 1, sk_port = 2222\<rparr>, ip_expected_source_ip = V4 1,
      ip_multicast_group = None\<rparr>"

lemma example_decode:
  "io_frame_decode Modeless [lo, hi, b] = Inr \<lparr>if_sequence = Some (from_le_bytes [lo, hi]), if_run_mode = None, if_data = [b]\<rparr>"
  "io_frame_decode Modeless [b] = Inl (Truncated 2 1 ''io frame'')"
  by (simp_all add: io_frame_decode_def has_sequence_def has_header_def wire_simps)

theorem consume_all_new_witness:
  "\<exists>us c. consume_all [([1, 0, 7], 1, 100), ([3, 0, 8], 2, 110), ([3, 0, 9], 3, 120), ([5], 4, 130)]
       (io_connection_new example_params 0) = (us, c) \<and> map iu_data us = [[7], [8]] \<and>
     cc_sequence_gaps (ic_counters c) = 1 \<and> ic_watchdog_deadline c = 150"
proof -
  let ?xs = "[([1, 0, 7], 1, 100), ([3, 0, 8], 2, 110), ([3, 0, 9], 3, 120), ([5], 4, 130)] :: (bytes \<times> u32 \<times> instant) list"
  obtain us c where run: "consume_all ?xs (io_connection_new example_params 0) = (us, c)" by fastforce
  have us: "map iu_data us = [[7], [8]]" "map iu_sequence us = [1, 3]" "map iu_received_at us = [100, 110]"
    using run
    by (auto simp: io_connection_new_def example_params_def consume_def example_decode accept_sequence_def
        Let_def count_gap_def count_stale_frame_def count_size_mismatch_def)
  have "refreshed 110 example_params = 150"
    by (simp add: refreshed_def watchdog_timeout_def duration_checked_mul_def instant_checked_add_def
        example_params_def duration_max_def instant_max_def)
  moreover have "has_sequence (ip_t2o_format example_params)" by (simp add: example_params_def has_sequence_def)
  ultimately show ?thesis
    using consume_all_new [OF _ _ run] us run by auto
qed

section \<open>The produce schedule\<close>

text \<open>
  The reference is the loop that the arithmetic replaces: step the schedule by one period until it
  is past \<open>now\<close>, counting the ticks stepped over.
\<close>

function tick_loop :: "duration \<Rightarrow> instant \<Rightarrow> instant \<Rightarrow> nat \<Rightarrow> instant \<times> nat" where
  "tick_loop period now due skipped =
     (if period = 0 \<or> now < due + period then (due + period, skipped)
      else tick_loop period now (due + period) (skipped + 1))"
  by pat_completeness auto
termination
  by (relation "measure (\<lambda>(period, now, due, _). Suc now - due)") auto

declare tick_loop.simps [simp del]

lemma tick_loop_eq:
  "0 < period \<Longrightarrow> due \<le> now \<Longrightarrow>
     tick_loop period now due n =
       (due + ((now - due) div period + 1) * period, n + (now - due) div period)"
proof (induction period now due n rule: tick_loop.induct)
  case (1 period now due n)
  show ?case
  proof (cases "now < due + period")
    case True
    then have "(now - due) div period = 0" using 1(2,3) by (intro div_less) linarith
    then show ?thesis using True by (simp add: tick_loop.simps)
  next
    case False
    then have "(now - due) div period = Suc ((now - (due + period)) div period)"
      using 1(2) by (simp add: le_div_geq)
    then show ?thesis using 1 False by (simp add: tick_loop.simps [of period now due])
  qed
qed

lemma tick_bounds:
  assumes "0 < period" "due \<le> (now :: nat)"
  shows "now < due + ((now - due) div period + 1) * period" "due + ((now - due) div period + 1) * period \<le> now + period"
proof -
  let ?q = "(now - due) div period"
  have "?q * period + (now - due) mod period = now - due" by (rule div_mult_mod_eq)
  moreover have "(now - due) mod period < period" using assms(1) by simp
  moreover have "(?q + 1) * period = ?q * period + period" by simp
  ultimately show "now < due + (?q + 1) * period" "due + (?q + 1) * period \<le> now + period"
    using assms(2) by linarith+
qed

lemma produce_frame_keeps:
  "produce_frame c = (r, c') \<Longrightarrow> ic_next_produce_at c' = ic_next_produce_at c \<and>
     ic_counters c' = ic_counters c \<and> ic_params c' = ic_params c \<and> ic_output c' = ic_output c"
  by (auto simp: produce_frame_def Let_def)

definition count_overruns :: "nat \<Rightarrow> io_connection \<Rightarrow> io_connection" where
  "count_overruns n c =
     c\<lparr>ic_counters := (ic_counters c)\<lparr>cc_produce_overruns := cc_produce_overruns (ic_counters c) + u64_saturating n\<rparr>\<rparr>"

lemma u64_saturating_0: "u64_saturating 0 = 0"
  by (simp add: u64_saturating_def)

definition rearmed :: "duration \<Rightarrow> instant \<Rightarrow> nat \<Rightarrow> instant option" where
  "rearmed period due skipped =
     Option.bind (u32_try_from (skipped + 1)) (\<lambda>steps.
     Option.bind (duration_checked_mul period steps) (\<lambda>delta. instant_checked_add due delta))"

lemma poll_produce_due:
  fixes c now
  defines "period \<equiv> ip_o2t_api (ic_params c)" and "due \<equiv> ic_next_produce_at c"
  defines "skipped \<equiv> (now - due) div period"
  assumes "due \<le> now" "0 < period" "now + period \<le> instant_max"
  shows "poll_produce now c =
    (case produce_frame ((count_overruns skipped c)\<lparr>ic_next_produce_at :=
            (case rearmed period due skipped of Some t \<Rightarrow> t | None \<Rightarrow> now + period)\<rparr>) of
       (r, c) \<Rightarrow> (Some r, c))"
proof -
  have "max period (from_nanos 1) = period" "max period 1 = period" "instant_checked_add now period = Some (now + period)"
    using assms(5,6) by (simp_all add: from_nanos_def instant_checked_add_def)
  then have m: "max (ip_o2t_api (ic_params c)) (from_nanos (Suc 0)) = ip_o2t_api (ic_params c)"
    "max (ip_o2t_api (ic_params c)) (Suc 0) = ip_o2t_api (ic_params c)"
    "instant_checked_add now (ip_o2t_api (ic_params c)) = Some (now + ip_o2t_api (ic_params c))"
    by (simp_all add: period_def)
  show ?thesis
    using assms(4,5)
    by (cases "skipped = 0")
      (simp_all add: poll_produce_def Let_def m rearmed_def saturating_duration_since_def skipped_def period_def
        due_def count_overruns_def u64_saturating_0 cong: option.case_cong)
qed

lemma rearmed_eq:
  assumes "0 < period" "due \<le> now" "now + period \<le> instant_max"
  shows "rearmed period due ((now - due) div period) =
    (if (now - due) div period + 1 < 2 ^ 32 then Some (due + ((now - due) div period + 1) * period) else None)"
proof (cases "(now - due) div period + 1 < 2 ^ 32")
  case True
  let ?q = "(now - due) div period"
  have u: "unat (of_nat (?q + 1) :: u32) = ?q + 1" using True by (intro unat_of_nat_small) simp
  have le: "due + (?q + 1) * period \<le> instant_max" using tick_bounds(2) [OF assms(1,2)] assms(3) by linarith
  then have "(?q + 1) * period \<le> duration_max" by (simp add: instant_max_def duration_max_def)
  with True u le show ?thesis
    by (simp add: rearmed_def u32_try_from_def duration_checked_mul_def instant_checked_add_def mult.commute)
qed (simp add: rearmed_def u32_try_from_def)

text \<open>
  C15. The arithmetic catch-up is the per-tick loop. When a tick is due, exactly one frame is
  built, the overrun counter grows by the ticks the loop steps over, and the schedule is re-armed
  strictly after \<open>now\<close>; for a lapse of fewer than \<open>2 ^ 32\<close> periods it is re-armed exactly where
  the loop stops, so the phase is kept.
\<close>

theorem poll_produce_ticks:
  assumes "ic_next_produce_at c \<le> now" "0 < ip_o2t_api (ic_params c)"
    and "now + ip_o2t_api (ic_params c) \<le> instant_max"
    and "tick_loop (ip_o2t_api (ic_params c)) now (ic_next_produce_at c) 0 = (due, skipped)"
    and "poll_produce now c = (r, c')"
  shows "r \<noteq> None \<and> now < ic_next_produce_at c' \<and>
    cc_produce_overruns (ic_counters c') = cc_produce_overruns (ic_counters c) + u64_saturating skipped \<and>
    (2 ^ 32 \<le> skipped + 1 \<or> ic_next_produce_at c' = due)"
proof -
  let ?p = "ip_o2t_api (ic_params c)" and ?t = "ic_next_produce_at c"
  have due: "due = ?t + ((now - ?t) div ?p + 1) * ?p" and sk: "skipped = (now - ?t) div ?p"
    using tick_loop_eq [OF assms(2,1), of 0] assms(4) by auto
  obtain r1 where "r = Some r1" and r1: "produce_frame ((count_overruns skipped c)\<lparr>ic_next_produce_at :=
      (case rearmed ?p ?t skipped of Some t \<Rightarrow> t | None \<Rightarrow> now + ?p)\<rparr>) = (r1, c')"
    using poll_produce_due [OF assms(1-3)] assms(5) by (auto simp: sk split: prod.splits)
  moreover have "rearmed ?p ?t skipped = (if skipped + 1 < 2 ^ 32 then Some due else None)"
    using rearmed_eq [OF assms(2,1,3)] by (simp only: due sk)
  ultimately show ?thesis
    using produce_frame_keeps [OF r1] tick_bounds(1) [OF assms(2,1), folded due] assms(2)
    by (cases "skipped + 1 < 2 ^ 32") (simp_all add: count_overruns_def)
qed

theorem poll_produce_ticks_witness:
  "\<exists>r c'. poll_produce 55 (io_connection_new example_params 0) = (r, c') \<and>
     ic_next_produce_at c' = 60 \<and> cc_produce_overruns (ic_counters c') = 4"
proof -
  obtain r c' where poll: "poll_produce 55 (io_connection_new example_params 0) = (r, c')" by fastforce
  have "tick_loop 10 55 10 0 = (60, 4)" by (simp add: tick_loop_eq)
  with poll_produce_ticks [OF _ _ _ _ poll, of 60 4] show ?thesis
    using poll by (simp add: io_connection_new_def example_params_def instant_checked_add_def instant_max_def
        conn_counters_default_def u64_saturating_def)
qed

section \<open>From producer to consumer\<close>

definition next_class1_seq :: "u16 \<Rightarrow> u16" where
  "next_class1_seq s = (if s + 1 = 0 then 1 else s + 1)"

lemma next_class1_forward: "forward s (next_class1_seq s)"
proof (cases "s + 1 = 0")
  case True
  then have "s = - 1" by (simp add: eq_neg_iff_add_eq_0)
  then show ?thesis by (simp add: forward_def next_class1_seq_def)
qed (simp add: forward_def next_class1_seq_def)

text \<open>The datagram a connection produces and the state it leaves.\<close>

definition produced_frame :: "io_connection \<Rightarrow> io_frame" where
  "produced_frame c =
     (let fmt = ip_o2t_format (ic_params c) in
      \<lparr>if_sequence = if has_sequence fmt then Some (next_class1_seq (ic_o2t_class1_seq c)) else None,
       if_run_mode = if has_header fmt then Some (ic_run c) else None,
       if_data = if carries_data fmt then ic_output c else []\<rparr>)"

definition produced_items :: "io_connection \<Rightarrow> cpf" where
  "produced_items c =
     [cpf_item_new SequencedAddressItem (sequenced_address_encode
        \<lparr>sa_connection_id = ip_o2t_connection_id (ic_params c), sa_encap_sequence = ic_encap_seq c + 1\<rparr>),
      connected_data (io_frame_encode (produced_frame c) (ip_o2t_format (ic_params c)))]"

lemma produce_frame_eq:
  "produce_frame c =
     (map_err EMalformed (cpf_encode (produced_items c)),
      c\<lparr>ic_encap_seq := ic_encap_seq c + 1, ic_o2t_class1_seq := next_class1_seq (ic_o2t_class1_seq c)\<rparr>)"
  by (simp add: produce_frame_def produced_items_def produced_frame_def next_class1_seq_def Let_def)

lemma produced_conforms: "io_frame_conforms (ip_o2t_format (ic_params c)) (produced_frame c)"
  by (simp add: io_frame_conforms_def produced_frame_def Let_def)

lemma overhead_le: "overhead fmt \<le> 6"
  by (simp add: overhead_def Let_def)

lemma produced_decode:
  assumes "length (ic_output c) \<le> 65529"
  obtains bs where "fst (produce_frame c) = Inr bs" "cpf_decode bs = Inr (produced_items c)"
proof -
  have len: "length (io_frame_encode (produced_frame c) (ip_o2t_format (ic_params c))) < 65536"
    using assms overhead_le [of "ip_o2t_format (ic_params c)"] by (simp add: produced_frame_def Let_def)
  then have wf: "wf_cpf (produced_items c)"
    by (simp add: produced_items_def wf_cpf_def wf_cpf_item_def cpf_item_new_def connected_data_def
        item_type_from_code_def sequenced_address_encode_def writer_defs)
  obtain bs where bs: "cpf_encode (produced_items c) = Inr bs" "length bs \<le> 8589934592"
    using cpf_encode_wf [OF wf] len
    by (simp add: produced_items_def cpf_item_bytes_def connected_data_def cpf_item_new_def
        sequenced_address_encode_def writer_defs)
  then have "cpf_decode bs = Inr (produced_items c)" by (intro cpf_decode_encode [OF wf]) simp_all
  with bs(1) that show ?thesis by (simp add: produce_frame_eq)
qed

text \<open>
  A producing connection and a registry that holds its consuming peer: same connection id and
  format, the expected source, and a window that stands where the producer stands.
\<close>

definition linked :: "io_connection \<Rightarrow> ip_addr \<Rightarrow> registry \<Rightarrow> bool" where
  "linked c src g \<longleftrightarrow>
     (case rg_conns g (ip_o2t_connection_id (ic_params c)) of
        None \<Rightarrow> False
      | Some d \<Rightarrow>
          ip_t2o_format (ic_params d) = ip_o2t_format (ic_params c) \<and>
          ip_expected_source_ip (ic_params d) = src \<and>
          (ic_last_accepted_seq d = None \<or> ic_last_accepted_seq d = Some (ic_o2t_class1_seq c)))"

definition peer_params :: "io_connection \<Rightarrow> registry \<Rightarrow> io_connection_params option" where
  "peer_params c g = map_option ic_params (rg_conns g (ip_o2t_connection_id (ic_params c)))"

definition relay_one :: "ip_addr \<Rightarrow> bytes \<Rightarrow> instant \<Rightarrow> io_connection \<Rightarrow> registry \<Rightarrow> (u32 \<times> bytes) option \<times> io_connection \<times> registry" where
  "relay_one src out now c g =
     (case produce_frame (set_output out c) of
        (Inl _, c) \<Rightarrow> (None, c, g)
      | (Inr bs, c) \<Rightarrow>
          (case consume_datagram bs src now g of
             (RoutedAccepted cid _ u, g) \<Rightarrow> (Some (cid, iu_data u), c, g)
           | (RoutedDropped _ _, g) \<Rightarrow> (None, c, g)))"

primrec relay :: "ip_addr \<Rightarrow> (bytes \<times> instant) list \<Rightarrow> io_connection \<Rightarrow> registry \<Rightarrow> (u32 \<times> bytes) option list" where
  "relay src [] c g = []"
| "relay src (x # xs) c g =
     (case relay_one src (fst x) (snd x) c g of (r, c, g) \<Rightarrow> r # relay src xs c g)"

lemma relay_one_linked:
  assumes "linked c src g" "peer_params c g = Some p" "carries_data (ip_o2t_format (ic_params c))"
    and "length out \<le> 65529" "size_ok p out"
  shows "\<exists>c' g'. relay_one src out now c g = (Some (ip_o2t_connection_id (ic_params c), out), c', g') \<and>
    linked c' src g' \<and> peer_params c' g' = Some p \<and> ic_params c' = ic_params c"
proof -
  let ?c = "set_output out c" and ?id = "ip_o2t_connection_id (ic_params c)"
  obtain d where d: "rg_conns g ?id = Some d" "ic_params d = p" "ip_t2o_format p = ip_o2t_format (ic_params c)"
    "ip_expected_source_ip p = src" "ic_last_accepted_seq d = None \<or> ic_last_accepted_seq d = Some (ic_o2t_class1_seq c)"
    using assms(1,2) by (auto simp: linked_def peer_params_def split: option.splits)
  have c: "ic_params ?c = ic_params c" "ic_o2t_class1_seq ?c = ic_o2t_class1_seq c" "ic_output ?c = out"
    by (simp_all add: set_output_def)
  obtain bs where bs: "fst (produce_frame ?c) = Inr bs" "cpf_decode bs = Inr (produced_items ?c)"
    using produced_decode [of ?c] assms(4) c by auto
  let ?f = "produced_frame ?c"
  have f: "if_data ?f = out" "if_sequence ?f = Some (next_class1_seq (ic_o2t_class1_seq c))"
    using assms(3) c by (auto simp: produced_frame_def Let_def carries_data_def has_sequence_def)
  have "io_frame_decode (ip_o2t_format (ic_params c)) (io_frame_encode ?f (ip_o2t_format (ic_params c))) = Inr ?f"
    using produced_conforms [of ?c] assms(4) f(1) c by (intro io_frame_round) auto
  then have acc: "accepts (ic_params d) (ic_last_accepted_seq d) (io_frame_encode ?f (ip_o2t_format (ic_params c))) ?f"
    using d assms(5) f next_class1_forward by (auto simp: accepts_def)
  from consume_accepts [OF acc, of "ic_encap_seq ?c + 1" now] f(2) obtain c1 where c1:
    "accept_sequence (Some (next_class1_seq (ic_o2t_class1_seq c))) d = Some c1"
    "consume (io_frame_encode ?f (ip_o2t_format (ic_params c))) (ic_encap_seq ?c + 1) now d =
      (Accepted (\<not> ic_up d)
         \<lparr>iu_data = if_data ?f, iu_sequence = unwrap_or (if_sequence ?f) 0, iu_encap_sequence = ic_encap_seq ?c + 1,
          iu_run_mode = unwrap_or (if_run_mode ?f) True, iu_received_at = now\<rparr>,
       c1\<lparr>ic_up := True, ic_watchdog_deadline := refreshed now (ic_params d),
         ic_counters := (ic_counters c1)\<lparr>cc_frames_accepted := cc_frames_accepted (ic_counters d) + 1\<rparr>\<rparr>)"
    by auto
  have "ic_last_accepted_seq c1 = Some (next_class1_seq (ic_o2t_class1_seq c))" "ic_params c1 = ic_params d"
    using accept_sequence_Some [OF c1(1)] by (simp_all add: count_gap_def)
  then show ?thesis
    using bs c1(2) d c f(1)
    by (auto simp: relay_one_def produce_frame_eq consume_datagram_def produced_items_def cpf_find_def
        cpf_item_new_def connected_data_def Let_def linked_def peer_params_def split: prod.splits)
qed

text \<open>
  C16. From producer to consumer. Over a link that loses nothing, every output that fits the
  negotiated size and a datagram is delivered to the peer of that connection, unchanged and in
  order, for any number of frames: the wrap of the class 1 count, which skips zero, is accepted.
\<close>

theorem relay_delivers:
  assumes "linked c src g" "peer_params c g = Some p" "carries_data (ip_o2t_format (ic_params c))"
    and "\<forall>(out, _) \<in> set xs. length out \<le> 65529 \<and> size_ok p out"
  shows "relay src xs c g = map (\<lambda>(out, _). Some (ip_o2t_connection_id (ic_params c), out)) xs"
  using assms
proof (induction xs arbitrary: c g)
  case (Cons x xs)
  obtain out now where x: "x = (out, now)" by fastforce
  from relay_one_linked [OF Cons.prems(1-3), of out now] Cons.prems(4) x obtain c' g' where
    "relay_one src out now c g = (Some (ip_o2t_connection_id (ic_params c), out), c', g')"
    "linked c' src g'" "peer_params c' g' = Some p" "ic_params c' = ic_params c" by auto
  then show ?case using Cons.IH [of c' g'] Cons.prems(3,4) x by auto
qed simp

definition example_registry :: registry where
  "example_registry =
     \<lparr>rg_conns = [0x11 \<mapsto> io_connection_new example_params 0],
      rg_stats = \<lparr>mc_malformed_frames = 0, mc_unknown_connection = 0, mc_recv_errors = 0,
                  mc_source_mismatch_datagrams = 0\<rparr>\<rparr>"

theorem relay_delivers_witness:
  "relay (V4 1) [([7], 10), ([8], 20)] ((io_connection_new example_params 0)\<lparr>ic_o2t_class1_seq := 0xFFFF\<rparr>)
     example_registry = [Some (0x11, [7]), Some (0x11, [8])]"
proof -
  let ?c = "(io_connection_new example_params 0)\<lparr>ic_o2t_class1_seq := 0xFFFF\<rparr>"
  have "linked ?c (V4 1) example_registry" "peer_params ?c example_registry = Some example_params"
    "carries_data (ip_o2t_format (ic_params ?c))"
    by (simp_all add: linked_def peer_params_def example_registry_def io_connection_new_def example_params_def carries_data_def)
  from relay_delivers [OF this, of "[([7], 10), ([8], 20)]"] show ?thesis
    by (simp add: size_ok_def example_params_def io_connection_new_def)
qed

lemma consume_params: "consume payload es now c = (out, c') \<Longrightarrow> ic_params c' = ic_params c"
  by (auto simp: consume_def count_size_mismatch_def count_stale_frame_def Let_def dest!: accept_sequence_keeps
      split: sum.splits option.splits if_splits)

lemma consume_datagram_conns:
  "consume_datagram buf src now g = (r, g') \<Longrightarrow>
     map_option ic_params (rg_conns g' i) = map_option ic_params (rg_conns g i)"
  by (auto simp: consume_datagram_def count_malformed_def Let_def dest: consume_params
      split: sum.splits option.splits prod.splits if_splits)

lemma record_send_keeps:
  "record_send res c = (out, c') \<Longrightarrow> ic_params c' = ic_params c \<and> ic_watchdog_deadline c' = ic_watchdog_deadline c"
  by (cases "(res, c)" rule: record_send.cases) (auto simp: Let_def split: if_splits)

lemma poll_produce_keeps:
  "poll_produce now c = (r, c') \<Longrightarrow> ic_params c' = ic_params c \<and> ic_watchdog_deadline c' = ic_watchdog_deadline c"
  by (auto simp: poll_produce_def produce_frame_eq Let_def split: if_splits)

text \<open>
  Isolation. A datagram changes at most one connection, the one whose id it carries and whose
  target it came from; in particular a datagram from any other address leaves every connection as
  it was, its window and its watchdog included.
\<close>

theorem consume_datagram_isolates:
  "case consume_datagram buf src now g of (r, g') \<Rightarrow>
     \<forall>cid. rg_conns g' cid = rg_conns g cid \<or>
       (\<exists>conn payload es out. rg_conns g cid = Some conn \<and> ip_expected_source_ip (ic_params conn) = src \<and>
          consume payload es now conn = (out, the (rg_conns g' cid)) \<and>
          r = (case out of Accepted first u \<Rightarrow> RoutedAccepted cid first u
               | Dropped reason \<Rightarrow> RoutedDropped (Some cid) reason))"
  by (auto simp: consume_datagram_def count_malformed_def Let_def
      split: sum.splits option.splits prod.splits if_splits)


end
