(* ===== verification/Io_Manager.thy ===== *)
theory Io_Manager
  imports Io_Connection Step_System
begin

text \<open>
  The socket task of the class 1 manager, \<^verbatim>\<open>manager_task\<close> of \<^verbatim>\<open>crates/enip/src/io.rs\<close>, with its
  helpers. One turn of the loop is one step: a command, a datagram or a receive error, or a
  scheduler tick. What the socket answers (the join of a group, the sends of a tick) and the clock
  are part of the input. The iteration order of the hash map is the list \<open>ids\<close> of an input.

  A connection's event queue has two ends. While the manager holds the sender the queue is in
  \<open>mg_events\<close>; when the sender is dropped the queue moves, closed, to \<open>mg_closed\<close>, where the consumer
  drains it.
\<close>

section \<open>State\<close>

definition EVENT_CHANNEL_DEPTH :: nat where "EVENT_CHANNEL_DEPTH = 256"

record io_manager =
  mg_registry :: registry
  mg_events :: "u32 \<rightharpoonup> event_queue"
  mg_closed :: "u32 \<Rightarrow> event_queue list"
  mg_groups :: "u32 set"
  mg_policy :: recv_error_policy
  mg_running :: bool
  mg_sent :: "(socket_addr \<times> bytes) list"

datatype manager_command =
    Add io_connection "io_error_kind + unit" bool
  | SetOutput u32 bytes "instant option" instant
  | SetRun u32 bool
  | Remove u32
  | Shutdown

datatype manager_input =
    Command manager_command
  | Datagram bytes ip_addr instant
  | RecvError io_error_kind "u32 list"
  | Tick "u32 list" "u32 \<Rightarrow> io_error_kind + unit" instant
  | Receive u32
  | DropReceiver u32

definition OUTPUT_STAGING :: string where "OUTPUT_STAGING = ''output staging''"

definition io_manager_new :: io_manager where
  "io_manager_new =
     \<lparr>mg_registry = \<lparr>rg_conns = Map.empty,
        rg_stats = \<lparr>mc_malformed_frames = 0, mc_unknown_connection = 0, mc_recv_errors = 0,
                    mc_source_mismatch_datagrams = 0\<rparr>\<rparr>,
      mg_events = Map.empty, mg_closed = (\<lambda>_. []), mg_groups = {}, mg_policy = \<lparr>rp_consecutive_fatal = 0\<rparr>,
      mg_running = True, mg_sent = []\<rparr>"

definition expired :: "instant option \<Rightarrow> instant \<Rightarrow> bool" where
  "expired deadline now \<longleftrightarrow> (case deadline of Some d \<Rightarrow> now \<ge> d | None \<Rightarrow> False)"

section \<open>Helpers of the task\<close>

abbreviation mg_conns :: "io_manager \<Rightarrow> u32 \<rightharpoonup> io_connection" where
  "mg_conns m \<equiv> rg_conns (mg_registry m)"

definition put_conns :: "(u32 \<rightharpoonup> io_connection) \<Rightarrow> io_manager \<Rightarrow> io_manager" where
  "put_conns cs m = m\<lparr>mg_registry := (mg_registry m)\<lparr>rg_conns := cs\<rparr>\<rparr>"

text \<open>\<^verbatim>\<open>tx.send\<close>: the counters are those of the connection.\<close>

definition send_event :: "u32 \<Rightarrow> io_event \<Rightarrow> io_manager \<Rightarrow> io_manager" where
  "send_event i ev m =
     (case mg_events m i of
        None \<Rightarrow> m
      | Some q \<Rightarrow>
          (case mg_conns m i of
             Some conn \<Rightarrow>
               (case event_send ev (q, ic_counters conn) of
                  (q, cc) \<Rightarrow>
                    put_conns ((mg_conns m)(i \<mapsto> conn\<lparr>ic_counters := cc\<rparr>)) (m\<lparr>mg_events := (mg_events m)(i \<mapsto> q)\<rparr>))
           | None \<Rightarrow> m\<lparr>mg_events := (mg_events m)(i \<mapsto> snd (push_latest_wins ev q))\<rparr>))"

text \<open>Dropping the sender of a connection.\<close>

definition drop_events :: "u32 \<Rightarrow> io_manager \<Rightarrow> io_manager" where
  "drop_events i m =
     (case mg_events m i of
        None \<Rightarrow> m
      | Some q \<Rightarrow>
          m\<lparr>mg_events := (mg_events m)(i := None),
            mg_closed := (mg_closed m)(i := mg_closed m i @ [drop_sender q])\<rparr>)"

definition remove_connection :: "u32 \<Rightarrow> io_manager \<Rightarrow> io_manager" where
  "remove_connection i m =
     drop_events i
       (case mg_conns m i of
          None \<Rightarrow> m
        | Some conn \<Rightarrow>
            (let m = put_conns ((mg_conns m)(i := None)) m in
             case ip_multicast_group (ic_params conn) of
               Some g \<Rightarrow> m\<lparr>mg_groups := mg_groups m - {g}\<rparr>
             | None \<Rightarrow> m))"

definition deliver :: "u32 \<Rightarrow> bool \<Rightarrow> io_update \<Rightarrow> io_manager \<Rightarrow> io_manager" where
  "deliver i first update m =
     (case mg_events m i of
        None \<Rightarrow> m
      | Some _ \<Rightarrow>
          (let m = (if first
                    then (case mg_conns m i of
                            Some conn \<Rightarrow> send_event i (Up (ip_o2t_api (ic_params conn)) (ip_t2o_api (ic_params conn))) m
                          | None \<Rightarrow> m)
                    else m)
           in send_event i (Data update) m))"

definition lose :: "u32 \<Rightarrow> lost_reason \<Rightarrow> io_manager \<Rightarrow> io_manager" where
  "lose i reason m = remove_connection i (send_event i (Lost reason) m)"

definition fan_out_lost :: "u32 list \<Rightarrow> lost_reason \<Rightarrow> io_manager \<Rightarrow> io_manager" where
  "fan_out_lost ids reason m = fold (\<lambda>i. lose i reason) ids m"

text \<open>The end of the task: the registry and every sender are dropped.\<close>

definition stop :: "io_manager \<Rightarrow> io_manager" where
  "stop m =
     (put_conns Map.empty m)
       \<lparr>mg_events := Map.empty,
        mg_closed := (\<lambda>i. mg_closed m i @ (case mg_events m i of Some q \<Rightarrow> [drop_sender q] | None \<Rightarrow> [])),
        mg_running := False\<rparr>"

section \<open>One turn of the loop\<close>

definition on_add :: "io_connection \<Rightarrow> io_error_kind + unit \<Rightarrow> bool \<Rightarrow> io_manager \<Rightarrow> (enip_error + unit) option \<times> io_manager" where
  "on_add conn join listening m =
     (let i = ip_t2o_connection_id (ic_params conn) in
      case (ip_multicast_group (ic_params conn), join) of
        (Some _, Inl k) \<Rightarrow> (Some (Inl (EIo k)), m)
      | (grp, _) \<Rightarrow>
          (let m = (case grp of Some g \<Rightarrow> m\<lparr>mg_groups := insert g (mg_groups m)\<rparr> | None \<Rightarrow> m);
               m = drop_events i m;
               m = put_conns ((mg_conns m)(i \<mapsto> conn)) m;
               m = m\<lparr>mg_events := (mg_events m)(i \<mapsto> event_queue_new EVENT_CHANNEL_DEPTH)\<rparr>
           in if listening then (Some (Inr ()), m) else (None, remove_connection i m)))"

definition on_set_output :: "u32 \<Rightarrow> bytes \<Rightarrow> instant option \<Rightarrow> instant \<Rightarrow> io_manager \<Rightarrow> (enip_error + unit) option \<times> io_manager" where
  "on_set_output i bs deadline now m =
     (case mg_conns m i of
        None \<Rightarrow> (Some (Inl EClosed), m)
      | Some conn \<Rightarrow>
          if expired deadline now then (Some (Inl (ETimeout OUTPUT_STAGING)), m)
          else (Some (Inr ()), put_conns ((mg_conns m)(i \<mapsto> set_output bs conn)) m))"

fun on_command :: "manager_command \<Rightarrow> io_manager \<Rightarrow> (enip_error + unit) option \<times> io_manager" where
  "on_command Shutdown m = (None, stop m)"
| "on_command (Add conn join listening) m = on_add conn join listening m"
| "on_command (SetOutput i bs deadline now) m = on_set_output i bs deadline now m"
| "on_command (SetRun i run) m =
     (None, case mg_conns m i of
              Some conn \<Rightarrow> put_conns ((mg_conns m)(i \<mapsto> set_run run conn)) m
            | None \<Rightarrow> m)"
| "on_command (Remove i) m = (None, remove_connection i m)"

definition on_datagram :: "bytes \<Rightarrow> ip_addr \<Rightarrow> instant \<Rightarrow> io_manager \<Rightarrow> io_manager" where
  "on_datagram bs src now m =
     (let m = m\<lparr>mg_policy := on_recv_ok (mg_policy m)\<rparr> in
      case consume_datagram bs src now (mg_registry m) of
        (RoutedAccepted i first update, g) \<Rightarrow> deliver i first update (m\<lparr>mg_registry := g\<rparr>)
      | (RoutedDropped _ _, g) \<Rightarrow> m\<lparr>mg_registry := g\<rparr>)"

definition on_receive_error :: "io_error_kind \<Rightarrow> u32 list \<Rightarrow> io_manager \<Rightarrow> io_manager" where
  "on_receive_error kind ids m =
     (let m = m\<lparr>mg_registry := (mg_registry m)\<lparr>rg_stats := (rg_stats (mg_registry m))
               \<lparr>mc_recv_errors := mc_recv_errors (rg_stats (mg_registry m)) + 1\<rparr>\<rparr>\<rparr>
      in case on_recv_error kind (mg_policy m) of
           (Continue, p) \<Rightarrow> m\<lparr>mg_policy := p\<rparr>
         | (FatalSocket, p) \<Rightarrow> stop (fan_out_lost ids LostIo (m\<lparr>mg_policy := p\<rparr>)))"

text \<open>The body of the loop over the connections of a tick: the datagram sent, the verdict, the connection.\<close>

definition tick_conn :: "instant \<Rightarrow> io_error_kind + unit \<Rightarrow> io_connection \<Rightarrow> bytes option \<times> lost_reason option \<times> io_connection" where
  "tick_conn now net conn =
     (case poll_produce now conn of
        (produced, conn) \<Rightarrow>
          (let datagram = (case produced of Some (Inr bs) \<Rightarrow> Some bs | _ \<Rightarrow> None);
               send_result = (case produced of
                                Some (Inr _) \<Rightarrow> Some net
                              | Some (Inl _) \<Rightarrow> Some (Inl IoOther)
                              | None \<Rightarrow> None)
           in case send_result of
                None \<Rightarrow> (datagram, if poll_watchdog now conn then Some LostTimeout else None, conn)
              | Some result \<Rightarrow>
                  (case record_send result conn of
                     (out, conn) \<Rightarrow>
                       (datagram,
                        if out = ConnectionDead then Some LostIo
                        else if poll_watchdog now conn then Some LostTimeout else None,
                        conn))))"

primrec tick_conns :: "instant \<Rightarrow> (u32 \<Rightarrow> io_error_kind + unit) \<Rightarrow> u32 list \<Rightarrow> io_manager \<Rightarrow> (u32 \<times> lost_reason) list \<times> io_manager" where
  "tick_conns now net [] m = ([], m)"
| "tick_conns now net (i # ids) m =
     (case mg_conns m i of
        None \<Rightarrow> tick_conns now net ids m
      | Some conn \<Rightarrow>
          (case tick_conn now (net i) conn of
             (datagram, verdict, conn') \<Rightarrow>
               (let m = put_conns ((mg_conns m)(i \<mapsto> conn')) m;
                    m = (case datagram of
                           Some bs \<Rightarrow> m\<lparr>mg_sent := mg_sent m @ [(ip_tx_endpoint (ic_params conn), bs)]\<rparr>
                         | None \<Rightarrow> m)
                in case tick_conns now net ids m of
                     (dead, m) \<Rightarrow> (case verdict of Some r \<Rightarrow> ((i, r) # dead, m) | None \<Rightarrow> (dead, m)))))"

definition on_tick :: "u32 list \<Rightarrow> (u32 \<Rightarrow> io_error_kind + unit) \<Rightarrow> instant \<Rightarrow> io_manager \<Rightarrow> io_manager" where
  "on_tick ids net now m =
     (case tick_conns now net ids m of
        (dead, m) \<Rightarrow> fold (\<lambda>(i, reason). lose i reason) dead m)"

text \<open>The consumer's end: it takes from the live queue of the connection.\<close>

definition on_receive :: "u32 \<Rightarrow> io_manager \<Rightarrow> io_manager" where
  "on_receive i m =
     (case mg_events m i of
        None \<Rightarrow> m
      | Some q \<Rightarrow> m\<lparr>mg_events := (mg_events m)(i \<mapsto> snd (event_queue_take q))\<rparr>)"

definition on_drop_receiver :: "u32 \<Rightarrow> io_manager \<Rightarrow> io_manager" where
  "on_drop_receiver i m =
     (case mg_events m i of
        None \<Rightarrow> m
      | Some q \<Rightarrow> m\<lparr>mg_events := (mg_events m)(i \<mapsto> drop_receiver q)\<rparr>)"

fun manager_step :: "manager_input \<Rightarrow> io_manager \<Rightarrow> (enip_error + unit) option \<times> io_manager" where
  "manager_step (Command cmd) m = on_command cmd m"
| "manager_step (Datagram bs src now) m = (None, on_datagram bs src now m)"
| "manager_step (RecvError kind ids) m = (None, on_receive_error kind ids m)"
| "manager_step (Tick ids net now) m = (None, on_tick ids net now m)"
| "manager_step (Receive i) m = (None, on_receive i m)"
| "manager_step (DropReceiver i) m = (None, on_drop_receiver i m)"

section \<open>The invariant\<close>

definition queue_ok :: "event_queue \<Rightarrow> bool" where
  "queue_ok q \<longleftrightarrow>
     0 < eq_capacity q \<and> eq_data_len q = length (filter is_data (eq_deque q)) \<and> eq_data_len q \<le> eq_capacity q"

definition mg_inv :: "io_manager \<Rightarrow> bool" where
  "mg_inv m \<longleftrightarrow>
     (\<forall>i. mg_events m i = None \<longleftrightarrow> mg_conns m i = None) \<and>
     (\<forall>i c. mg_conns m i = Some c \<longrightarrow> ip_t2o_connection_id (ic_params c) = i) \<and>
     (\<forall>i q. mg_events m i = Some q \<longrightarrow> queue_ok q \<and> \<not> eq_tx_closed q) \<and>
     (\<forall>i. \<forall>q \<in> set (mg_closed m i). queue_ok q \<and> eq_tx_closed q)"

lemma mg_inv_dom: "mg_inv m \<Longrightarrow> mg_events m i = None \<longleftrightarrow> mg_conns m i = None"
  by (simp add: mg_inv_def)

lemma put_conns_simps [simp]:
  "mg_conns (put_conns cs m) = cs" "mg_events (put_conns cs m) = mg_events m"
  "mg_closed (put_conns cs m) = mg_closed m" "mg_groups (put_conns cs m) = mg_groups m"
  "mg_running (put_conns cs m) = mg_running m" "mg_sent (put_conns cs m) = mg_sent m"
  by (simp_all add: put_conns_def)

lemma queue_ok_push:
  assumes "queue_ok q" "push_latest_wins ev q = (out, q')"
  shows "queue_ok q' \<and> eq_tx_closed q' = eq_tx_closed q \<and> eq_rx_closed q' = eq_rx_closed q"
proof (cases "eq_rx_closed q")
  case True
  then show ?thesis using assms by (simp add: push_latest_wins_def)
next
  case False
  let ?s = "(q, conn_counters_default)"
  have inv: "channel_invar ?s" using assms(1) False by (simp add: queue_ok_def channel_invar_def)
  have fst: "fst (event_send ev ?s) = q'" using assms(2) by (simp add: event_send_def split: push_outcome.splits)
  have "channel_invar (event_send ev ?s)" using event_send_contents [OF inv] by blast
  then have "queue_ok q'" using fst by (simp add: queue_ok_def channel_invar_def)
  moreover have "eq_tx_closed q' = eq_tx_closed q" "eq_rx_closed q' = eq_rx_closed q"
    using assms(2) by (auto simp: push_latest_wins_def split: if_splits option.splits)
  ultimately show ?thesis by simp
qed

lemma queue_ok_take: "queue_ok q \<Longrightarrow> event_queue_take q = (r, q') \<Longrightarrow> queue_ok q' \<and> eq_tx_closed q' = eq_tx_closed q"
  by (cases "eq_deque q"; cases "is_data (hd (eq_deque q))")
    (auto simp: event_queue_take_def event_queue_pop_def queue_ok_def)

lemma queue_ok_simps [simp]:
  "queue_ok (drop_sender q) = queue_ok q" "queue_ok (drop_receiver q) = queue_ok q"
  "eq_tx_closed (drop_sender q)" "eq_tx_closed (drop_receiver q) = eq_tx_closed q"
  "0 < n \<Longrightarrow> queue_ok (event_queue_new n)" "\<not> eq_tx_closed (event_queue_new n)"
  by (simp_all add: queue_ok_def drop_sender_def drop_receiver_def event_queue_new_def)

text \<open>A send changes the queue of one connection and that connection's counters.\<close>

lemma send_event_eq:
  assumes "mg_inv m" "mg_events m i = Some q"
  obtains conn cc where "mg_conns m i = Some conn"
    "send_event i ev m = put_conns ((mg_conns m)(i \<mapsto> conn\<lparr>ic_counters := cc\<rparr>))
       (m\<lparr>mg_events := (mg_events m)(i \<mapsto> snd (push_latest_wins ev q))\<rparr>)"
proof -
  obtain conn where conn: "mg_conns m i = Some conn" using mg_inv_dom [OF assms(1), of i] assms(2) by auto
  have "fst (event_send ev (q, ic_counters conn)) = snd (push_latest_wins ev q)"
    by (simp add: event_send_def split: prod.splits push_outcome.splits)
  then have "send_event i ev m = put_conns
      ((mg_conns m)(i \<mapsto> conn\<lparr>ic_counters := snd (event_send ev (q, ic_counters conn))\<rparr>))
      (m\<lparr>mg_events := (mg_events m)(i \<mapsto> snd (push_latest_wins ev q))\<rparr>)"
    using conn assms(2) by (simp add: send_event_def split_def)
  with conn show ?thesis by (rule that)
qed

lemma send_event_inv:
  assumes "mg_inv m"
  shows "mg_inv (send_event i ev m) \<and> mg_closed (send_event i ev m) = mg_closed m \<and>
    (\<forall>j. mg_conns (send_event i ev m) j = None \<longleftrightarrow> mg_conns m j = None)"
proof (cases "mg_events m i")
  case (Some q)
  obtain conn cc where eq: "mg_conns m i = Some conn"
    "send_event i ev m = put_conns ((mg_conns m)(i \<mapsto> conn\<lparr>ic_counters := cc\<rparr>))
       (m\<lparr>mg_events := (mg_events m)(i \<mapsto> snd (push_latest_wins ev q))\<rparr>)"
    using send_event_eq [OF assms Some] by blast
  obtain out q' where "push_latest_wins ev q = (out, q')" by fastforce
  with eq assms Some queue_ok_push [of q ev out q'] show ?thesis
    by (auto simp: mg_inv_def)
qed (use assms in \<open>simp add: send_event_def\<close>)

lemma remove_connection_eq:
  assumes "mg_inv m"
  shows "mg_inv (remove_connection i m) \<and> mg_conns (remove_connection i m) = (mg_conns m)(i := None) \<and>
    mg_events (remove_connection i m) = (mg_events m)(i := None) \<and>
    mg_closed (remove_connection i m) =
      (mg_closed m)(i := mg_closed m i @ (case mg_events m i of Some q \<Rightarrow> [drop_sender q] | None \<Rightarrow> []))"
proof (cases "mg_conns m i")
  case None
  then have "mg_events m i = None" using mg_inv_dom [OF assms] by simp
  with None assms show ?thesis by (simp add: remove_connection_def drop_events_def fun_upd_idem)
next
  case (Some conn)
  then obtain q where "mg_events m i = Some q" using mg_inv_dom [OF assms, of i] by auto
  with Some assms show ?thesis
    by (auto simp: remove_connection_def drop_events_def mg_inv_def Let_def split: option.splits)
qed

text \<open>
  Announcing the end: the closed queue of a connection that is gone ends with the reason, unless
  its consumer left first.
\<close>

definition announced :: "io_manager \<Rightarrow> io_manager \<Rightarrow> u32 \<Rightarrow> bool" where
  "announced m m' i \<longleftrightarrow>
     mg_conns m' i = None \<and>
     (\<exists>q. mg_closed m' i = mg_closed m i @ [q] \<and>
        (eq_rx_closed q \<or> (\<exists>evs reason. eq_deque q = evs @ [Lost reason])))"

definition settled :: "io_manager \<Rightarrow> io_manager \<Rightarrow> u32 \<Rightarrow> bool" where
  "settled m m' i \<longleftrightarrow>
     mg_conns m i = None \<or> mg_conns m' i \<noteq> None \<and> mg_closed m' i = mg_closed m i \<or> announced m m' i"

lemma settled_trans:
  "settled m m' i \<Longrightarrow> settled m' m'' i \<Longrightarrow> (mg_conns m' i = None \<Longrightarrow> mg_closed m'' i = mg_closed m' i \<and> mg_conns m'' i = None) \<Longrightarrow>
     settled m m'' i"
  by (auto simp: settled_def announced_def)

lemma settled_keep:
  "(mg_conns m' j = None \<longleftrightarrow> mg_conns m j = None) \<Longrightarrow> mg_closed m' j = mg_closed m j \<Longrightarrow> settled m m' j"
  by (auto simp: settled_def)

lemma lose_spec:
  assumes "mg_inv m"
  shows "mg_inv (lose i r m) \<and> (\<forall>j. settled m (lose i r m) j) \<and>
    (\<forall>j. mg_conns m j = None \<longrightarrow> mg_conns (lose i r m) j = None \<and> mg_closed (lose i r m) j = mg_closed m j) \<and>
    mg_conns (lose i r m) i = None"
proof -
  let ?m = "send_event i (Lost r) m"
  note send = send_event_inv [OF assms, of i "Lost r"]
  note rem = remove_connection_eq [OF send [THEN conjunct1], of i]
  have keep: "settled m (lose i r m) j" if "j \<noteq> i" for j
    using that send rem by (auto simp: settled_def lose_def)
  have "announced m (lose i r m) i" if live: "mg_conns m i \<noteq> None"
  proof -
    obtain q where q: "mg_events m i = Some q" using live mg_inv_dom [OF assms, of i] by auto
    obtain conn cc where eq: "mg_conns m i = Some conn"
      "?m = put_conns ((mg_conns m)(i \<mapsto> conn\<lparr>ic_counters := cc\<rparr>))
         (m\<lparr>mg_events := (mg_events m)(i \<mapsto> snd (push_latest_wins (Lost r) q))\<rparr>)"
      using send_event_eq [OF assms q] by blast
    then have ev: "mg_events ?m i = Some (snd (push_latest_wins (Lost r) q))" by simp
    have "mg_closed (lose i r m) i = mg_closed m i @ [drop_sender (snd (push_latest_wins (Lost r) q))]"
      using rem send ev by (simp add: lose_def)
    moreover have "mg_conns (lose i r m) i = None" using rem by (simp add: lose_def)
    ultimately show ?thesis
      unfolding announced_def by (auto simp: drop_sender_def push_latest_wins_def)
  qed
  then have "settled m (lose i r m) j" for j using keep by (cases "j = i") (auto simp: settled_def)
  moreover have "mg_inv (lose i r m)" "mg_conns (lose i r m) i = None" using rem by (simp_all add: lose_def)
  moreover have "mg_conns (lose i r m) j = None \<and> mg_closed (lose i r m) j = mg_closed m j" if "mg_conns m j = None" for j
    using that send rem mg_inv_dom [OF send [THEN conjunct1], of j] by (auto simp: lose_def)
  ultimately show ?thesis by blast
qed

lemma lose_all:
  "mg_inv m \<Longrightarrow> mg_inv (fold (\<lambda>(i, r). lose i r) dead m) \<and> (\<forall>j. settled m (fold (\<lambda>(i, r). lose i r) dead m) j) \<and>
    (\<forall>j. mg_conns m j = None \<longrightarrow> mg_conns (fold (\<lambda>(i, r). lose i r) dead m) j = None \<and>
       mg_closed (fold (\<lambda>(i, r). lose i r) dead m) j = mg_closed m j) \<and>
    (\<forall>j \<in> fst ` set dead. mg_conns (fold (\<lambda>(i, r). lose i r) dead m) j = None)"
proof (induction dead arbitrary: m)
  case Nil
  then show ?case by (auto simp: settled_def)
next
  case (Cons x dead)
  obtain i r where x: "x = (i, r)" by fastforce
  note l = lose_spec [OF Cons.prems, of i r]
  note ih = Cons.IH [OF l [THEN conjunct1]]
  show ?case
    using l ih x by (auto intro: settled_trans [of m "lose i r m"])
qed

lemma fan_out_lose_all: "fan_out_lost ids r m = fold (\<lambda>(i, r). lose i r) (map (\<lambda>i. (i, r)) ids) m"
  by (simp add: fan_out_lost_def fold_map comp_def)

section \<open>Every step\<close>

lemma stop_inv: "mg_inv m \<Longrightarrow> mg_inv (stop m)"
  by (auto simp: mg_inv_def stop_def put_conns_def split: option.splits)

lemma add_inv:
  assumes "mg_inv m" "ip_t2o_connection_id (ic_params c) = i"
  shows "mg_inv (put_conns ((mg_conns m)(i \<mapsto> c)) (drop_events i m)
      \<lparr>mg_events := (mg_events (drop_events i m))(i \<mapsto> event_queue_new EVENT_CHANNEL_DEPTH)\<rparr>)"
  using assms
  by (auto simp: mg_inv_def drop_events_def EVENT_CHANNEL_DEPTH_def put_conns_def split: option.splits)

lemma other_fields_inv [simp]:
  "mg_inv (m\<lparr>mg_groups := g\<rparr>) = mg_inv m" "mg_inv (m\<lparr>mg_policy := p\<rparr>) = mg_inv m"
  "mg_inv (m\<lparr>mg_sent := ds\<rparr>) = mg_inv m"
  by (simp_all add: mg_inv_def)

text \<open>
  A change that keeps the set of connections, their ids and all queues; datagrams and the polls of
  a tick are of this kind.
\<close>

definition same_conns :: "io_manager \<Rightarrow> io_manager \<Rightarrow> bool" where
  "same_conns m m' \<longleftrightarrow>
     (\<forall>i. map_option ic_params (mg_conns m' i) = map_option ic_params (mg_conns m i)) \<and>
     mg_events m' = mg_events m \<and> mg_closed m' = mg_closed m"

lemma map_option_eq_None: "map_option f a = map_option f b \<Longrightarrow> a = None \<longleftrightarrow> b = None"
  by (cases a; cases b) auto

lemma same_conns_inv:
  assumes "mg_inv m" "same_conns m m'"
  shows "mg_inv m' \<and> (\<forall>i. settled m m' i) \<and> (\<forall>i. mg_conns m' i = None \<longleftrightarrow> mg_conns m i = None) \<and> mg_closed m' = mg_closed m"
proof -
  have dom: "mg_conns m' i = None \<longleftrightarrow> mg_conns m i = None" for i
    using assms(2) by (intro map_option_eq_None [of ic_params]) (simp add: same_conns_def)
  have ids: "ip_t2o_connection_id (ic_params c) = i" if "mg_conns m' i = Some c" for i c
  proof -
    have "map_option ic_params (mg_conns m i) = map_option ic_params (mg_conns m' i)"
      using assms(2) by (simp add: same_conns_def)
    then have "map_option ic_params (mg_conns m i) = Some (ic_params c)" using that by simp
    then obtain c0 where c0: "mg_conns m i = Some c0" "ic_params c0 = ic_params c" by auto
    then have "ip_t2o_connection_id (ic_params c0) = i" using assms(1) unfolding mg_inv_def by blast
    with c0(2) show ?thesis by simp
  qed
  have ev: "mg_events m' = mg_events m" "mg_closed m' = mg_closed m" using assms(2) by (simp_all add: same_conns_def)
  have "mg_inv m'" unfolding mg_inv_def using assms(1) dom ids ev by (simp add: mg_inv_def)
  then show ?thesis using dom ev by (auto simp: settled_def)
qed

lemma tick_conn_keeps:
  "tick_conn now net c = (d, v, c') \<Longrightarrow> ic_params c' = ic_params c \<and>
     (v = None \<longrightarrow> now < ic_watchdog_deadline c)"
  by (auto simp: tick_conn_def Let_def poll_watchdog_def dest!: poll_produce_keeps record_send_keeps
      split: prod.splits option.splits sum.splits if_splits)

lemma tick_conns_same:
  "tick_conns now net ids m = (dead, m') \<Longrightarrow> same_conns m m'"
proof (induction ids arbitrary: m dead)
  case (Cons i ids)
  show ?case
  proof (cases "mg_conns m i")
    case (Some conn)
    obtain d v c' where t: "tick_conn now (net i) conn = (d, v, c')" by (metis prod_cases3)
    let ?m = "put_conns ((mg_conns m)(i \<mapsto> c')) m"
    let ?m2 = "case d of Some bs \<Rightarrow> ?m\<lparr>mg_sent := mg_sent ?m @ [(ip_tx_endpoint (ic_params conn), bs)]\<rparr> | None \<Rightarrow> ?m"
    obtain dead2 where "tick_conns now net ids ?m2 = (dead2, m')"
      using Cons.prems Some t by (auto simp: Let_def split: prod.splits option.splits)
    from Cons.IH [OF this] tick_conn_keeps [OF t] Some show ?thesis
      by (cases d) (auto simp: same_conns_def)
  qed (use Cons in simp)
qed (simp add: same_conns_def)

lemma on_tick_spec:
  assumes "mg_inv m"
  shows "mg_inv (on_tick ids net now m) \<and> (\<forall>j. settled m (on_tick ids net now m) j)"
proof -
  obtain dead m1 where t: "tick_conns now net ids m = (dead, m1)" by fastforce
  note s1 = same_conns_inv [OF assms tick_conns_same [OF t]]
  note l = lose_all [OF s1 [THEN conjunct1], of dead]
  have "settled m (on_tick ids net now m) j" for j
    using s1 l t by (auto simp: on_tick_def intro: settled_trans [of m m1])
  then show ?thesis using l t by (simp add: on_tick_def)
qed

lemma deliver_spec:
  assumes "mg_inv m"
  shows "mg_inv (deliver i first u m) \<and> mg_closed (deliver i first u m) = mg_closed m \<and>
    (\<forall>j. mg_conns (deliver i first u m) j = None \<longleftrightarrow> mg_conns m j = None)"
proof -
  define m1 where "m1 = (if first then (case mg_conns m i of
      Some conn \<Rightarrow> send_event i (Up (ip_o2t_api (ic_params conn)) (ip_t2o_api (ic_params conn))) m | None \<Rightarrow> m) else m)"
  have m1: "mg_inv m1 \<and> mg_closed m1 = mg_closed m \<and> (\<forall>j. mg_conns m1 j = None \<longleftrightarrow> mg_conns m j = None)"
    using send_event_inv [OF assms] assms by (auto simp: m1_def split: option.splits)
  have "deliver i first u m = (if mg_events m i = None then m else send_event i (Data u) m1)"
    by (auto simp: deliver_def m1_def Let_def split: option.splits)
  then show ?thesis using m1 assms send_event_inv [of m1 i "Data u"] by simp
qed

lemma on_datagram_spec:
  assumes "mg_inv m"
  shows "mg_inv (on_datagram bs src now m) \<and> (\<forall>j. settled m (on_datagram bs src now m) j)"
proof -
  obtain r g where r: "consume_datagram bs src now (mg_registry m) = (r, g)" by fastforce
  let ?m = "m\<lparr>mg_policy := on_recv_ok (mg_policy m), mg_registry := g\<rparr>"
  have "same_conns m ?m" using consume_datagram_conns [OF r] by (simp add: same_conns_def)
  note s1 = same_conns_inv [OF assms this]
  have "on_datagram bs src now m =
      (case r of RoutedAccepted i first u \<Rightarrow> deliver i first u ?m | RoutedDropped _ _ \<Rightarrow> ?m)"
    using r by (simp add: on_datagram_def Let_def)
  then show ?thesis
    using s1 deliver_spec [OF s1 [THEN conjunct1]] by (cases r) (auto intro!: settled_keep)
qed

lemma on_receive_error_spec:
  assumes "mg_inv m" "\<forall>i. mg_conns m i \<noteq> None \<longrightarrow> i \<in> set ids"
  shows "mg_inv (on_receive_error kind ids m) \<and> (\<forall>j. settled m (on_receive_error kind ids m) j)"
proof -
  obtain act p where act: "on_recv_error kind (mg_policy m) = (act, p)" by fastforce
  let ?m = "m\<lparr>mg_registry := (mg_registry m)\<lparr>rg_stats := (rg_stats (mg_registry m))
      \<lparr>mc_recv_errors := mc_recv_errors (rg_stats (mg_registry m)) + 1\<rparr>\<rparr>, mg_policy := p\<rparr>"
  have "same_conns m ?m" by (simp add: same_conns_def)
  note s1 = same_conns_inv [OF assms(1) this]
  have eq: "on_receive_error kind ids m = (case act of Continue \<Rightarrow> ?m | FatalSocket \<Rightarrow> stop (fan_out_lost ids LostIo ?m))"
    using act by (simp add: on_receive_error_def Let_def split: recv_error_action.splits)
  let ?f = "fan_out_lost ids LostIo ?m"
  note l = lose_all [OF s1 [THEN conjunct1], of "map (\<lambda>i. (i, LostIo)) ids", folded fan_out_lose_all]
  have gone: "mg_conns ?f j = None" for j using l assms(2) s1 by (cases "mg_conns m j = None") (auto simp: image_comp)
  then have ev: "mg_events ?f j = None" for j using l mg_inv_dom by blast
  have "mg_conns (stop ?f) j = None \<and> mg_closed (stop ?f) j = mg_closed ?f j" for j
    using ev by (simp add: stop_def)
  then have "settled m (stop ?f) j" for j using l gone by (auto simp: settled_def announced_def)
  then show ?thesis using eq s1 l stop_inv by (cases act) auto
qed

lemma on_add_spec:
  assumes "mg_inv m" "on_add conn join listening m = (ack, m')"
  shows "mg_inv m' \<and> (\<forall>j. j \<noteq> ip_t2o_connection_id (ic_params conn) \<longrightarrow> settled m m' j)"
proof (cases "ip_multicast_group (ic_params conn) \<noteq> None \<and> (\<exists>k. join = Inl k)")
  case True
  then have "m' = m" using assms(2) by (auto simp: on_add_def Let_def)
  then show ?thesis using assms(1) by (auto intro!: settled_keep)
next
  case False
  let ?i = "ip_t2o_connection_id (ic_params conn)"
  let ?g = "case ip_multicast_group (ic_params conn) of Some g \<Rightarrow> m\<lparr>mg_groups := insert g (mg_groups m)\<rparr> | None \<Rightarrow> m"
  define a where "a = put_conns ((mg_conns ?g)(?i \<mapsto> conn)) (drop_events ?i ?g)
      \<lparr>mg_events := (mg_events (drop_events ?i ?g))(?i \<mapsto> event_queue_new EVENT_CHANNEL_DEPTH)\<rparr>"
  have c: "mg_conns (drop_events ?i ?g) = mg_conns ?g"
    by (simp add: drop_events_def split: option.splits)
  have m': "m' = (if listening then a else remove_connection ?i a)"
    using assms(2) False c
    by (cases "ip_multicast_group (ic_params conn)"; cases join) (auto simp: on_add_def a_def Let_def split: if_splits)
  have "mg_inv ?g" using assms(1) by (simp split: option.splits)
  then have inv: "mg_inv a" unfolding a_def by (intro add_inv) simp_all
  have other: "mg_conns a j = mg_conns m j \<and> mg_closed a j = mg_closed m j" if "j \<noteq> ?i" for j
    using that by (auto simp: a_def drop_events_def split: option.splits)
  show ?thesis
    using m' inv other remove_connection_eq [OF inv, of ?i] by (auto intro!: settled_keep)
qed

definition closes :: "manager_input \<Rightarrow> u32 \<Rightarrow> bool" where
  "closes inp j =
     (case inp of
        Command Shutdown \<Rightarrow> True
      | Command (Remove i) \<Rightarrow> i = j
      | Command (Add conn _ _) \<Rightarrow> ip_t2o_connection_id (ic_params conn) = j
      | _ \<Rightarrow> False)"

definition covers :: "manager_input \<Rightarrow> io_manager \<Rightarrow> bool" where
  "covers inp m = (case inp of
     RecvError _ ids \<Rightarrow> set ids = dom (mg_conns m) | Tick ids _ _ \<Rightarrow> set ids = dom (mg_conns m) | _ \<Rightarrow> True)"

lemma on_command_spec:
  assumes "mg_inv m" "on_command cmd m = (ack, m')"
  shows "mg_inv m' \<and> (\<forall>j. \<not> closes (Command cmd) j \<longrightarrow> settled m m' j)"
proof (cases cmd)
  case (Add conn join listening)
  then show ?thesis using assms on_add_spec [of m conn join listening ack m'] by (auto simp: closes_def)
next
  case (SetOutput i bs deadline now)
  then have "same_conns m m'"
    using assms(2) by (auto simp: on_set_output_def set_output_def same_conns_def split: option.splits if_splits)
  then show ?thesis using same_conns_inv [OF assms(1)] by blast
next
  case (SetRun i run)
  then have "same_conns m m'"
    using assms(2) by (auto simp: set_run_def same_conns_def split: option.splits)
  then show ?thesis using same_conns_inv [OF assms(1)] by blast
next
  case (Remove i)
  then show ?thesis
    using assms remove_connection_eq [OF assms(1), of i] by (auto simp: closes_def intro!: settled_keep)
next
  case Shutdown
  then show ?thesis using assms stop_inv by (auto simp: closes_def)
qed

lemma on_receive_spec:
  assumes "mg_inv m" "m' = on_receive i m \<or> m' = on_drop_receiver i m"
  shows "mg_inv m' \<and> (\<forall>j. settled m m' j)"
proof (cases "mg_events m i")
  case (Some q)
  then have "queue_ok q" "\<not> eq_tx_closed q" using assms(1) by (auto simp: mg_inv_def)
  moreover obtain r q' where "event_queue_take q = (r, q')" by fastforce
  ultimately show ?thesis
    using assms Some mg_inv_dom [OF assms(1), of i] queue_ok_take [of q r q']
    by (auto simp: on_receive_def on_drop_receiver_def mg_inv_def intro!: settled_keep split: if_splits)
qed (use assms in \<open>auto simp: on_receive_def on_drop_receiver_def intro!: settled_keep\<close>)

lemma manager_step_spec:
  assumes "mg_inv m" "covers inp m" "manager_step inp m = (ack, m')"
  shows "mg_inv m' \<and> (\<forall>j. \<not> closes inp j \<longrightarrow> settled m m' j)"
proof (cases inp)
  case (Command cmd)
  then show ?thesis using assms on_command_spec [of m cmd ack m'] by simp
next
  case (RecvError kind ids)
  then show ?thesis using assms on_receive_error_spec [of m ids kind] by (auto simp: covers_def)
next
  case (Datagram bs src now)
  then show ?thesis using assms on_datagram_spec [of m] by auto
next
  case (Tick ids net now)
  then show ?thesis using assms on_tick_spec [of m] by auto
next
  case (Receive i)
  then show ?thesis using assms on_receive_spec [of m m' i] by auto
next
  case (DropReceiver i)
  then show ?thesis using assms on_receive_spec [of m m' i] by auto
qed

section \<open>Reachable states\<close>

inductive manager_moves :: "io_manager \<Rightarrow> manager_input \<Rightarrow> io_manager \<Rightarrow> bool" where
  "mg_running m \<Longrightarrow> covers inp m \<Longrightarrow> manager_step inp m = (ack, m') \<Longrightarrow> manager_moves m inp m'"

inductive_simps manager_moves_iff: "manager_moves m inp m'"

interpretation manager: invariant_system "\<lambda>m. m = io_manager_new" manager_moves mg_inv
proof
  show "mg_inv m" if "m = io_manager_new" for m
    using that by (simp add: mg_inv_def io_manager_new_def)
  show "mg_inv m'" if "mg_inv m" "manager_moves m inp m'" for m inp m'
    using that manager_step_spec by (auto simp: manager_moves_iff)
qed

lemma tick_conns_dead:
  "tick_conns now net ids m = (dead, m') \<Longrightarrow> i \<in> set ids \<Longrightarrow> mg_conns m i = Some c \<Longrightarrow>
     ic_watchdog_deadline c \<le> now \<Longrightarrow> i \<in> fst ` set dead"
proof (induction ids arbitrary: m dead)
  case (Cons k ids)
  show ?case
  proof (cases "mg_conns m k")
    case None
    then show ?thesis using Cons by auto
  next
    case (Some conn)
    obtain d v c' where t: "tick_conn now (net k) conn = (d, v, c')" by (metis prod_cases3)
    let ?m = "put_conns ((mg_conns m)(k \<mapsto> c')) m"
    let ?m2 = "case d of Some bs \<Rightarrow> ?m\<lparr>mg_sent := mg_sent ?m @ [(ip_tx_endpoint (ic_params conn), bs)]\<rparr> | None \<Rightarrow> ?m"
    obtain dead2 where d2: "tick_conns now net ids ?m2 = (dead2, m')"
      "dead = (case v of Some r \<Rightarrow> (k, r) # dead2 | None \<Rightarrow> dead2)"
      using Cons.prems Some t by (auto simp: Let_def split: prod.splits option.splits)
    show ?thesis
    proof (cases "i = k")
      case True
      then have "v \<noteq> None" using tick_conn_keeps [OF t] Some Cons.prems by auto
      then show ?thesis using d2(2) True by auto
    next
      case False
      then have "mg_conns ?m2 i = Some c" using Cons.prems(3) by (cases d) simp_all
      then have "i \<in> fst ` set dead2" using Cons.IH [OF d2(1)] Cons.prems(2,4) False by simp
      then show ?thesis using d2(2) by (cases v) auto
    qed
  qed
qed simp

section \<open>Properties\<close>

text \<open>
  C7. The tables of the task agree. In every reachable state the routing table and the table of
  senders hold the same connections, each under the id it was opened with; every live queue is
  open with an exact census of its samples within the capacity, and every queue given up is closed.
\<close>

theorem manager_reachable:
  assumes "reachable (\<lambda>m. m = io_manager_new) manager_moves m"
  shows "dom (mg_events m) = dom (mg_conns m) \<and>
    (\<forall>i c. mg_conns m i = Some c \<longrightarrow> ip_t2o_connection_id (ic_params c) = i) \<and>
    (\<forall>i q. mg_events m i = Some q \<longrightarrow> queue_ok q \<and> \<not> eq_tx_closed q) \<and>
    (\<forall>i. \<forall>q \<in> set (mg_closed m i). queue_ok q \<and> eq_tx_closed q)"
  using manager.reachable_inv [OF assms] by (auto simp: mg_inv_def dom_def)

definition example_added :: io_manager where
  "example_added = snd (manager_step (Command (Add (io_connection_new example_params 0) (Inr ()) True)) io_manager_new)"

lemma example_added_reachable: "reachable (\<lambda>m. m = io_manager_new) manager_moves example_added"
proof -
  have "manager_moves io_manager_new (Command (Add (io_connection_new example_params 0) (Inr ()) True)) example_added"
    by (simp add: manager_moves_iff example_added_def covers_def io_manager_new_def) (metis prod.collapse)
  then show ?thesis by (rule reach_step [rotated]) (simp add: reach_init)
qed

lemma example_added_conn:
  "mg_conns example_added 0x22 = Some (io_connection_new example_params 0)" "mg_conns example_added i = None \<or> i = 0x22"
  by (simp_all add: example_added_def on_add_def drop_events_def io_manager_new_def put_conns_def Let_def
      io_connection_new_def example_params_def)

lemma example_added_dom: "dom (mg_conns example_added) = {0x22}"
  using example_added_conn by (auto simp: dom_def) (metis option.distinct(1))

lemma example_added_running: "mg_running example_added"
  by (simp add: example_added_def on_add_def drop_events_def io_manager_new_def put_conns_def Let_def
      io_connection_new_def example_params_def)

theorem manager_reachable_witness: "dom (mg_events example_added) = {0x22}"
  using manager_reachable [OF example_added_reachable] example_added_dom by simp

text \<open>
  C8. No connection ends in silence. Whatever the task does, a connection stays registered with
  its queue, unless it is removed, replaced or shut down by command, or its consumer finds the
  reason of the loss as the last event of its queue (or had already gone).
\<close>

theorem manager_announces_loss:
  assumes "reachable (\<lambda>m. m = io_manager_new) manager_moves m" "manager_moves m inp m'"
    and "mg_conns m i = Some c" "\<not> closes inp i"
  shows "(\<exists>c'. mg_conns m' i = Some c' \<and> mg_closed m' i = mg_closed m i) \<or> announced m m' i"
proof -
  have "settled m m' i"
    using manager_step_spec [OF manager.reachable_inv [OF assms(1)], of inp] assms(2,4)
    by (auto simp: manager_moves_iff)
  then show ?thesis using assms(3) by (auto simp: settled_def)
qed

text \<open>
  C9. The watchdog fires. At the first tick at or past its deadline a connection is removed and
  its loss announced, whatever its peer and the sends of that tick do.
\<close>

theorem manager_watchdog:
  assumes "reachable (\<lambda>m. m = io_manager_new) manager_moves m" "manager_moves m (Tick ids net now) m'"
    and "mg_conns m i = Some c" "ic_watchdog_deadline c \<le> now"
  shows "announced m m' i"
proof -
  note inv = manager.reachable_inv [OF assms(1)]
  obtain dead m1 where t: "tick_conns now net ids m = (dead, m1)" by fastforce
  have m': "m' = fold (\<lambda>(i, r). lose i r) dead m1" "i \<in> set ids"
    using assms(2,3) t by (auto simp: manager_moves_iff on_tick_def covers_def)
  have "mg_inv m1" using same_conns_inv [OF inv tick_conns_same [OF t]] by blast
  then have "mg_conns m' i = None"
    using lose_all [of m1 dead] tick_conns_dead [OF t m'(2) assms(3,4)] m'(1) by auto
  moreover have "settled m m' i"
    using manager_step_spec [OF inv] assms(2) by (auto simp: manager_moves_iff closes_def)
  ultimately show ?thesis using assms(3) by (auto simp: settled_def)
qed

theorem manager_watchdog_witness:
  "announced example_added (on_tick [0x22] (\<lambda>_. Inr ()) 40 example_added) 0x22"
proof (rule manager_watchdog [OF example_added_reachable _ example_added_conn(1)])
  show "manager_moves example_added (Tick [0x22] (\<lambda>_. Inr ()) 40) (on_tick [0x22] (\<lambda>_. Inr ()) 40 example_added)"
    using example_added_dom example_added_running by (simp add: manager_moves_iff covers_def)
  show "ic_watchdog_deadline (io_connection_new example_params 0) \<le> 40"
    by (simp add: io_connection_new_def example_params_def watchdog_timeout_def duration_checked_mul_def
        instant_checked_add_def duration_max_def instant_max_def)
qed

theorem manager_announces_loss_witness:
  "(\<exists>c'. mg_conns (on_receive 0x22 example_added) 0x22 = Some c' \<and>
      mg_closed (on_receive 0x22 example_added) 0x22 = mg_closed example_added 0x22) \<or>
   announced example_added (on_receive 0x22 example_added) 0x22"
proof (rule manager_announces_loss [OF example_added_reachable _ example_added_conn(1)])
  show "manager_moves example_added (Receive 0x22) (on_receive 0x22 example_added)"
    using example_added_running by (simp add: manager_moves_iff covers_def)
  show "\<not> closes (Receive 0x22) 0x22" by (simp add: closes_def)
qed

end
