(* ===== verification/Io_Open.thy ===== *)
theory Io_Open
  imports Io_Manager Message
begin

text \<open>
  Opening, driving and closing a class 1 connection, \<^verbatim>\<open>IoManager::forward_open\<close> and
  \<^verbatim>\<open>IoConnectionHandle\<close> of \<^verbatim>\<open>crates/enip/src/io.rs\<close>. The session that carries the requests is a
  parameter, as the trait \<^verbatim>\<open>ForwardOpenService\<close> is in the source. The random identifiers, the answer
  of the socket to a group join and whether the task dies before it answers are inputs. An arrow
  in a message of the source is written \<open>->\<close>.
\<close>

section \<open>The request\<close>

type_synonym 's forward_open_service = "message_request \<Rightarrow> cpf_item list \<Rightarrow> 's \<Rightarrow> (enip_error + cpf) \<times> 's"

definition IO_UDP_PORT :: u16 where "IO_UDP_PORT = 2222"
definition LARGE_FORWARD_OPEN_THRESHOLD :: u16 where "LARGE_FORWARD_OPEN_THRESHOLD = 505"

record direction_spec =
  ds_rpi :: duration
  ds_data_size :: nat
  ds_format :: real_time_format
  ds_conn_type :: conn_type
  ds_priority :: priority
  ds_variable :: variable_length

record assembly_path =
  ap_config :: "u16 option"
  ap_output :: u16
  ap_input :: u16
  ap_route :: "port_segment list"

record io_connection_spec =
  cs_assembly :: assembly_path
  cs_t2o :: direction_spec
  cs_o2t :: direction_spec
  cs_timeout_multiplier :: timeout_multiplier
  cs_trigger :: production_trigger
  cs_vendor_id :: u16

definition on_wire_size :: "direction_spec \<Rightarrow> enip_error + u16" where
  "on_wire_size d =
     (let data = (if carries_data (ds_format d) then ds_data_size d else 0) in
      ok_then (ok_or (checked_add_usize (overhead (ds_format d)) data) (ETooLarge 65535)) (\<lambda>n.
      ok_or (u16_try_from n) (ETooLarge 65535)))"

definition duration_to_micros :: "duration \<Rightarrow> enip_error + u32" where
  "duration_to_micros d = ok_or (u32_try_from (as_micros d)) (ETooLarge 4294967295)"

definition build_class1_open :: "io_connection_spec \<Rightarrow> u32 \<Rightarrow> u16 \<Rightarrow> u32 \<Rightarrow> enip_error + forward_open_request" where
  "build_class1_open spec t2o_id serial orig_serial =
     ok_then (on_wire_size (cs_o2t spec)) (\<lambda>o2t_size.
     ok_then (on_wire_size (cs_t2o spec)) (\<lambda>t2o_size.
       let large = (o2t_size > LARGE_FORWARD_OPEN_THRESHOLD \<or> t2o_size > LARGE_FORWARD_OPEN_THRESHOLD);
           o2t_params = ncp_io o2t_size (ds_variable (cs_o2t spec)) (ds_priority (cs_o2t spec)) (ds_conn_type (cs_o2t spec));
           t2o_params = ncp_io t2o_size (ds_variable (cs_t2o spec)) (ds_priority (cs_t2o spec)) (ds_conn_type (cs_t2o spec))
       in
     ok_then (duration_to_micros (ds_rpi (cs_o2t spec))) (\<lambda>o2t_rpi.
     ok_then (duration_to_micros (ds_rpi (cs_t2o spec))) (\<lambda>t2o_rpi.
       let path = io_connection_path (ap_config (cs_assembly spec)) (ap_output (cs_assembly spec)) (ap_input (cs_assembly spec));
           path = fold (\<lambda>seg. ep_prepend (Port seg)) (rev (ap_route (cs_assembly spec))) path
       in Inr (forward_open_class1 t2o_id serial (cs_vendor_id spec) orig_serial (cs_timeout_multiplier spec)
                 o2t_rpi o2t_params t2o_rpi t2o_params (transport_class1_trigger (cs_trigger spec)) path large)))))"

section \<open>The reply\<close>

datatype tx_endpoint_disposition = Direct | PortOnly | Honored | RefusedForeign ip_addr

definition resolve_tx_endpoint ::
    "sock_addr_info option \<Rightarrow> ip_addr option \<Rightarrow> enip_error + socket_addr \<times> tx_endpoint_disposition" where
  "resolve_tx_endpoint o2t_sock target_ip =
     ok_then (ok_or target_ip (EProtocolViolation ''no O->T transmit address available'')) (\<lambda>target.
       case o2t_sock of
         None \<Rightarrow> Inr (\<lparr>sk_ip = target, sk_port = IO_UDP_PORT\<rparr>, Direct)
       | Some s \<Rightarrow>
           (let port = (if sin_port s \<noteq> 0 then sin_port s else IO_UDP_PORT);
                disposition = (if sin_addr s = 0 then PortOnly
                               else if V4 (sin_addr s) = target then Honored
                               else RefusedForeign (V4 (sin_addr s)))
            in Inr (\<lparr>sk_ip = target, sk_port = port\<rparr>, disposition)))"

text \<open>\<^verbatim>\<open>Ipv4Addr::is_multicast\<close>: 224.0.0.0/4.\<close>

definition ipv4_is_multicast :: "u32 \<Rightarrow> bool" where
  "ipv4_is_multicast a \<longleftrightarrow> drop_bit 28 a = 0xE"

definition resolve_multicast_group :: "sock_addr_info option \<Rightarrow> conn_type \<Rightarrow> enip_error + u32 option" where
  "resolve_multicast_group t2o_sock requested =
     (case t2o_sock of
        None \<Rightarrow> Inr None
      | Some s \<Rightarrow>
          if \<not> ipv4_is_multicast (sin_addr s) then Inr None
          else (case requested of
                  Multicast \<Rightarrow> Inr (Some (sin_addr s))
                | P2P \<Rightarrow> Inl (EProtocolViolation ''multicast T->O sockaddr on a point-to-point request'')
                | NullConn \<Rightarrow> Inl (EProtocolViolation ''multicast T->O sockaddr on a null (reconfigure) request'')))"

definition find_sockaddr :: "cpf \<Rightarrow> item_type \<Rightarrow> sock_addr_info option" where
  "find_sockaddr cpf t = Option.bind (cpf_find cpf t) (\<lambda>i. ok (sockaddr_decode (ci_data i)))"

text \<open>
  The checks between the success reply and the arming, in the order of the source: the echo, the
  intervals, the transmit endpoint, the multicast group.
\<close>

definition negotiate ::
    "io_connection_spec \<Rightarrow> ip_addr option \<Rightarrow> forward_open_request \<Rightarrow> forward_open_success \<Rightarrow> cpf \<Rightarrow>
     enip_error + io_connection_params \<times> bool" where
  "negotiate spec target_ip open_req success cpf =
     ok_then (verify_forward_open_echo open_req success) (\<lambda>_.
     ok_then (validate_reply_apis success) (\<lambda>(o2t_api, t2o_api).
     ok_then (resolve_tx_endpoint (find_sockaddr cpf SockAddrOtoT) target_ip) (\<lambda>(tx_endpoint, disposition).
     ok_then (resolve_multicast_group (find_sockaddr cpf SockAddrTtoO) (ds_conn_type (cs_t2o spec))) (\<lambda>multicast_group.
     Inr (\<lparr>ip_o2t_connection_id = fos_o_t_connection_id success,
           ip_t2o_connection_id = fo_t_o_connection_id open_req,
           ip_o2t_api = o2t_api, ip_t2o_api = t2o_api,
           ip_timeout_multiplier = multiplier (cs_timeout_multiplier spec),
           ip_o2t_format = ds_format (cs_o2t spec), ip_t2o_format = ds_format (cs_t2o spec),
           ip_o2t_data_size = ds_data_size (cs_o2t spec), ip_t2o_data_size = ds_data_size (cs_t2o spec),
           ip_o2t_fixed = (ds_variable (cs_o2t spec) = Fixed), ip_t2o_fixed = (ds_variable (cs_t2o spec) = Fixed),
           ip_tx_endpoint = tx_endpoint, ip_expected_source_ip = sk_ip tx_endpoint,
           ip_multicast_group = multicast_group\<rparr>,
          case disposition of RefusedForeign _ \<Rightarrow> True | _ \<Rightarrow> False)))))"

section \<open>Opening\<close>

definition best_effort_forward_close ::
    "'s forward_open_service \<Rightarrow> forward_open_request \<Rightarrow> 's \<Rightarrow> 's" where
  "best_effort_forward_close cm_ucmm open_req s =
     (case forward_close_encode (forward_close_for_open open_req) of
        Inl _ \<Rightarrow> s
      | Inr data \<Rightarrow> snd (cm_ucmm (message_request_new FORWARD_CLOSE connection_manager_path data) [] s))"

text \<open>The exchange up to a decoded success reply.\<close>

definition decode_open_reply :: "forward_open_request \<Rightarrow> cpf \<Rightarrow> enip_error + forward_open_success" where
  "decode_open_reply open_req reply_cpf =
     ok_then (ok_or (cpf_find reply_cpf UnconnectedData)
                (EProtocolViolation ''forward-open reply missing data item'')) (\<lambda>data_item.
     ok_then (map_err EMalformed (message_reply_decode (ci_data data_item))) (\<lambda>reply.
     ok_then (expect_service reply (forward_open_service open_req)) (\<lambda>_.
       if \<not> cip_is_ok (mr_status reply)
       then Inl (EForwardOpenRejected (mr_status reply)
              (Option.bind (ok (forward_request_fail_decode (mr_data reply))) frf_remaining_path_size))
       else map_err EMalformed (forward_open_success_decode (mr_data reply)))))"

definition forward_open_exchange ::
    "'s forward_open_service \<Rightarrow> io_connection_spec \<Rightarrow> u16 \<Rightarrow> u32 \<times> u16 \<times> u32 \<Rightarrow> 's \<Rightarrow>
     (enip_error + forward_open_request \<times> forward_open_success \<times> cpf) \<times> 's" where
  "forward_open_exchange cm_ucmm spec recv_port rnd s =
     (case rnd of (r_id, r_serial, r_orig) \<Rightarrow>
      case build_class1_open spec (r_id OR 1) (r_serial OR 1) r_orig of
        Inl e \<Rightarrow> (Inl e, s)
      | Inr open_req \<Rightarrow>
          (case forward_open_encode open_req of
             Inl e \<Rightarrow> (Inl e, s)
           | Inr data \<Rightarrow>
               (let sock = sockaddr_encode (sockaddr_ipv4 0 recv_port) in
                case cm_ucmm (message_request_new (forward_open_service open_req) connection_manager_path data)
                       [cpf_item_new SockAddrOtoT sock, cpf_item_new SockAddrTtoO sock] s of
                  (Inl e, s) \<Rightarrow> (Inl e, s)
                | (Inr reply_cpf, s) \<Rightarrow>
                    (ok_then (decode_open_reply open_req reply_cpf) (\<lambda>success.
                     Inr (open_req, success, reply_cpf)), s))))"

text \<open>
  Arming: the command is sent and its acknowledgement awaited. The task may have exited before the
  send, or die before it answers.
\<close>

definition arm :: "io_error_kind + unit \<Rightarrow> bool \<Rightarrow> io_connection \<Rightarrow> io_manager \<Rightarrow> (enip_error + unit) \<times> io_manager" where
  "arm join dies conn m =
     (if \<not> mg_running m \<or> dies then (Inl EClosed, m)
      else
        case on_command (Add conn join True) m of
          (Some verdict, m) \<Rightarrow> (verdict, m)
        | (None, m) \<Rightarrow> (Inl EClosed, m))"

record io_connection_handle =
  ih_connection_id :: u32
  ih_o2t_data_size :: nat
  ih_o2t_fixed :: bool
  ih_o2t_carries_data :: bool
  ih_o2t_api :: duration
  ih_t2o_api :: duration
  ih_open_request :: forward_open_request

definition forward_open ::
    "'s forward_open_service \<Rightarrow> ip_addr option \<Rightarrow> io_connection_spec \<Rightarrow> u16 \<Rightarrow> u32 \<times> u16 \<times> u32 \<Rightarrow>
     io_error_kind + unit \<Rightarrow> bool \<Rightarrow> instant \<Rightarrow> 's \<Rightarrow> io_manager \<Rightarrow>
     (enip_error + io_connection_handle) \<times> 's \<times> io_manager" where
  "forward_open cm_ucmm target_ip spec recv_port rnd join dies now s m =
     (case forward_open_exchange cm_ucmm spec recv_port rnd s of
        (Inl e, s) \<Rightarrow> (Inl e, s, m)
      | (Inr (open_req, success, reply_cpf), s) \<Rightarrow>
          (case negotiate spec target_ip open_req success reply_cpf of
             Inl e \<Rightarrow> (Inl e, best_effort_forward_close cm_ucmm open_req s, m)
           | Inr (params, redirect_refused) \<Rightarrow>
               (let conn = io_connection_new params now;
                    conn = (if redirect_refused
                            then conn\<lparr>ic_counters := (ic_counters conn)\<lparr>cc_refused_redirects := 1\<rparr>\<rparr> else conn)
                in case arm join dies conn m of
                     (Inl e, m) \<Rightarrow> (Inl e, best_effort_forward_close cm_ucmm open_req s, m)
                   | (Inr _, m) \<Rightarrow>
                       (Inr \<lparr>ih_connection_id = fo_t_o_connection_id open_req,
                             ih_o2t_data_size = ds_data_size (cs_o2t spec),
                             ih_o2t_fixed = (ds_variable (cs_o2t spec) = Fixed),
                             ih_o2t_carries_data = carries_data (ds_format (cs_o2t spec)),
                             ih_o2t_api = ip_o2t_api params, ih_t2o_api = ip_t2o_api params,
                             ih_open_request = open_req\<rparr>, s, m))))"

section \<open>The handle\<close>

definition validate_output :: "bytes \<Rightarrow> io_connection_handle \<Rightarrow> enip_error + unit" where
  "validate_output bs h =
     (if ih_o2t_carries_data h
      then
        if ih_o2t_fixed h \<and> length bs \<noteq> ih_o2t_data_size h
        then Inl (EProtocolViolation ''output size does not match the negotiated fixed O->T size'')
        else if length bs > ih_o2t_data_size h then Inl (ETooLarge (ih_o2t_data_size h))
        else Inr ()
      else Inr ())"

text \<open>
  \<^verbatim>\<open>stage\<close>: the handoff and the wait for the verdict are each bounded by the deadline. \<open>handoff\<close> and
  \<open>wait_in_time\<close> say whether the deadline let them complete; \<open>at\<close> is when the task takes the command.
\<close>

definition stage ::
    "bytes \<Rightarrow> instant option \<Rightarrow> bool \<Rightarrow> bool \<Rightarrow> instant \<Rightarrow> io_connection_handle \<Rightarrow> io_manager \<Rightarrow> (enip_error + unit) \<times> io_manager" where
  "stage bs deadline handoff wait_in_time at h m =
     (case validate_output bs h of
        Inl e \<Rightarrow> (Inl e, m)
      | Inr _ \<Rightarrow>
          if \<not> handoff then (Inl (ETimeout OUTPUT_STAGING), m)
          else if \<not> mg_running m then (Inl EClosed, m)
          else
            case on_command (SetOutput (ih_connection_id h) bs deadline at) m of
              (verdict, m) \<Rightarrow>
                (if \<not> wait_in_time then Inl (ETimeout OUTPUT_STAGING)
                 else case verdict of Some v \<Rightarrow> v | None \<Rightarrow> Inl EClosed, m))"

definition close_handle :: "'s forward_open_service \<Rightarrow> io_connection_handle \<Rightarrow> 's \<Rightarrow> io_manager \<Rightarrow> (enip_error + unit) \<times> 's \<times> io_manager" where
  "close_handle cm_ucmm h s m =
     (case forward_close_encode (forward_close_for_open (ih_open_request h)) of
        Inl e \<Rightarrow> (Inl e, s, m)
      | Inr data \<Rightarrow>
          (let s = snd (cm_ucmm (message_request_new FORWARD_CLOSE connection_manager_path data) [] s);
               m = (if mg_running m then snd (on_command (Remove (ih_connection_id h)) m) else m)
           in (Inr (), s, m)))"

section \<open>What crossed the wire\<close>

text \<open>\<open>logged svc\<close> behaves as \<open>svc\<close> and keeps the requests, in order.\<close>

definition logged :: "'s forward_open_service \<Rightarrow> (message_request list \<times> 's) forward_open_service" where
  "logged svc q extra s = (case svc q extra (snd s) of (r, s') \<Rightarrow> (r, fst s @ [q], s'))"

definition close_request :: "forward_open_request \<Rightarrow> message_request option" where
  "close_request q =
     map_option (message_request_new FORWARD_CLOSE connection_manager_path)
       (ok (forward_close_encode (forward_close_for_open q)))"

lemma close_logged:
  assumes "close_request q = Some cr"
  shows "fst (best_effort_forward_close (logged svc) q s) = fst s @ [cr]"
  using assms
  by (cases "forward_close_encode (forward_close_for_open q)")
    (auto simp: best_effort_forward_close_def close_request_def logged_def split: prod.splits)

lemma open_encode_closable:
  "forward_open_encode q = Inr bs \<Longrightarrow> \<exists>cr. close_request q = Some cr"
proof -
  assume "forward_open_encode q = Inr bs"
  then obtain p where p: "epath_encode (fo_connection_path q) = Inr p" using forward_open_encode_ok [of q] by blast
  with path_words [OF p] show ?thesis
    by (simp add: close_request_def forward_close_encode_def forward_close_for_open_def Let_def)
qed

lemma exchange_logged:
  assumes "forward_open_exchange (logged svc) spec port rnd s = (r, s')"
  shows "(case r of
      Inl _ \<Rightarrow> fst s' = fst s \<or> (\<exists>q. fst s' = fst s @ [q])
    | Inr (open_req, success, cpf) \<Rightarrow>
        (\<exists>data. forward_open_encode open_req = Inr data \<and>
           fst s' = fst s @ [message_request_new (forward_open_service open_req) connection_manager_path data]) \<and>
        build_class1_open spec (fst rnd OR 1) (fst (snd rnd) OR 1) (snd (snd rnd)) = Inr open_req)"
  using assms
  by (auto simp: forward_open_exchange_def logged_def Let_def ok_then_Inr_iff split: prod.splits sum.splits)

text \<open>
  C5. No connection is stranded on the target. Once the reply has been decoded as a success, an
  open that fails for any reason (the echo, the intervals, the endpoint, the group, the arming)
  has sent a Forward Close for the same connection as its last request; an open that succeeds has
  sent the Forward Open alone.
\<close>

theorem forward_open_not_stranded:
  assumes "forward_open_exchange (logged svc) spec port rnd ([], s0) = (Inr (open_req, success, cpf), s1)"
    and "forward_open (logged svc) target spec port rnd join dies now ([], s0) m = (res, s2, m')"
  shows "\<exists>oq cr. close_request open_req = Some cr \<and>
    fst s2 = (case res of Inl _ \<Rightarrow> [oq, cr] | Inr _ \<Rightarrow> [oq])"
proof -
  from exchange_logged [OF assms(1)] obtain data where d: "forward_open_encode open_req = Inr data"
    "fst s1 = [message_request_new (forward_open_service open_req) connection_manager_path data]" by auto
  obtain cr where cr: "close_request open_req = Some cr" using open_encode_closable [OF d(1)] by blast
  from assms cr d(2) show ?thesis
    by (auto simp: forward_open_def close_logged Let_def split: prod.splits sum.splits if_splits)
qed

definition example_spec :: io_connection_spec where
  "example_spec =
     (let d = \<lparr>ds_rpi = 20000000, ds_data_size = 2, ds_format = Modeless, ds_conn_type = P2P, ds_priority = Scheduled,
               ds_variable = Fixed\<rparr>
      in \<lparr>cs_assembly = \<lparr>ap_config = None, ap_output = 150, ap_input = 100, ap_route = []\<rparr>, cs_t2o = d, cs_o2t = d,
          cs_timeout_multiplier = X4, cs_trigger = Cyclic, cs_vendor_id = 1\<rparr>)"

definition example_open :: forward_open_request where
  "example_open = forward_open_class1 1 1 1 0 X4 20000 (ncp_io 4 Fixed Scheduled P2P) 20000 (ncp_io 4 Fixed Scheduled P2P)
     0x01 (io_connection_path None 150 100) False"

lemma example_build: "build_class1_open example_spec 1 1 0 = Inr example_open"
  by (simp add: build_class1_open_def example_spec_def example_open_def on_wire_size_def Let_def carries_data_def
      overhead_def has_sequence_def has_header_def checked_add_usize_def usize_max_def u16_try_from_def
      duration_to_micros_def as_micros_def u32_try_from_def LARGE_FORWARD_OPEN_THRESHOLD_def word_less_nat_alt)

lemma example_encode: "\<exists>data. forward_open_encode example_open = Inr data"
  unfolding forward_open_encode_ok
  by (simp add: example_open_def forward_open_class1_def ncp_io_def io_connection_path_def ep_class_def
      ep_connection_point_def epath_encode_iff seg_bytes_logical encode_logical_def encode_logical_wide_def writer_defs
      Let_def word_le_nat_alt)


text \<open>A well-formed success reply to that request, with intervals of 20 ms.\<close>

definition example_success :: bytes where
  "example_success =
     [0xD4, 0, 0, 0, 9, 0, 0, 0, 1, 0, 0, 0, 1, 0, 1, 0, 0, 0, 0, 0, 0x20, 0x4E, 0, 0, 0x20, 0x4E, 0, 0, 0, 0]"

lemma example_reply_decode:
  "decode_open_reply example_open [unconnected_data example_success] =
     Inr \<lparr>fos_o_t_connection_id = 9, fos_t_o_connection_id = 1, fos_connection_serial = 1, fos_vendor_id = 1,
          fos_originator_serial = 0, fos_o_t_api = 20000, fos_t_o_api = 20000, fos_app_data = []\<rparr>"
  by (simp add: decode_open_reply_def cpf_find_def unconnected_data_def cpf_item_new_def message_reply_decode_def
      wire_simps expect_service_def forward_open_service_def example_open_def forward_open_class1_def FORWARD_OPEN_def
      REPLY_MASK_def cip_is_ok_def forward_open_success_decode_def checked_mul_usize_def usize_max_def with_extended_def
      general_status_from_code_def general_is_ok_def example_success_def r_take_eq)

theorem forward_open_not_stranded_witness:
  "\<exists>oq cr e. close_request example_open = Some cr \<and>
     (case forward_open (logged (\<lambda>_ _ s. (Inr [unconnected_data example_success], s))) None example_spec 0
         (1, 1, 0) (Inr ()) False 0 ([], ()) io_manager_new of
        (res, s, _) \<Rightarrow> res = Inl e \<and> fst s = [oq, cr])"
proof -
  let ?svc = "\<lambda>_ _ s. (Inr [unconnected_data example_success], s)"
  obtain data where d: "forward_open_encode example_open = Inr data" using example_encode by blast
  obtain s1 success where ex: "forward_open_exchange (logged ?svc) example_spec 0 (1, 1, 0) ([], ()) =
      (Inr (example_open, success, [unconnected_data example_success]), s1)"
    by (simp add: forward_open_exchange_def example_build d logged_def Let_def example_reply_decode)
  obtain res s2 m' where fo: "forward_open (logged ?svc) None example_spec 0 (1, 1, 0) (Inr ()) False 0 ([], ()) io_manager_new = (res, s2, m')"
    by (metis prod_cases3)
  obtain e where "res = Inl e"
    using fo ex by (auto simp: forward_open_def negotiate_def resolve_tx_endpoint_def verify_forward_open_echo_def
        ok_then_Inr_iff Let_def split: sum.splits prod.splits if_splits)
  with forward_open_not_stranded [OF ex fo] fo show ?thesis by auto
qed

section \<open>What is armed\<close>

lemma negotiate_ok:
  assumes "negotiate spec target open_req success cpf = Inr (p, refused)"
  shows "(\<exists>t. target = Some t \<and> sk_ip (ip_tx_endpoint p) = t \<and> ip_expected_source_ip p = t) \<and>
    ip_t2o_connection_id p = fo_t_o_connection_id open_req \<and>
    MIN_REPLY_API \<le> ip_o2t_api p \<and> ip_o2t_api p \<le> MAX_REPLY_API \<and>
    MIN_REPLY_API \<le> ip_t2o_api p \<and> ip_t2o_api p \<le> MAX_REPLY_API \<and>
    ip_timeout_multiplier p = multiplier (cs_timeout_multiplier spec) \<and>
    (ip_multicast_group p = None \<or> ds_conn_type (cs_t2o spec) = Multicast)"
  using assms
  by (auto simp: negotiate_def ok_then_Inr_iff resolve_tx_endpoint_def validate_reply_apis_def api_out_of_range_def
      resolve_multicast_group_def Let_def not_less
      split: option.splits if_splits conn_type.splits)

lemma multiplier_le: "unat (multiplier x) \<le> 512"
  by (cases x) (simp_all add: multiplier_def)

lemma watchdog_exact:
  assumes "api \<le> MAX_REPLY_API" "now + from_secs 307200 \<le> instant_max"
  shows "unwrap_or (instant_checked_add now (watchdog_timeout api (multiplier x))) now = now + api * unat (multiplier x)"
proof -
  have "api * unat (multiplier x) \<le> 600000000000 * 512"
    using assms(1) multiplier_le by (intro mult_le_mono) (simp_all add: MAX_REPLY_API_def from_secs_def)
  then show ?thesis
    using assms(2)
    by (simp add: watchdog_timeout_def duration_checked_mul_def duration_max_def instant_checked_add_def from_secs_def)
qed



section \<open>Staging an output\<close>

text \<open>
  The verdict on a staged output tells the truth. Success means that the buffer, of a size the
  connection may carry, is the one the next frame takes; an error means that nothing was staged,
  provided that a verdict missed by its deadline is one the task reached at or after that deadline.
\<close>

theorem stage_truthful:
  assumes "stage bs deadline handoff in_time at h m = (res, m')"
    and "in_time \<or> expired deadline at"
  shows "case res of
      Inr _ \<Rightarrow> (\<exists>c. mg_conns m (ih_connection_id h) = Some c \<and>
          m' = put_conns ((mg_conns m)(ih_connection_id h \<mapsto> c\<lparr>ic_output := bs\<rparr>)) m) \<and>
        (\<not> ih_o2t_carries_data h \<or> length bs \<le> ih_o2t_data_size h)
    | Inl _ \<Rightarrow> m' = m"
  using assms
  by (auto simp: stage_def validate_output_def on_set_output_def set_output_def
      split: sum.splits if_splits option.splits)

theorem stage_truthful_witness:
  "stage [1] (Some 5) True False 9
     \<lparr>ih_connection_id = 0x22, ih_o2t_data_size = 1, ih_o2t_fixed = True, ih_o2t_carries_data = True, ih_o2t_api = 10,
      ih_t2o_api = 10, ih_open_request = example_open\<rparr> example_added = (Inl (ETimeout OUTPUT_STAGING), example_added)"
proof -
  let ?h = "\<lparr>ih_connection_id = 0x22, ih_o2t_data_size = 1, ih_o2t_fixed = True, ih_o2t_carries_data = True,
     ih_o2t_api = 10, ih_t2o_api = 10, ih_open_request = example_open\<rparr>"
  obtain res m' where st: "stage [1] (Some 5) True False 9 ?h example_added = (res, m')" by fastforce
  then have "res = Inl (ETimeout OUTPUT_STAGING)"
    using example_added_running by (auto simp: stage_def validate_output_def split: prod.splits)
  then show ?thesis using stage_truthful [OF st] st by (simp add: expired_def)
qed

end
