(* ===== verification/Discovery.thy ===== *)
theory Discovery
  imports Message Cpf
begin

text \<open>
  Identity and service discovery, \<^verbatim>\<open>crates/enip/src/discovery.rs\<close>: the payloads of ListIdentity,
  ListServices and ListInterfaces replies, and the Identity Object read over a session. Vendor and
  device type are their codes; the rendering of known names is left out.
\<close>

definition DISCOVERY_CONTEXT :: string where "DISCOVERY_CONTEXT = ''identity''"
definition IDENTITY_CLASS :: u16 where "IDENTITY_CLASS = 0x01"
definition IDENTITY_INSTANCE :: u16 where "IDENTITY_INSTANCE = 0x01"
definition IDENTITY_ATTR_REVISION :: u16 where "IDENTITY_ATTR_REVISION = 0x04"

section \<open>ListIdentity\<close>

record device_identity =
  di_protocol_version :: u16
  di_socket_addr :: sock_addr_info
  di_vendor :: u16
  di_device_type :: u16
  di_product_code :: u16
  di_revision_major :: u8
  di_revision_minor :: u8
  di_status :: u16
  di_serial_number :: u32
  di_product_name :: rstr
  di_state :: u8

definition identity_parse_item :: "bytes \<Rightarrow> wire_error + device_identity" where
  "identity_parse_item data =
     ok_then (r_u16 (r_with_context data DISCOVERY_CONTEXT)) (\<lambda>(version, r).
     ok_then (r_take 16 r) (\<lambda>(sock, r).
     ok_then (sockaddr_decode sock) (\<lambda>addr.
     ok_then (r_u16 r) (\<lambda>(vendor, r).
     ok_then (r_u16 r) (\<lambda>(device, r).
     ok_then (r_u16 r) (\<lambda>(product, r).
     ok_then (r_u8 r) (\<lambda>(major, r).
     ok_then (r_u8 r) (\<lambda>(minor, r).
     ok_then (r_u16 r) (\<lambda>(status, r).
     ok_then (r_u32 r) (\<lambda>(serial, r).
     ok_then (r_short_string r) (\<lambda>(name, r).
     ok_then (r_u8 r) (\<lambda>(state, _).
     Inr \<lparr>di_protocol_version = version, di_socket_addr = addr, di_vendor = vendor, di_device_type = device,
          di_product_code = product, di_revision_major = major, di_revision_minor = minor, di_status = status,
          di_serial_number = serial, di_product_name = name, di_state = state\<rparr>))))))))))))"

definition identity_parse_reply :: "bytes \<Rightarrow> wire_error + device_identity" where
  "identity_parse_reply data =
     ok_then (cpf_decode data) (\<lambda>cpf.
     ok_then (ok_or (cpf_find cpf IdentityItem)
                (Malformed DISCOVERY_CONTEXT ''ListIdentity reply has no Identity item'')) (\<lambda>item.
     identity_parse_item (ci_data item)))"

section \<open>The Identity Object\<close>

record identity_object =
  io_vendor :: u16
  io_device_type :: u16
  io_product_code :: u16
  io_revision_major :: u8
  io_revision_minor :: u8
  io_status :: u16
  io_serial_number :: u32
  io_product_name :: rstr

definition parse_get_attributes_all :: "bytes \<Rightarrow> wire_error + identity_object" where
  "parse_get_attributes_all data =
     ok_then (r_u16 (r_with_context data DISCOVERY_CONTEXT)) (\<lambda>(vendor, r).
     ok_then (r_u16 r) (\<lambda>(device, r).
     ok_then (r_u16 r) (\<lambda>(product, r).
     ok_then (r_u8 r) (\<lambda>(major, r).
     ok_then (r_u8 r) (\<lambda>(minor, r).
     ok_then (r_u16 r) (\<lambda>(status, r).
     ok_then (r_u32 r) (\<lambda>(serial, r).
     ok_then (r_short_string r) (\<lambda>(name, _).
     Inr \<lparr>io_vendor = vendor, io_device_type = device, io_product_code = product, io_revision_major = major,
          io_revision_minor = minor, io_status = status, io_serial_number = serial, io_product_name = name\<rparr>))))))))"

definition read_identity :: "'s exchange \<Rightarrow> 's \<Rightarrow> (enip_error + identity_object) \<times> 's" where
  "read_identity send s =
     (case get_attribute_all send IDENTITY_CLASS IDENTITY_INSTANCE s of
        (Inl e, s) \<Rightarrow> (Inl e, s)
      | (Inr data, s) \<Rightarrow> (map_err EMalformed (parse_get_attributes_all data), s))"

section \<open>ListServices and ListInterfaces\<close>

record service_item =
  sv_protocol_version :: u16
  sv_capability :: u16
  sv_name :: rstr

definition supports_tcp :: "service_item \<Rightarrow> bool" where
  "supports_tcp s \<longleftrightarrow> sv_capability s AND 0x20 \<noteq> 0"

definition supports_udp :: "service_item \<Rightarrow> bool" where
  "supports_udp s \<longleftrightarrow> sv_capability s AND 0x100 \<noteq> 0"

definition parse_service_item :: "bytes \<Rightarrow> wire_error + service_item" where
  "parse_service_item data =
     ok_then (r_u16 (r_with_context data ''service item'')) (\<lambda>(version, r).
     ok_then (r_u16 r) (\<lambda>(capability, r).
       let name = takeWhile (\<lambda>b. b \<noteq> 0) (fst (r_take_rest r))
       in if from_utf8_ok name
          then Inr \<lparr>sv_protocol_version = version, sv_capability = capability, sv_name = name\<rparr>
          else Inl (InvalidUtf8 ''service item'')))"

primrec parse_services :: "cpf \<Rightarrow> wire_error + service_item list" where
  "parse_services [] = Inr []"
| "parse_services (i # is) =
     (if ci_type_id i \<noteq> ItemUnknown 0x0100 then parse_services is
      else ok_then (parse_service_item (ci_data i)) (\<lambda>s. ok_then (parse_services is) (\<lambda>ss. Inr (s # ss))))"

definition parse_list_services :: "bytes \<Rightarrow> wire_error + service_item list" where
  "parse_list_services data = ok_then (cpf_decode data) parse_services"

definition parse_list_interfaces :: "bytes \<Rightarrow> wire_error + cpf_item list" where
  "parse_list_interfaces data = cpf_decode data"

section \<open>The identity payload, exactly\<close>

definition identity_bytes :: "device_identity \<Rightarrow> bytes" where
  "identity_bytes d =
     le_bytes 2 (di_protocol_version d) @ sockaddr_encode (di_socket_addr d) @ le_bytes 2 (di_vendor d) @
     le_bytes 2 (di_device_type d) @ le_bytes 2 (di_product_code d) @ [di_revision_major d, di_revision_minor d] @
     le_bytes 2 (di_status d) @ le_bytes 4 (di_serial_number d) @
     [of_nat (length (di_product_name d))] @ di_product_name d @ [di_state d]"

definition wf_identity :: "device_identity \<Rightarrow> bool" where
  "wf_identity d \<longleftrightarrow>
     length (sin_zero (di_socket_addr d)) = 8 \<and> length (di_product_name d) < 256 \<and> from_utf8_ok (di_product_name d)"

lemma length_sockaddr_encode [simp]: "length (sockaddr_encode s) = 8 + length (sin_zero s)"
  by (simp add: sockaddr_encode_def writer_defs)

lemma short_string_read:
  assumes "wf_reader r" "length s < 256" "from_utf8_ok s" "r_rest r = of_nat (length s) # s @ t"
  shows "reads r_short_string r s t"
  using assms by (auto simp: r_short_string_def wire_simps r_take_eq unat_of_nat_small intro!: readsI)

lemma identity_parse_bytes:
  assumes "wf_identity d" "length rest \<le> 8589930000"
  shows "identity_parse_item (identity_bytes d @ rest) = Inr d"
proof -
  let ?data = "identity_bytes d @ rest"
  have "length ?data \<le> 8589934592" using assms by (simp add: identity_bytes_def wf_identity_def)
  then have wf: "wf_reader (r_with_context ?data DISCOVERY_CONTEXT)" by (intro wf_intros small_le_isize)
  have "drop (9 + length n) (ma # mi # s2 @ s4 @ k # n @ st # rest) = st # rest"
    if "length s2 = 2" "length s4 = 4" for ma mi k st :: u8 and s2 s4 n :: bytes
    using that by (simp add: drop_Cons')
  with assms wf show ?thesis
    by (simp add: identity_parse_item_def identity_bytes_def wf_identity_def wire_simps r_take_eq r_short_string_def
        unat_of_nat_small)
qed

end
