(* ===== verification/Explicit.thy ===== *)
theory Explicit
  imports Session Discovery Cm
begin

text \<open>
  The wire side of the explicit-messaging client, \<^verbatim>\<open>crates/enip/src/client/mod.rs\<close> and
  \<^verbatim>\<open>client/connected.rs\<close>: routes, the Unconnected_Send wrapper, the encapsulation data of the two
  send commands, the checks on their replies, and the two exchanges that run before a session
  exists. The stateful client is in \<open>Client\<close>.
\<close>

definition REGISTER_CONTEXT :: bytes where "REGISTER_CONTEXT = ascii ''ECREGIST''"
definition LIST_IDENTITY_CONTEXT :: bytes where "LIST_IDENTITY_CONTEXT = ascii ''ECLISTID''"

section \<open>Routes\<close>

type_synonym route_path = "port_segment list"

definition route_backplane_slot :: "u8 \<Rightarrow> route_path" where
  "route_backplane_slot slot = [backplane_slot slot]"

definition to_epath :: "route_path \<Rightarrow> epath" where
  "to_epath route = foldl (\<lambda>p seg. ep_port seg p) [] route"

definition prefixed :: "route_path \<Rightarrow> epath \<Rightarrow> epath" where
  "prefixed route base = (if route = [] then base else map Port route @ base)"

section \<open>Requests\<close>

definition wrap_unconnected_send :: "message_request \<Rightarrow> route_path \<Rightarrow> enip_error + message_request" where
  "wrap_unconnected_send inner route =
     ok_then (message_request_encode inner) (\<lambda>emb.
     ok_then (ok_or (u16_try_from (length emb)) (ETooLarge 65535)) (\<lambda>emb_len.
     ok_then (epath_encode (to_epath route)) (\<lambda>route_bytes.
     ok_then (ok_or (u8_try_from (length route_bytes div 2)) (ETooLarge 255)) (\<lambda>route_words.
       let data = w_u8 0x03 [];
           data = w_u8 0xFA data;
           data = w_u16 emb_len data;
           data = w_put_slice emb data;
           data = (if length emb mod 2 = 1 then w_u8 0 data else data);
           data = w_u8 route_words data;
           data = w_u8 0 data;
           data = w_put_slice route_bytes data
       in Inr (message_request_new UNCONNECTED_SEND connection_manager_path data)))))"

definition encap_data_with_cpf :: "cpf \<Rightarrow> enip_error + bytes" where
  "encap_data_with_cpf cpf =
     ok_then (map_err EMalformed (cpf_encode cpf)) (\<lambda>cpf_bytes.
     Inr (w_put_slice cpf_bytes (w_u16 0 (w_u32 0 []))))"

section \<open>Replies\<close>

text \<open>The prefix of both replies: the interface handle, which has to be 0, and the timeout.\<close>

definition reply_body :: "string \<Rightarrow> string \<Rightarrow> bytes \<Rightarrow> enip_error + wire_reader" where
  "reply_body context violation data =
     ok_then (map_err EMalformed (r_u32 (r_with_context data context))) (\<lambda>(interface_handle, r).
       if interface_handle \<noteq> 0 then Inl (EProtocolViolation violation)
       else ok_then (map_err EMalformed (r_u16 r)) (\<lambda>(_, r). Inr r))"

definition parse_explicit_reply :: "encap_frame \<Rightarrow> enip_error + message_reply" where
  "parse_explicit_reply frame =
     (if \<not> encap_status_is_ok (eh_status (ef_header frame)) then Inl (EEncap (eh_status (ef_header frame)))
      else
        ok_then (reply_body ''sendrrdata reply'' ''non-zero interface handle in SendRRData reply'' (ef_data frame)) (\<lambda>r.
        ok_then (map_err EMalformed (cpf_decode (fst (r_take_rest r)))) (\<lambda>cpf.
        ok_then (map_err EMalformed (expect_explicit_data cpf)) (\<lambda>mr_bytes.
        map_err EMalformed (message_reply_decode mr_bytes)))))"

text \<open>
  The class 3 reply. The flag says whether the mismatch counter is bumped; the source bumps it in
  the branch that refuses the sequence count or the connection id.
\<close>

definition parse_connected_reply :: "encap_frame \<Rightarrow> u16 \<Rightarrow> u32 \<Rightarrow> (enip_error + message_reply) \<times> bool" where
  "parse_connected_reply frame expected_seq expected_addr =
     (if \<not> encap_status_is_ok (eh_status (ef_header frame)) then (Inl (EEncap (eh_status (ef_header frame))), False)
      else
        case
          ok_then (reply_body ''sendunitdata reply'' ''non-zero interface handle in SendUnitData reply'' (ef_data frame)) (\<lambda>r.
          ok_then (map_err EMalformed (cpf_decode (fst (r_take_rest r)))) (\<lambda>cpf.
          ok_then (ok_or (cpf_find cpf ConnectedAddress)
                     (EProtocolViolation ''connected reply missing connected-address item'')) (\<lambda>addr_item.
          ok_then (ok_or (cpf_find cpf ConnectedData)
                     (EProtocolViolation ''connected reply missing connected-data item'')) (\<lambda>data_item.
          ok_then (map_err EMalformed (r_u32 (r_with_context (ci_data addr_item) ''connected address''))) (\<lambda>(reply_addr, _).
          ok_then (map_err EMalformed (r_u16 (r_with_context (ci_data data_item) ''connected data''))) (\<lambda>(seq_reply, dr).
          Inr (reply_addr, seq_reply, fst (r_take_rest dr))))))))
        of
          Inl e \<Rightarrow> (Inl e, False)
        | Inr (reply_addr, seq_reply, mr_bytes) \<Rightarrow>
            if seq_reply \<noteq> expected_seq \<or> reply_addr \<noteq> expected_addr
            then (Inl (EProtocolViolation ''connected-data sequence/connection-id mismatch''), True)
            else (map_err EMalformed (message_reply_decode mr_bytes), False))"

section \<open>Before the session\<close>

definition register_frame :: encap_frame where
  "register_frame =
     encap_frame_new (encap_header_request RegisterSession 0 0 REGISTER_CONTEXT)
       (w_u16 0 (w_u16 PROTOCOL_VERSION []))"

definition check_register_reply :: "encap_frame \<Rightarrow> enip_error + u32" where
  "check_register_reply reply =
     (let h = ef_header reply in
      if eh_sender_context h \<noteq> REGISTER_CONTEXT
      then Inl (EProtocolViolation ''register reply context mismatch'')
      else if eh_command h \<noteq> RegisterSession
      then Inl (EProtocolViolation ''register reply command mismatch'')
      else if eh_options h \<noteq> 0
      then Inl (EProtocolViolation ''register reply carries non-zero options'')
      else if \<not> encap_status_is_ok (eh_status h) then Inl (EEncap (eh_status h))
      else if eh_session_handle h = 0
      then Inl (EProtocolViolation ''register assigned session handle 0'')
      else
        case r_u16 (r_with_context (ef_data reply) ''register reply'') of
          Inl _ \<Rightarrow> Inl (EProtocolViolation ''register reply body ends before the protocol version'')
        | Inr (version, vr) \<Rightarrow>
            if version \<noteq> PROTOCOL_VERSION then Inl (EUnsupported ''encapsulation protocol version'')
            else
              (case r_u16 vr of
                 Inl _ \<Rightarrow> Inl (EProtocolViolation ''register reply body ends before the session options word'')
               | Inr (session_options, vr) \<Rightarrow>
                   if session_options \<noteq> 0
                   then Inl (EProtocolViolation ''register reply body carries non-zero session options'')
                   else
                     (case r_expect_end vr of
                        Inl _ \<Rightarrow> Inl (EProtocolViolation ''register reply body has trailing bytes after the 4-byte payload'')
                      | Inr _ \<Rightarrow> Inr (eh_session_handle h))))"

text \<open>
  \<^verbatim>\<open>list_identity_over\<close>: one request and one reply on a stream that has no session, bounded by
  one deadline: \<open>ev\<close> and \<open>arrivals\<close> are the outcome of the write and what arrives up to it.
\<close>

definition list_identity_over :: "write_event \<Rightarrow> arrival list \<Rightarrow> enip_error + device_identity" where
  "list_identity_over ev arrivals =
     ok_then (send_frame_by
        (encap_frame_new (encap_header_request ListIdentity 0 0 LIST_IDENTITY_CONTEXT) []) ev) (\<lambda>_.
     ok_then (fst (recv_frame ''list_identity'' [] arrivals)) (\<lambda>reply.
       if eh_sender_context (ef_header reply) \<noteq> LIST_IDENTITY_CONTEXT
       then Inl (EProtocolViolation ''list identity reply context mismatch'')
       else if eh_command (ef_header reply) \<noteq> ListIdentity
       then Inl (EProtocolViolation ''list identity reply command mismatch'')
       else if \<not> encap_status_is_ok (eh_status (ef_header reply)) then Inl (EEncap (eh_status (ef_header reply)))
       else map_err EMalformed (identity_parse_reply (ef_data reply))))"

section \<open>What the target reads\<close>

text \<open>
  The Connection Manager's reading of an Unconnected_Send: the embedded message, by its length and
  without its pad byte, and the route, by its length in words.
\<close>

definition unwrap_unconnected_send :: "bytes \<Rightarrow> (bytes \<times> bytes) option" where
  "unwrap_unconnected_send data =
     (case data of
        tick # ticks # l0 # l1 # rest \<Rightarrow>
          (let n = unat (from_le_bytes [l0, l1] :: u16);
               after = drop (n + n mod 2) rest
           in case after of
                words # reserved # route \<Rightarrow>
                  if length route = 2 * unat words then Some (take n rest, route) else None
              | _ \<Rightarrow> None)
      | _ \<Rightarrow> None)"

section \<open>Lemmas\<close>

lemma to_epath_map [simp]: "to_epath route = map Port route"
proof -
  have "foldl (\<lambda>p seg. ep_port seg p) p route = p @ map Port route" for p
    by (induction route arbitrary: p) (simp_all add: ep_port_def)
  then show ?thesis by (simp add: to_epath_def)
qed

lemma prefixed_map: "prefixed route base = map Port route @ base"
  by (simp add: prefixed_def)

lemma reply_body_exact:
  assumes "length data \<le> isize_max" "reply_body c v data = Inr r"
  shows "wf_reader r \<and> (\<exists>t :: u16. data = le_bytes 4 (0 :: u32) @ le_bytes 2 t @ r_rest r)"
  using assms by (auto simp: reply_body_def ok_then_Inr_iff split: if_splits dest!: exactD)

lemma reply_body_read:
  assumes "data = le_bytes 4 (0 :: u32) @ le_bytes 2 (t :: u16) @ rest" "length data \<le> isize_max"
  shows "\<exists>r. reply_body c v data = Inr r \<and> wf_reader r \<and> r_rest r = rest"
  using assms by (auto simp: reply_body_def wire_simps)

lemma cpf_find_short:
  assumes "cpf_decode bs = Inr cpf" "length bs \<le> isize_max" "cpf_find cpf t = Some i"
  shows "length (ci_data i) \<le> isize_max"
proof -
  have "i \<in> set cpf" using assms(3) by (auto simp: cpf_find_def find_Some_iff)
  with cpf_encode_decode [OF assms(2,1)] have "length (ci_data i) < 65536"
    by (auto simp: wf_cpf_def wf_cpf_item_def list_all_iff)
  then show ?thesis by simp
qed

section \<open>Properties\<close>

text \<open>
  A session is adopted from a register reply exactly when the reply echoes the request's context
  and command, carries no options, reports success, assigns a non-zero handle and has the four
  bytes of protocol version 1 with no session options, and nothing else, for its body.
\<close>

theorem check_register_reply_iff:
  assumes "length (ef_data reply) \<le> isize_max"
  shows "check_register_reply reply = Inr handle \<longleftrightarrow>
    ef_header reply =
      (ef_header reply)\<lparr>eh_command := RegisterSession, eh_session_handle := handle, eh_status := EncapSuccess,
         eh_sender_context := REGISTER_CONTEXT, eh_options := 0\<rparr> \<and>
    handle \<noteq> 0 \<and> ef_data reply = [1, 0, 0, 0]"
proof -
  let ?r = "r_with_context (ef_data reply) ''register reply''"
  have wf: "wf_reader ?r" using assms by (intro wf_intros)
  have body: "(\<exists>vr vr'. r_u16 ?r = Inr (PROTOCOL_VERSION, vr) \<and> r_u16 vr = Inr (0, vr') \<and> r_expect_end vr' = Inr ()) \<longleftrightarrow>
      ef_data reply = [1, 0, 0, 0]" (is "?L \<longleftrightarrow> ?R")
  proof
    assume ?L
    with wf show ?R
      by (auto simp: PROTOCOL_VERSION_def r_expect_end_rest le_bytes_unfold split: if_splits dest!: exactD)
  next
    assume ?R
    with wf show ?L by (auto simp: PROTOCOL_VERSION_def wire_simps)
  qed
  show ?thesis
    unfolding body [symmetric]
    by (cases "ef_header reply")
      (auto simp: check_register_reply_def Let_def encap_status_is_ok_def split: sum.splits if_splits)
qed

theorem check_register_reply_iff_witness:
  "check_register_reply
     (encap_frame_new (encap_header_request RegisterSession 0 7 REGISTER_CONTEXT) [1, 0, 0, 0]) = Inr 7 \<and>
   \<not> (\<exists>h. check_register_reply
     (encap_frame_new (encap_header_request RegisterSession 0 7 REGISTER_CONTEXT) [1, 0]) = Inr h)"
proof (intro conjI notI)
  show "check_register_reply
     (encap_frame_new (encap_header_request RegisterSession 0 7 REGISTER_CONTEXT) [1, 0, 0, 0]) = Inr 7"
    by (subst check_register_reply_iff) (simp_all add: encap_frame_new_def encap_header_request_def)
  assume "\<exists>h. check_register_reply
     (encap_frame_new (encap_header_request RegisterSession 0 7 REGISTER_CONTEXT) [1, 0]) = Inr h"
  then show False
    by (subst (asm) check_register_reply_iff) (simp_all add: encap_frame_new_def)
qed

text \<open>
  A class 3 reply is delivered exactly when the frame reports success for interface 0 and its item
  list has a connected address that is this side's connection id and connected data that starts
  with the sequence count of the request; what is delivered is the message behind that count. The
  mismatch counter is bumped for no delivered reply.
\<close>

theorem parse_connected_reply_iff:
  assumes "length (ef_data frame) \<le> isize_max"
  shows "parse_connected_reply frame seq addr = (Inr m, flag) \<longleftrightarrow>
    \<not> flag \<and> eh_status (ef_header frame) = EncapSuccess \<and>
    (\<exists>t :: u16. \<exists>body cpf a d tail mr.
       ef_data frame = le_bytes 4 (0 :: u32) @ le_bytes 2 t @ body \<and> cpf_decode body = Inr cpf \<and>
       cpf_find cpf ConnectedAddress = Some a \<and> ci_data a = le_bytes 4 addr @ tail \<and>
       cpf_find cpf ConnectedData = Some d \<and> ci_data d = le_bytes 2 seq @ mr \<and>
       message_reply_decode mr = Inr m)"
    (is "?L \<longleftrightarrow> ?R")
proof
  assume ?L
  then obtain r cpf a d ar dr where st: "\<not> flag" "eh_status (ef_header frame) = EncapSuccess"
    and r: "reply_body ''sendunitdata reply'' ''non-zero interface handle in SendUnitData reply'' (ef_data frame) = Inr r"
    and cpf: "cpf_decode (r_rest r) = Inr cpf"
    and a: "cpf_find cpf ConnectedAddress = Some a" "r_u32 (r_with_context (ci_data a) ''connected address'') = Inr (addr, ar)"
    and d: "cpf_find cpf ConnectedData = Some d" "r_u16 (r_with_context (ci_data d) ''connected data'') = Inr (seq, dr)"
    and m: "message_reply_decode (r_rest dr) = Inr m"
    by (auto simp: parse_connected_reply_def encap_status_is_ok_def ok_then_Inr_iff split: if_splits sum.splits)
  from reply_body_exact [OF assms r] obtain t :: u16
    where data: "ef_data frame = le_bytes 4 (0 :: u32) @ le_bytes 2 t @ r_rest r" by blast
  have len: "length (r_rest r) \<le> isize_max" using assms data by simp
  note short = cpf_find_short [OF cpf len]
  have "ci_data a = le_bytes 4 addr @ r_rest ar" "ci_data d = le_bytes 2 seq @ r_rest dr"
    using a(2) d(2) short [OF a(1)] short [OF d(1)] by (auto dest!: exactD)
  with st data cpf a d m show ?R by blast
next
  assume ?R
  then obtain t :: u16 and body cpf a d tail mr where st: "\<not> flag" "eh_status (ef_header frame) = EncapSuccess"
    and data: "ef_data frame = le_bytes 4 (0 :: u32) @ le_bytes 2 t @ body" and cpf: "cpf_decode body = Inr cpf"
    and a: "cpf_find cpf ConnectedAddress = Some a" "ci_data a = le_bytes 4 addr @ tail"
    and d: "cpf_find cpf ConnectedData = Some d" "ci_data d = le_bytes 2 seq @ mr"
    and m: "message_reply_decode mr = Inr m" by blast
  from reply_body_read [OF data assms] obtain r where r: "r_rest r = body"
    "reply_body ''sendunitdata reply'' ''non-zero interface handle in SendUnitData reply'' (ef_data frame) = Inr r" by blast
  have len: "length body \<le> isize_max" using assms data by simp
  note short = cpf_find_short [OF cpf len]
  have "reads r_u32 (r_with_context (ci_data a) ''connected address'') addr tail"
    "reads r_u16 (r_with_context (ci_data d) ''connected data'') seq mr"
    using a d short [OF a(1)] short [OF d(1)] by (auto intro!: read_primitive)
  with st r cpf a d m show ?L
    by (auto simp: parse_connected_reply_def encap_status_is_ok_def elim!: readsE)
qed

text \<open>The answer to request 5 on connection 9: a successful reply to a Read Tag service.\<close>

definition example_connected_items :: cpf where
  "example_connected_items =
     [connected_address 9, Cpf.connected_data (le_bytes 2 (5 :: u16) @ [0xCC, 0, 0, 0, 0xC4, 0, 1, 0, 0, 0])]"

theorem parse_connected_reply_iff_witness:
  "\<exists>bs. cpf_encode example_connected_items = Inr bs \<and>
     parse_connected_reply
       (encap_frame_new (encap_header_request SendUnitData 0 1 (replicate 8 0)) (replicate 6 0 @ bs)) 5 9 =
       (Inr \<lparr>mr_reply_service = 0xCC, mr_status = \<lparr>general = Success, extended = []\<rparr>, mr_data = [0xC4, 0, 1, 0, 0, 0]\<rparr>,
        False)"
proof -
  let ?m = "[0xCC, 0, 0, 0, 0xC4, 0, 1, 0, 0, 0] :: bytes"
  have wf: "wf_cpf example_connected_items"
    by (simp add: example_connected_items_def wf_cpf_def wf_cpf_item_def connected_address_def connected_data_def
        cpf_item_new_def item_type_from_code_def writer_defs)
  then obtain bs where bs: "cpf_encode example_connected_items = Inr bs" and len: "length bs \<le> 1000"
    by (simp add: cpf_encode_wf, simp add: example_connected_items_def cpf_item_bytes_def connected_address_def
        connected_data_def cpf_item_new_def writer_defs)
  have dec: "cpf_decode bs = Inr example_connected_items" using wf bs len by (intro cpf_decode_encode) auto
  have mr: "message_reply_decode ?m =
      Inr \<lparr>mr_reply_service = 0xCC, mr_status = \<lparr>general = Success, extended = []\<rparr>, mr_data = [0xC4, 0, 1, 0, 0, 0]\<rparr>"
    by (simp add: message_reply_decode_def wire_simps with_extended_def general_status_from_code_def
        checked_mul_usize_def usize_max_def REPLY_CONTEXT_def)
  have find: "cpf_find example_connected_items ConnectedAddress = Some (connected_address 9)"
    "cpf_find example_connected_items ConnectedData = Some (Cpf.connected_data (le_bytes 2 (5 :: u16) @ ?m))"
    by (simp_all add: example_connected_items_def cpf_find_def connected_address_def connected_data_def cpf_item_new_def)
  have data: "replicate 6 0 @ bs = le_bytes 4 (0 :: u32) @ le_bytes 2 (0 :: u16) @ bs"
    by (simp add: le_bytes_unfold numeral_eq_Suc)
  have items: "ci_data (connected_address 9) = le_bytes 4 (9 :: u32) @ []"
    "ci_data (Cpf.connected_data (le_bytes 2 (5 :: u16) @ ?m)) = le_bytes 2 (5 :: u16) @ ?m"
    by (simp_all add: connected_address_def connected_data_def cpf_item_new_def writer_defs)
  let ?f = "encap_frame_new (encap_header_request SendUnitData 0 1 (replicate 8 0)) (replicate 6 0 @ bs)"
  have f: "ef_data ?f = le_bytes 4 (0 :: u32) @ le_bytes 2 (0 :: u16) @ bs" "eh_status (ef_header ?f) = EncapSuccess"
    unfolding data by (simp_all add: encap_frame_new_def encap_header_request_def)
  have "length (ef_data ?f) \<le> isize_max" unfolding f using len by simp
  from parse_connected_reply_iff [OF this, of 5 9 _ False] f dec find items mr
  have "parse_connected_reply ?f 5 9 =
       (Inr \<lparr>mr_reply_service = 0xCC, mr_status = \<lparr>general = Success, extended = []\<rparr>, mr_data = [0xC4, 0, 1, 0, 0, 0]\<rparr>,
        False)"
    by blast
  with bs show ?thesis by blast
qed

text \<open>
  A routed request can be unwrapped: whenever wrapping succeeds, the target finds in it exactly
  the encoding of the inner request and the encoding of the route, whatever their sizes and
  parities, under the Connection Manager's path.
\<close>

theorem wrap_unconnected_send_recovers:
  assumes "wrap_unconnected_send q route = Inr w"
  shows "mq_service w = UNCONNECTED_SEND \<and> mq_path w = connection_manager_path \<and>
    (\<exists>emb route_bytes. message_request_encode q = Inr emb \<and> epath_encode (map Port route) = Inr route_bytes \<and>
       unwrap_unconnected_send (mq_data w) = Some (emb, route_bytes))"
proof -
  from assms obtain emb n rb where emb: "message_request_encode q = Inr emb" "u16_try_from (length emb) = Some n"
    and rb: "epath_encode (map Port route) = Inr rb"
    and w: "w = message_request_new UNCONNECTED_SEND connection_manager_path
        ([0x03, 0xFA] @ le_bytes 2 n @ emb @ (if length emb mod 2 = 1 then [0] else []) @ [of_nat (length rb div 2), 0] @ rb)"
    by (auto simp: wrap_unconnected_send_def ok_then_Inr_iff Let_def u8_try_from_def writer_defs split: if_splits)
  have len: "even (length rb)" "length rb \<le> 510" using rb unfolding epath_encode_iff using even_concat_seg_bytes by (auto simp del: map_map)
  have n: "n = of_nat (length emb)" "length emb < 65536" using emb(2) by (auto simp: u16_try_from_def split: if_splits)
  obtain l0 l1 where l: "le_bytes 2 n = [l0, l1]" by (simp add: le_bytes_unfold)
  then have "from_le_bytes [l0, l1] = n" by (metis le_round(3))
  then have u: "unat (from_le_bytes [l0, l1] :: u16) = length emb" using n by (simp add: unat_of_nat_small)
  have words: "2 * unat (of_nat (length rb div 2) :: u8) = length rb"
    using len by (simp add: unat_of_nat_small)
  have pad: "length emb + length emb mod 2 = length (emb @ (if length emb mod 2 = 1 then [0 :: u8] else []))"
    by (cases "even (length emb)") (simp_all add: odd_iff_mod_2_eq_one even_iff_mod_2_eq_zero)
  have "unwrap_unconnected_send (mq_data w) = Some (emb, rb)"
    unfolding w by (simp add: unwrap_unconnected_send_def message_request_new_def l u Let_def words pad del: from_le_bytes.simps)
  with emb rb w show ?thesis by (simp add: message_request_new_def)
qed

theorem wrap_unconnected_send_recovers_witness:
  "\<exists>w. wrap_unconnected_send (message_request_new 0x01 [Class 1, Instance 1] [9]) (route_backplane_slot 3) = Inr w \<and>
     unwrap_unconnected_send (mq_data w) = Some ([1, 2, 0x20, 1, 0x24, 1, 9], [1, 3])"
proof -
  let ?q = "message_request_new 0x01 [Class 1, Instance 1] [9]"
  have emb: "message_request_encode ?q = Inr [1, 2, 0x20, 1, 0x24, 1, 9]"
    and rb: "epath_encode (map Port (route_backplane_slot 3)) = Inr [1, 3]"
    by (simp_all add: message_request_encode_def message_request_new_def epath_encode_def segment_encode.simps
        encode_logical_def encode_logical_wide_def route_backplane_slot_def backplane_slot_def port_segment_encode_def
        MAX_PATH_WORDS_def u8_try_from_def writer_defs checked_add_usize_def usize_max_def Let_def)
  then obtain w where w: "wrap_unconnected_send ?q (route_backplane_slot 3) = Inr w"
    by (simp add: wrap_unconnected_send_def u16_try_from_def u8_try_from_def Let_def)
  from wrap_unconnected_send_recovers [OF this] emb rb w show ?thesis by auto
qed

end
