(* ===== verification/Keepalive.thy ===== *)
theory Keepalive
  imports Cm Io_Frame Session
begin

text \<open>
  The timing rules of the class 3 keepalive, \<^verbatim>\<open>crates/enip/src/client/keepalive.rs\<close>: the activity
  clock, the inactivity window the target armed, and the three-quarter rule. The task that applies
  them to a client is in \<open>Client\<close>.
\<close>

definition KEEPALIVE_NUM :: u32 where "KEEPALIVE_NUM = 3"
definition KEEPALIVE_DEN :: u32 where "KEEPALIVE_DEN = 4"
definition KEEPALIVE_MAX_SLEEP :: duration where "KEEPALIVE_MAX_SLEEP = from_secs 60"
definition KEEPALIVE_FAR_FUTURE :: duration where "KEEPALIVE_FAR_FUTURE = from_secs 31536000"
definition IMPLAUSIBLY_SHORT_WINDOW :: duration where "IMPLAUSIBLY_SHORT_WINDOW = from_secs 1"

section \<open>The activity clock\<close>

record activity_tracker =
  at_base :: instant
  at_last_nanos :: u64

definition activity_new :: "instant \<Rightarrow> activity_tracker" where
  "activity_new now = \<lparr>at_base = now, at_last_nanos = 0\<rparr>"

definition activity_touch :: "instant \<Rightarrow> activity_tracker \<Rightarrow> activity_tracker" where
  "activity_touch now t =
     (let nanos = saturating_duration_since now (at_base t);
          offset = (if nanos < 2 ^ 64 then of_nat nanos else - 1)
      in t\<lparr>at_last_nanos := max (at_last_nanos t) offset\<rparr>)"

definition activity_last :: "activity_tracker \<Rightarrow> instant" where
  "activity_last t =
     (case instant_checked_add (at_base t) (from_nanos (unat (at_last_nanos t))) of
        Some i \<Rightarrow> i
      | None \<Rightarrow> at_base t)"

section \<open>The window\<close>

definition class3_negotiated_interval :: "duration \<Rightarrow> forward_open_success \<Rightarrow> duration" where
  "class3_negotiated_interval requested_rpi success =
     (let api = from_micros (unat (fos_o_t_api success)) in
      if MIN_REPLY_API \<le> api \<and> api \<le> MAX_REPLY_API then api else requested_rpi)"

definition class3_inactivity_window :: "duration \<Rightarrow> timeout_multiplier \<Rightarrow> forward_open_success \<Rightarrow> duration" where
  "class3_inactivity_window requested_rpi m success =
     (case duration_checked_mul (class3_negotiated_interval requested_rpi success) (multiplier m) of
        Some w \<Rightarrow> w
      | None \<Rightarrow> duration_max)"

definition window_is_implausibly_short :: "duration \<Rightarrow> bool" where
  "window_is_implausibly_short window \<longleftrightarrow> window < IMPLAUSIBLY_SHORT_WINDOW"

section \<open>The due instant\<close>

definition next_keepalive_at :: "instant \<Rightarrow> duration \<Rightarrow> instant" where
  "next_keepalive_at last_activity window =
     (let idle = Option.bind (duration_checked_mul window KEEPALIVE_NUM) (\<lambda>w. duration_checked_div w KEEPALIVE_DEN) in
      case Option.bind idle (instant_checked_add last_activity) of
        Some at \<Rightarrow> at
      | None \<Rightarrow>
          (case instant_checked_add last_activity KEEPALIVE_FAR_FUTURE of
             Some at \<Rightarrow> at
           | None \<Rightarrow> last_activity))"

definition keepalive_due :: "instant \<Rightarrow> instant \<Rightarrow> duration \<Rightarrow> bool" where
  "keepalive_due now last_activity window \<longleftrightarrow> next_keepalive_at last_activity window \<le> now"

text \<open>The wake-up of one iteration of the task that finds \<open>due\<close> at \<open>now\<close>.\<close>

definition keepalive_wake :: "instant \<Rightarrow> instant \<Rightarrow> instant" where
  "keepalive_wake now due =
     (case instant_checked_add now KEEPALIVE_MAX_SLEEP of
        Some cap \<Rightarrow> min due cap
      | None \<Rightarrow> due)"

lemmas keepalive_defs =
  KEEPALIVE_NUM_def KEEPALIVE_DEN_def KEEPALIVE_MAX_SLEEP_def KEEPALIVE_FAR_FUTURE_def
  from_secs_def from_micros_def from_millis_def from_nanos_def

section \<open>Activity never moves backwards\<close>

lemma u64_max_of_nat:
  "unat (max (v :: u64) (if n < 2 ^ 64 then of_nat n else - 1)) = max (unat v) (min n (2 ^ 64 - 1))"
proof -
  have "unat (if n < 2 ^ 64 then of_nat n else - 1 :: u64) = min n (2 ^ 64 - 1)"
    by (simp add: unat_of_nat_small unsigned_minus_1_eq_mask mask_eq_exp_minus_1)
  then show ?thesis by (auto simp: max_def word_le_nat_alt)
qed

lemma at_base_touches [simp]: "at_base (fold activity_touch ts t) = at_base t"
  by (induction ts arbitrary: t) (simp_all add: activity_touch_def Let_def)

lemma unat_touches:
  "unat (at_last_nanos (fold activity_touch ts t)) =
     fold (\<lambda>now n. max n (min (now - at_base t) (2 ^ 64 - 1))) ts (unat (at_last_nanos t))"
proof (induction ts arbitrary: t)
  case (Cons i ts)
  have "unat (at_last_nanos (activity_touch i t)) = max (unat (at_last_nanos t)) (min (i - at_base t) (2 ^ 64 - 1))"
    "at_base (activity_touch i t) = at_base t"
    using u64_max_of_nat [of "at_last_nanos t" "i - at_base t"]
    by (simp_all add: activity_touch_def saturating_duration_since_def Let_def)
  then show ?case using Cons by simp
qed simp

lemma fold_max_touches:
  fixes b :: nat
  assumes "\<And>i. i \<in> set ts \<Longrightarrow> b \<le> i \<and> i - b < 2 ^ 64"
  shows "b + fold (\<lambda>now n. max n (min (now - b) (2 ^ 64 - 1))) ts n = fold max ts (b + n)"
  using assms
proof (induction ts arbitrary: n)
  case (Cons i ts)
  have "b \<le> i" "min (i - b) (2 ^ 64 - 1) = i - b" using Cons.prems [of i] by auto
  then have "b + max n (min (i - b) (2 ^ 64 - 1)) = max i (b + n)" by simp
  with Cons show ?case by simp
qed simp

lemma fold_max_le: "list_all (\<lambda>i. i \<le> m) ts \<Longrightarrow> b \<le> m \<Longrightarrow> fold max ts (b :: nat) \<le> m"
  by (induction ts arbitrary: b) auto

lemma activity_last_touches:
  assumes "\<And>i. i \<in> set ts \<Longrightarrow> b \<le> i \<and> i - b < 2 ^ 64 \<and> i \<le> instant_max" "b \<le> instant_max"
  shows "activity_last (fold activity_touch ts (activity_new b)) = fold max ts b"
proof -
  have "b + unat (at_last_nanos (fold activity_touch ts (activity_new b))) = fold max ts b"
    using fold_max_touches [of ts b 0] assms by (simp add: unat_touches activity_new_def)
  moreover have "fold max ts b \<le> instant_max"
    using assms by (intro fold_max_le) (auto simp: list_all_iff)
  ultimately show ?thesis
    by (simp add: activity_last_def instant_checked_add_def from_nanos_def activity_new_def)
qed

section \<open>The three-quarter rule\<close>

lemma multiplier_range: "0 < unat (multiplier m)" "unat (multiplier m) \<le> 512"
  by (cases m; simp add: multiplier_def)+

lemma class3_interval_range:
  assumes "MIN_REPLY_API \<le> rpi" "rpi \<le> MAX_REPLY_API"
  shows "MIN_REPLY_API \<le> class3_negotiated_interval rpi success"
    and "class3_negotiated_interval rpi success \<le> MAX_REPLY_API"
  using assms by (auto simp: class3_negotiated_interval_def Let_def)

lemma class3_window:
  assumes "MIN_REPLY_API \<le> rpi" "rpi \<le> MAX_REPLY_API"
  shows "class3_inactivity_window rpi m success = unat (multiplier m) * class3_negotiated_interval rpi success"
    and "class3_inactivity_window rpi m success \<le> from_secs 307200"
proof -
  let ?api = "class3_negotiated_interval rpi success"
  have le: "?api * unat (multiplier m) \<le> MAX_REPLY_API * 512"
    using class3_interval_range(2) [OF assms] multiplier_range(2) by (rule mult_le_mono)
  also have "\<dots> \<le> duration_max" by (simp add: MAX_REPLY_API_def from_secs_def duration_max_def)
  finally show eq: "class3_inactivity_window rpi m success = unat (multiplier m) * ?api"
    by (simp add: class3_inactivity_window_def duration_checked_mul_def mult.commute)
  show "class3_inactivity_window rpi m success \<le> from_secs 307200"
    using le unfolding eq by (simp add: MAX_REPLY_API_def from_secs_def mult.commute)
qed

lemma next_keepalive_at_eq:
  assumes "w \<le> from_secs 307200" "t \<le> instant_max - from_secs 307200"
  shows "next_keepalive_at t w = t + 3 * w div 4"
proof -
  have "t + 3 * w div 4 \<le> instant_max" using assms by (simp add: instant_max_def from_secs_def)
  moreover have "3 * w \<le> duration_max" using assms by (simp add: duration_max_def from_secs_def)
  ultimately show ?thesis
    by (simp add: next_keepalive_at_def duration_checked_mul_def duration_checked_div_def keepalive_defs
        instant_checked_add_def mult.commute)
qed

text \<open>
  The keepalive is due exactly at three quarters of the window the target armed, counted from the
  latest completed exchange whatever the order in which the exchanges were recorded: never before,
  and with at least a quarter of the window to spare. The window is the multiplier times the
  interval of the reply when that is plausible and the requested one otherwise, and is never
  saturated.
\<close>

theorem keepalive_margin:
  assumes "MIN_REPLY_API \<le> rpi" "rpi \<le> MAX_REPLY_API"
    and "b \<le> instant_max - from_secs 307200"
    and "list_all (\<lambda>i. b \<le> i \<and> i - b < 2 ^ 64 \<and> i \<le> instant_max - from_secs 307200) ts"
  shows "activity_last (fold activity_touch ts (activity_new b)) = fold max ts b \<and>
         class3_inactivity_window rpi m success = unat (multiplier m) * class3_negotiated_interval rpi success \<and>
         (keepalive_due now (fold max ts b) (class3_inactivity_window rpi m success) \<longleftrightarrow>
            fold max ts b + 3 * class3_inactivity_window rpi m success div 4 \<le> now)"
proof (intro conjI)
  show "activity_last (fold activity_touch ts (activity_new b)) = fold max ts b"
    using assms(3,4) by (intro activity_last_touches) (auto simp: list_all_iff)
  have "fold max ts b \<le> instant_max - from_secs 307200"
    using assms(3,4) by (intro fold_max_le) (auto simp: list_all_iff)
  then show "keepalive_due now (fold max ts b) (class3_inactivity_window rpi m success) \<longleftrightarrow>
      fold max ts b + 3 * class3_inactivity_window rpi m success div 4 \<le> now"
    using class3_window(2) [OF assms(1,2)] by (simp add: keepalive_due_def next_keepalive_at_eq)
qed (rule class3_window(1) [OF assms(1,2)])

text \<open>A 2 s interval at sixteen times gives a window of 32 s; the probe is due 24 s after the later exchange.\<close>

theorem keepalive_margin_witness:
  "activity_last (fold activity_touch [9000000000, 7000000000] (activity_new 5000000000)) = 9000000000 \<and>
   class3_inactivity_window (from_secs 2) X16
     \<lparr>fos_o_t_connection_id = 1, fos_t_o_connection_id = 2, fos_connection_serial = 3, fos_vendor_id = 4,
      fos_originator_serial = 5, fos_o_t_api = 0, fos_t_o_api = 0, fos_app_data = []\<rparr> = 32000000000 \<and>
   keepalive_due 33000000000 9000000000 32000000000 \<and> \<not> keepalive_due 32999999999 9000000000 32000000000"
proof -
  let ?s = "\<lparr>fos_o_t_connection_id = 1, fos_t_o_connection_id = 2, fos_connection_serial = 3, fos_vendor_id = 4,
      fos_originator_serial = 5, fos_o_t_api = 0, fos_t_o_api = 0, fos_app_data = []\<rparr>"
  have api: "class3_negotiated_interval (from_secs 2) ?s = 2000000000"
    by (simp add: class3_negotiated_interval_def MIN_REPLY_API_def keepalive_defs)
  note at = keepalive_margin [of "from_secs 2" 5000000000 "[9000000000, 7000000000]" X16 ?s]
  have h: "MIN_REPLY_API \<le> from_secs 2" "from_secs 2 \<le> MAX_REPLY_API"
    "5000000000 \<le> instant_max - from_secs 307200"
    "list_all (\<lambda>i. 5000000000 \<le> i \<and> i - 5000000000 < 2 ^ 64 \<and> i \<le> instant_max - from_secs 307200)
       [9000000000, 7000000000]"
    by (simp_all add: MIN_REPLY_API_def MAX_REPLY_API_def keepalive_defs instant_max_def)
  have m: "unat (multiplier X16) = 16" by (simp add: multiplier_def)
  have w: "class3_inactivity_window (from_secs 2) X16 ?s = 32000000000"
    using at [OF h, of 0] by (simp add: api m)
  show ?thesis
    using at [OF h, of 33000000000, unfolded w] at [OF h, of 32999999999, unfolded w] by (simp add: w)
qed

end
