(* ===== verification/Client.thy ===== *)
theory Client
  imports Explicit Keepalive Logix Io_Open
begin

text \<open>
  The explicit-messaging client, \<^verbatim>\<open>crates/enip/src/client/mod.rs\<close>, \<^verbatim>\<open>client/connected.rs\<close>,
  \<^verbatim>\<open>client/io_service.rs\<close> and the task of \<^verbatim>\<open>client/keepalive.rs\<close>. A client is a handle on a session
  actor: the actor's state is a field of it, with a flag for whether the actor still runs. What the
  network, the clock and the command channel do to the n-th transaction is the n-th element of
  \<open>cl_env\<close>, an arbitrary sequence. Requests are taken one after the other, as the actor takes them.
\<close>

definition CLOSE_HANDOFF_DEADLINE :: duration where "CLOSE_HANDOFF_DEADLINE = from_secs 2"
definition REPLY_BACKSTOP_GRACE :: duration where "REPLY_BACKSTOP_GRACE = from_millis 50"

section \<open>State\<close>

record connected_state =
  cn_o_t_connection_id :: u32
  cn_t_o_connection_id :: u32
  cn_sequence :: u16
  cn_open_request :: forward_open_request
  cn_inactivity_window :: duration
  cn_negotiated_interval :: duration
  cn_timeout_multiplier :: timeout_multiplier
  cn_activity :: activity_tracker

text \<open>
  The fate of one transaction. The handoff to the actor may be cut by the deadline; the actor may
  end with the command still queued; the verdict may come, or fail to come by the backstop. In the
  last case the actor may find, when it takes the command, that nobody listens any more.
\<close>

datatype tx_fate = HandoffElapsed | ActorGone | VerdictReceived | BackstopElapsed bool

record tx_env =
  te_fate :: tx_fate
  te_now :: instant
  te_taken :: instant
  te_write :: write_event
  te_arrivals :: "arrival list"
  te_done :: instant

record client_options =
  co_route :: "route_path option"
  co_connect_timeout :: duration
  co_request_timeout :: duration
  co_max_value_bytes :: nat
  co_connected_messaging :: bool
  co_max_consecutive_timeouts :: u32
  co_vendor_id :: u16
  co_class3_rpi :: duration
  co_class3_timeout_multiplier :: timeout_multiplier

definition client_options_default :: client_options where
  "client_options_default =
     \<lparr>co_route = None, co_connect_timeout = from_secs 5, co_request_timeout = from_secs 3,
      co_max_value_bytes = 1048576, co_connected_messaging = False, co_max_consecutive_timeouts = 3,
      co_vendor_id = 0x1337, co_class3_rpi = from_secs 2, co_class3_timeout_multiplier = X16\<rparr>"

record client =
  cl_actor :: session_actor
  cl_alive :: bool
  cl_route :: "route_path option"
  cl_request_timeout :: duration
  cl_max_value_bytes :: nat
  cl_connected :: "connected_state option"
  cl_peer_ip :: "ip_addr option"
  cl_env :: "nat \<Rightarrow> tx_env"
  cl_turn :: nat

definition client_stats :: "client \<Rightarrow> session_stats" where
  "client_stats c = ac_stats (cl_actor c)"

definition max_request_bytes :: nat where "max_request_bytes = 480"

section \<open>One transaction\<close>

definition client_count_timeout :: "client \<Rightarrow> client" where
  "client_count_timeout c = c\<lparr>cl_actor := count_timeout (cl_actor c)\<rparr>"

definition env_transaction :: "command \<Rightarrow> bytes \<Rightarrow> duration \<Rightarrow> tx_env \<Rightarrow> transaction" where
  "env_transaction command data timeout e =
     \<lparr>tx_command = command, tx_data = data, tx_deadline = deadline_from (te_now e) timeout,
      tx_reply_closed = (te_fate e = BackstopElapsed True),
      tx_now = te_taken e, tx_write = te_write e, tx_arrivals = te_arrivals e\<rparr>"

definition client_transaction :: "command \<Rightarrow> bytes \<Rightarrow> string \<Rightarrow> client \<Rightarrow> (enip_error + encap_frame) \<times> client" where
  "client_transaction command data op c =
     (let e = cl_env c (cl_turn c);
          c = c\<lparr>cl_turn := cl_turn c + 1\<rparr>
      in if \<not> cl_alive c then (Inl EClosed, c)
         else
           case te_fate e of
             HandoffElapsed \<Rightarrow> (Inl (ETimeout op), client_count_timeout c)
           | ActorGone \<Rightarrow> (Inl EClosed, c\<lparr>cl_alive := False\<rparr>)
           | VerdictReceived \<Rightarrow>
               (case transact (env_transaction command data (cl_request_timeout c) e) (cl_actor c) of
                  ((alive, res), a) \<Rightarrow>
                    (case res of Some r \<Rightarrow> r | None \<Rightarrow> Inl EClosed, c\<lparr>cl_actor := a, cl_alive := alive\<rparr>))
           | BackstopElapsed _ \<Rightarrow>
               (case transact (env_transaction command data (cl_request_timeout c) e) (cl_actor c) of
                  ((alive, res), a) \<Rightarrow>
                    (Inl (ETimeout op), client_count_timeout (c\<lparr>cl_actor := a, cl_alive := alive\<rparr>))))"

section \<open>Unconnected messages\<close>

definition send_unconnected :: "client exchange" where
  "send_unconnected mr op c =
     (case (case cl_route c of
              Some route \<Rightarrow> if route \<noteq> [] then wrap_unconnected_send mr route else Inr mr
            | None \<Rightarrow> Inr mr) of
        Inl e \<Rightarrow> (Inl e, c)
      | Inr outer \<Rightarrow>
          (case ok_then (message_request_encode outer) (\<lambda>mr_bytes.
                  encap_data_with_cpf [null_address, unconnected_data mr_bytes]) of
             Inl e \<Rightarrow> (Inl e, c)
           | Inr data \<Rightarrow>
               (case client_transaction SendRRData data op c of
                  (frame, c) \<Rightarrow> (ok_then frame parse_explicit_reply, c))))"

text \<open>
  \<^verbatim>\<open>cm_ucmm\<close>, the service the class 1 open runs over: never routed, the extra items appended, and the
  reply's items read by their count with trailing bytes allowed.
\<close>

definition cm_ucmm :: "client forward_open_service" where
  "cm_ucmm request extra_items c =
     (case ok_then (message_request_encode request) (\<lambda>mr_bytes.
             encap_data_with_cpf ([null_address, unconnected_data mr_bytes] @ extra_items)) of
        Inl e \<Rightarrow> (Inl e, c)
      | Inr data \<Rightarrow>
          (case client_transaction SendRRData data ''forward_open'' c of
             (frame, c) \<Rightarrow>
               (ok_then frame (\<lambda>frame.
                  if \<not> encap_status_is_ok (eh_status (ef_header frame))
                  then Inl (EEncap (eh_status (ef_header frame)))
                  else
                    ok_then (reply_body ''sendrrdata reply'' ''non-zero interface handle in forward-open reply'' (ef_data frame)) (\<lambda>r.
                    ok_then (map_err EMalformed (cpf_decode_from r)) (\<lambda>(cpf, _). Inr cpf))),
                c)))"

definition identity :: "client \<Rightarrow> (enip_error + device_identity) \<times> client" where
  "identity c =
     (case client_transaction ListIdentity [] ''identity'' c of
        (frame, c) \<Rightarrow>
          (ok_then frame (\<lambda>frame.
             if \<not> encap_status_is_ok (eh_status (ef_header frame))
             then Inl (EEncap (eh_status (ef_header frame)))
             else map_err EMalformed (identity_parse_reply (ef_data frame))), c))"

section \<open>Connected messages\<close>

definition next_sequence :: "connected_state \<Rightarrow> u16 \<times> connected_state" where
  "next_sequence conn =
     (let v = cn_sequence conn + 1;
          v = (if v = 0 then v + 1 else v)
      in (v, conn\<lparr>cn_sequence := v\<rparr>))"

definition count_seq_mismatch :: "client \<Rightarrow> client" where
  "count_seq_mismatch c =
     c\<lparr>cl_actor := (cl_actor c)\<lparr>ac_stats := (ac_stats (cl_actor c))
        \<lparr>st_connected_seq_mismatches := st_connected_seq_mismatches (ac_stats (cl_actor c)) + 1\<rparr>\<rparr>\<rparr>"

definition send_connected :: "connected_state \<Rightarrow> client exchange" where
  "send_connected conn mr op c =
     (case next_sequence conn of
        (seq, conn) \<Rightarrow>
          (let c = c\<lparr>cl_connected := Some conn\<rparr> in
           case ok_then (message_request_encode mr) (\<lambda>mr_bytes.
                  encap_data_with_cpf
                    [connected_address (cn_o_t_connection_id conn),
                     Cpf.connected_data (w_put_slice mr_bytes (w_u16 seq []))]) of
             Inl e \<Rightarrow> (Inl e, c)
           | Inr data \<Rightarrow>
               (let at = te_done (cl_env c (cl_turn c)) in
                case client_transaction SendUnitData data op c of
                  (Inl e, c) \<Rightarrow> (Inl e, c)
                | (Inr frame, c) \<Rightarrow>
                    (let c = c\<lparr>cl_connected := Some (conn\<lparr>cn_activity := activity_touch at (cn_activity conn)\<rparr>)\<rparr> in
                     case parse_connected_reply frame seq (cn_t_o_connection_id conn) of
                       (res, mismatch) \<Rightarrow> (res, if mismatch then count_seq_mismatch c else c)))))"

definition send_cip :: "client exchange" where
  "send_cip mr op c =
     (case cl_connected c of
        Some conn \<Rightarrow> send_connected conn mr op c
      | None \<Rightarrow> send_unconnected mr op c)"

section \<open>Opening and closing\<close>

definition forward_close_with :: "forward_open_request \<Rightarrow> client \<Rightarrow> (enip_error + unit) \<times> client" where
  "forward_close_with open_req c =
     (case forward_close_encode (forward_close_for_open open_req) of
        Inl e \<Rightarrow> (Inl e, c)
      | Inr data \<Rightarrow>
          (case send_unconnected (message_request_new FORWARD_CLOSE connection_manager_path data) ''forward_close'' c of
             (res, c) \<Rightarrow> (ok_then res (\<lambda>_. Inr ()), c)))"

definition forward_close :: "connected_state \<Rightarrow> client \<Rightarrow> (enip_error + unit) \<times> client" where
  "forward_close conn = forward_close_with (cn_open_request conn)"

definition clamp_rpi :: "duration \<Rightarrow> duration" where
  "clamp_rpi d = (if d < MIN_REPLY_API then MIN_REPLY_API else if MAX_REPLY_API < d then MAX_REPLY_API else d)"

definition class3_request :: "client_options \<Rightarrow> u32 \<times> u16 \<times> u32 \<Rightarrow> forward_open_request" where
  "class3_request opts rnd =
     (case rnd of (r_id, r_serial, r_orig) \<Rightarrow>
      let base = message_router_path;
          path = (case co_route opts of Some route \<Rightarrow> prefixed route base | None \<Rightarrow> base);
          rpi = clamp_rpi (co_class3_rpi opts);
          rpi_micros = unwrap_or (u32_try_from (as_micros rpi)) 600000000
      in forward_open_class3 0 (r_id OR 1) (r_serial OR 1) (co_vendor_id opts) r_orig path rpi_micros
           (co_class3_timeout_multiplier opts))"

definition class3_reply :: "forward_open_request \<Rightarrow> message_reply \<Rightarrow> enip_error + forward_open_success" where
  "class3_reply open_req reply =
     ok_then (expect_service reply (forward_open_service open_req)) (\<lambda>_.
       if \<not> cip_is_ok (mr_status reply)
       then Inl (EForwardOpenRejected (mr_status reply)
              (Option.bind (ok (forward_request_fail_decode (mr_data reply))) frf_remaining_path_size))
       else map_err EMalformed (forward_open_success_decode (mr_data reply)))"

definition open_class3 ::
    "client_options \<Rightarrow> u32 \<times> u16 \<times> u32 \<Rightarrow> instant \<Rightarrow> client \<Rightarrow> (enip_error + connected_state) \<times> client" where
  "open_class3 opts rnd now c =
     (let open_req = class3_request opts rnd in
      case forward_open_encode open_req of
        Inl e \<Rightarrow> (Inl e, c)
      | Inr data \<Rightarrow>
          (case send_unconnected (message_request_new (forward_open_service open_req) connection_manager_path data)
                  ''forward_open'' c of
             (res, c) \<Rightarrow>
               (case ok_then res (class3_reply open_req) of
                  Inl e \<Rightarrow> (Inl e, c)
                | Inr success \<Rightarrow>
                    (case verify_forward_open_echo open_req success of
                       Inl e \<Rightarrow> (Inl e, snd (forward_close_with open_req c))
                     | Inr _ \<Rightarrow>
                         (let rpi = clamp_rpi (co_class3_rpi opts); mult = co_class3_timeout_multiplier opts in
                          (Inr \<lparr>cn_o_t_connection_id = fos_o_t_connection_id success,
                                cn_t_o_connection_id = fo_t_o_connection_id open_req, cn_sequence = 0,
                                cn_open_request = open_req,
                                cn_inactivity_window = class3_inactivity_window rpi mult success,
                                cn_negotiated_interval = class3_negotiated_interval rpi success,
                                cn_timeout_multiplier = mult, cn_activity = activity_new now\<rparr>, c))))))"

definition session_stats_default :: session_stats where
  "session_stats_default =
     \<lparr>st_stale_replies = 0, st_timeouts = 0, st_connected_seq_mismatches = 0, st_keepalives_sent = 0,
      st_discarded_options = 0\<rparr>"

text \<open>
  \<^verbatim>\<open>connect_over\<close>: the handshake, whose write outcome and arrivals up to its deadline are inputs, then
  the actor, which inherits the bytes and the arrivals not consumed, then the class 3 open when asked
  for. A failure of that open is the failure of the connect.
\<close>

definition connect_over ::
    "client_options \<Rightarrow> write_event \<Rightarrow> arrival list \<Rightarrow> (nat \<Rightarrow> tx_env) \<Rightarrow> u32 \<times> u16 \<times> u32 \<Rightarrow> instant \<Rightarrow> enip_error + client" where
  "connect_over opts ev arrivals env rnd now =
     ok_then (send_frame_by register_frame ev) (\<lambda>_.
     case recv_frame ''register'' [] arrivals of
       (res, buf, inbox) \<Rightarrow>
         ok_then res (\<lambda>reply.
         ok_then (check_register_reply reply) (\<lambda>session_handle.
           let actor = (spawn_session buf session_handle (co_max_consecutive_timeouts opts) session_stats_default)
                 \<lparr>ac_inbox := inbox\<rparr>;
               provisional =
                 \<lparr>cl_actor = actor, cl_alive = True, cl_route = co_route opts,
                  cl_request_timeout = co_request_timeout opts, cl_max_value_bytes = co_max_value_bytes opts,
                  cl_connected = None, cl_peer_ip = None, cl_env = env, cl_turn = 0\<rparr>
           in if co_connected_messaging opts
              then (case open_class3 opts rnd now provisional of
                      (Inl e, _) \<Rightarrow> Inl e
                    | (Inr conn, c) \<Rightarrow> Inr (c\<lparr>cl_connected := Some conn\<rparr>))
              else Inr provisional)))"

text \<open>
  \<^verbatim>\<open>connect\<close>: the TCP connect and the handshake share one budget; \<open>spent\<close> says that the budget ran out
  while the handshake was still under way.
\<close>

datatype tcp_outcome = TcpConnected "ip_addr option" | TcpFailed io_error_kind | TcpElapsed

definition connect ::
    "tcp_outcome \<Rightarrow> bool \<Rightarrow> client_options \<Rightarrow> write_event \<Rightarrow> arrival list \<Rightarrow> (nat \<Rightarrow> tx_env) \<Rightarrow> u32 \<times> u16 \<times> u32 \<Rightarrow>
     instant \<Rightarrow> enip_error + client" where
  "connect tcp spent opts ev arrivals env rnd now =
     (case tcp of
        TcpFailed k \<Rightarrow> Inl (EIo k)
      | TcpElapsed \<Rightarrow> Inl (ETimeout ''connect'')
      | TcpConnected peer \<Rightarrow>
          if spent then Inl (ETimeout ''register'')
          else ok_then (connect_over opts ev arrivals env rnd now) (\<lambda>c. Inr (c\<lparr>cl_peer_ip := peer\<rparr>)))"

text \<open>
  \<^verbatim>\<open>close\<close>: a best-effort Forward Close, then the actor is told to unregister. \<open>handoff\<close> says whether
  the actor took the command within its deadline.
\<close>

definition client_close :: "bool \<Rightarrow> write_event \<Rightarrow> client \<Rightarrow> client" where
  "client_close handoff ev c =
     (let c = (case cl_connected c of Some conn \<Rightarrow> snd (forward_close conn c) | None \<Rightarrow> c)
      in if cl_alive c \<and> handoff
         then c\<lparr>cl_actor := send_unregister ev (cl_actor c), cl_alive := False\<rparr>
         else c)"

section \<open>The keepalive task\<close>

definition count_keepalive :: "client \<Rightarrow> client" where
  "count_keepalive c =
     c\<lparr>cl_actor := (cl_actor c)\<lparr>ac_stats := (ac_stats (cl_actor c))
        \<lparr>st_keepalives_sent := st_keepalives_sent (ac_stats (cl_actor c)) + 1\<rparr>\<rparr>\<rparr>"

definition keepalive_probe :: "client \<Rightarrow> bool \<times> client" where
  "keepalive_probe c =
     (case get_attribute_single send_cip IDENTITY_CLASS IDENTITY_INSTANCE IDENTITY_ATTR_REVISION c of
        (Inr _, c) \<Rightarrow> (True, count_keepalive c)
      | (Inl (ECip _), c) \<Rightarrow> (True, count_keepalive c)
      | (Inl EClosed, c) \<Rightarrow> (False, c)
      | (Inl (EConnectionLost _), c) \<Rightarrow> (False, c)
      | (Inl _, c) \<Rightarrow> (True, c))"

text \<open>
  What follows one wake-up of the loop: \<open>now\<close> is the instant read after the sleep, \<open>held\<close> says that
  some client handle still exists. The result says whether the task goes on.
\<close>

definition keepalive_turn :: "bool \<Rightarrow> instant \<Rightarrow> client \<Rightarrow> bool \<times> client" where
  "keepalive_turn held now c =
     (if \<not> held then (False, c)
      else
        case cl_connected c of
          None \<Rightarrow> (False, c)
        | Some conn \<Rightarrow>
            if \<not> keepalive_due now (activity_last (cn_activity conn)) (cn_inactivity_window conn) then (True, c)
            else keepalive_probe c)"

section \<open>The sequence counts of a connection\<close>

text \<open>The \<open>i\<close>-th sequence count drawn from a counter that stands at \<open>s\<close>.\<close>

definition nth_sequence :: "u16 \<Rightarrow> nat \<Rightarrow> u16" where
  "nth_sequence s i = of_nat ((unat s + i) mod 65535 + 1)"

lemma unat_nth_sequence: "unat (nth_sequence s i) = (unat s + i) mod 65535 + 1"
proof -
  have "(unat s + i) mod 65535 < 65535" by simp
  then have "(unat s + i) mod 65535 + 1 < 2 ^ LENGTH(16)" by (simp del: mod_less_divisor)
  then show ?thesis unfolding nth_sequence_def by (rule unat_of_nat_small)
qed

lemma next_sequence_nth:
  "next_sequence conn = (nth_sequence (cn_sequence conn) 0, conn\<lparr>cn_sequence := nth_sequence (cn_sequence conn) 0\<rparr>)"
proof -
  let ?s = "cn_sequence conn"
  have "(let v = ?s + 1 in if v = 0 then v + 1 else v) = nth_sequence ?s 0"
  proof (cases "unat ?s = 65535")
    case True
    then have "?s = 65535" by (simp add: word_unat_eq_iff)
    then show ?thesis by (simp add: nth_sequence_def)
  next
    case False
    then have lt: "unat ?s < 65535" using unat16_less [of ?s] by linarith
    then have "unat (?s + 1) = unat ?s + 1" by (simp add: unat_word_ariths)
    then have "?s + 1 \<noteq> 0" by auto
    moreover have "?s + 1 = nth_sequence ?s 0"
      using lt \<open>unat (?s + 1) = unat ?s + 1\<close> by (simp add: word_unat_eq_iff unat_nth_sequence)
    ultimately show ?thesis by (simp add: Let_def)
  qed
  then show ?thesis by (simp add: next_sequence_def Let_def)
qed

lemma nth_sequence_nth: "nth_sequence (nth_sequence s k) i = nth_sequence s (Suc (k + i))"
proof -
  have "((unat s + k) mod 65535 + (1 + i)) mod 65535 = ((unat s + k) + (1 + i)) mod 65535" by (rule mod_add_left_eq)
  then show ?thesis unfolding word_unat_eq_iff unat_nth_sequence by (simp add: add.assoc)
qed

lemma nth_sequence_inject:
  assumes "nth_sequence s i = nth_sequence s j" "i \<le> j" "j < i + 65535"
  shows "i = j"
proof -
  from assms(1) have "(unat s + i) mod 65535 = (unat s + j) mod 65535"
    by (metis unat_nth_sequence add_right_cancel)
  then have "65535 dvd (unat s + j) - (unat s + i)"
    using assms(2) by (intro mod_eq_dvd_iff_nat [THEN iffD1]) simp_all
  then have "65535 dvd j - i" by simp
  then show ?thesis using assms(2,3) by (auto dest: dvd_imp_le)
qed

section \<open>Runs of a client\<close>

primrec send_all :: "(message_request \<times> string) list \<Rightarrow> client \<Rightarrow> (enip_error + message_reply) list \<times> client" where
  "send_all [] c = ([], c)"
| "send_all (q # qs) c =
     (case send_cip (fst q) (snd q) c of
        (r, c) \<Rightarrow> (case send_all qs c of (rs, c) \<Rightarrow> (r # rs, c)))"

definition client_after :: "(message_request \<times> string) list \<Rightarrow> client \<Rightarrow> nat \<Rightarrow> client" where
  "client_after qs c n = snd (send_all (take n qs) c)"

text \<open>
  \<open>conveys conn i f m\<close>: the frame \<open>f\<close> carries the message \<open>m\<close> as the answer to the \<open>i\<close>-th request,
  over UCMM or over the class 3 connection \<open>conn\<close>.
\<close>

definition conveys :: "connected_state option \<Rightarrow> nat \<Rightarrow> encap_frame \<Rightarrow> message_reply \<Rightarrow> bool" where
  "conveys conn i f m \<longleftrightarrow>
     (case conn of
        None \<Rightarrow> eh_command (ef_header f) = SendRRData \<and> parse_explicit_reply f = Inr m
      | Some cn \<Rightarrow> eh_command (ef_header f) = SendUnitData \<and>
          parse_connected_reply f (nth_sequence (cn_sequence cn) i) (cn_t_o_connection_id cn) = (Inr m, False))"

abbreviation cl_context :: "client \<Rightarrow> u64" where
  "cl_context c \<equiv> ac_next_context (cl_actor c)"

abbreviation cl_handle :: "client \<Rightarrow> u32" where
  "cl_handle c \<equiv> ac_session_handle (cl_actor c)"

lemma client_transaction_keeps:
  assumes "client_transaction cmd data op c = (res, c')"
  shows "cl_connected c' = cl_connected c \<and> cl_route c' = cl_route c \<and> cl_handle c' = cl_handle c \<and>
    (cl_context c' = cl_context c \<or> cl_context c' = cl_context c + 1)"
  using assms
  by (auto simp: client_transaction_def Let_def client_count_timeout_def count_timeout_def
      split: if_splits tx_fate.splits prod.splits dest!: transact_keeps)

lemma client_transaction_delivers:
  assumes "client_transaction cmd data op c = (Inr f, c')" "\<not> session_handle_exempt cmd"
  shows "cl_alive c' \<and> cl_context c' = cl_context c + 1 \<and>
    eh_sender_context (ef_header f) = le_bytes 8 (cl_context c + 1) \<and> eh_command (ef_header f) = cmd \<and>
    eh_session_handle (ef_header f) = cl_handle c \<and> eh_options (ef_header f) = 0"
proof -
  let ?t = "env_transaction cmd data (cl_request_timeout c) (cl_env c (cl_turn c))"
  from assms(1) obtain alive a where t: "transact ?t (cl_actor c) = ((alive, Some (Inr f)), a)"
    and c': "c' = c\<lparr>cl_turn := cl_turn c + 1, cl_actor := a, cl_alive := alive\<rparr>"
    by (auto simp: client_transaction_def Let_def split: if_splits tx_fate.splits prod.splits option.splits)
  from transact_delivers [OF t] transact_keeps [OF t] assms(2) show ?thesis
    unfolding c' by (auto simp: answers_def env_transaction_def)
qed

text \<open>What one request leaves of a client: the connection's counter moves by one, the context by at most one.\<close>

lemma send_cip_keeps:
  assumes "send_cip q op c = (res, c')"
  shows "cl_handle c' = cl_handle c \<and> (cl_context c' = cl_context c \<or> cl_context c' = cl_context c + 1) \<and>
    (case cl_connected c of
       None \<Rightarrow> cl_connected c' = None
     | Some conn \<Rightarrow> \<exists>conn'. cl_connected c' = Some conn' \<and> cn_sequence conn' = nth_sequence (cn_sequence conn) 0 \<and>
         cn_t_o_connection_id conn' = cn_t_o_connection_id conn)"
proof (cases "cl_connected c")
  case None
  with assms show ?thesis
    by (auto simp: send_cip_def send_unconnected_def split: sum.splits prod.splits dest!: client_transaction_keeps)
next
  case (Some conn)
  with assms show ?thesis
    by (auto simp: send_cip_def send_connected_def next_sequence_nth Let_def count_seq_mismatch_def
        split: sum.splits prod.splits if_splits dest!: client_transaction_keeps)
qed

lemma parse_connected_flag: "parse_connected_reply f seq addr = (Inr m, b) \<Longrightarrow> \<not> b"
  by (auto simp: parse_connected_reply_def split: if_splits sum.splits)

lemma send_cip_delivers:
  assumes "send_cip q op c = (Inr m, c')"
  shows "cl_context c' = cl_context c + 1 \<and>
    (\<exists>f. conveys (cl_connected c) 0 f m \<and> eh_sender_context (ef_header f) = le_bytes 8 (cl_context c') \<and>
         eh_session_handle (ef_header f) = cl_handle c \<and> eh_options (ef_header f) = 0)"
proof (cases "cl_connected c")
  case None
  with assms obtain data f where "client_transaction SendRRData data op c = (Inr f, c')"
    "parse_explicit_reply f = Inr m"
    by (auto simp: send_cip_def send_unconnected_def ok_then_Inr_iff split: sum.splits prod.splits)
  with client_transaction_delivers [OF this(1)] None show ?thesis
    by (auto simp: conveys_def session_handle_exempt_def)
next
  case (Some conn)
  let ?seq = "nth_sequence (cn_sequence conn) 0"
  let ?c = "c\<lparr>cl_connected := Some (conn\<lparr>cn_sequence := ?seq\<rparr>)\<rparr>"
  from assms Some
  have "\<exists>data f c1. client_transaction SendUnitData data op ?c = (Inr f, c1) \<and>
      parse_connected_reply f ?seq (cn_t_o_connection_id conn) = (Inr m, False) \<and> cl_actor c' = cl_actor c1"
    by (auto simp: send_cip_def send_connected_def next_sequence_nth Let_def
        split: sum.splits prod.splits if_splits dest: parse_connected_flag intro!: exI)
  then obtain data f c1 where f: "client_transaction SendUnitData data op ?c = (Inr f, c1)"
    and "parse_connected_reply f ?seq (cn_t_o_connection_id conn) = (Inr m, False)"
    and c': "cl_actor c' = cl_actor c1" by blast
  with client_transaction_delivers [OF f] Some c' show ?thesis
    by (auto simp: conveys_def session_handle_exempt_def)
qed

lemma conveys_Suc:
  assumes "send_cip q op c = (res, c')"
  shows "conveys (cl_connected c') i f m \<longleftrightarrow> conveys (cl_connected c) (Suc i) f m"
  using send_cip_keeps [OF assms] by (auto simp: conveys_def nth_sequence_nth split: option.splits)

lemma send_all_append:
  "send_all (xs @ ys) c = (case send_all xs c of (rs, c) \<Rightarrow> (case send_all ys c of (rs', c) \<Rightarrow> (rs @ rs', c)))"
  by (induction xs arbitrary: c) (simp_all split: prod.splits)

lemma length_send_all: "length (fst (send_all qs c)) = length qs"
  by (induction qs arbitrary: c) (simp_all add: case_prod_unfold)

lemma send_all_delivers:
  "fst (send_all qs c) ! i = Inr m \<Longrightarrow> i < length qs \<Longrightarrow>
     cl_context (client_after qs c (Suc i)) = cl_context (client_after qs c i) + 1 \<and>
     (\<exists>f. conveys (cl_connected c) i f m \<and>
        eh_sender_context (ef_header f) = le_bytes 8 (cl_context (client_after qs c (Suc i))) \<and>
        eh_session_handle (ef_header f) = cl_handle c \<and> eh_options (ef_header f) = 0)"
proof (induction qs arbitrary: c i)
  case (Cons q qs)
  obtain r c1 where s: "send_cip (fst q) (snd q) c = (r, c1)" by fastforce
  have after: "client_after (q # qs) c (Suc n) = client_after qs c1 n" for n
    by (simp add: client_after_def s split: prod.splits)
  show ?case
  proof (cases i)
    case 0
    with Cons.prems s have "r = Inr m" by (simp split: prod.splits)
    with send_cip_delivers [of "fst q" "snd q" c m c1] s 0 show ?thesis
      by (simp add: after) (auto simp: client_after_def)
  next
    case (Suc k)
    with Cons.prems s have k: "fst (send_all qs c1) ! k = Inr m" "k < length qs" by (auto split: prod.splits)
    from Cons.IH [OF this] show ?thesis
      using send_cip_keeps [OF s] by (auto simp: Suc after conveys_Suc [OF s])
  qed
qed simp

text \<open>How many contexts a run has drawn.\<close>

primrec drawn :: "(message_request \<times> string) list \<Rightarrow> client \<Rightarrow> nat" where
  "drawn [] c = 0"
| "drawn (q # qs) c =
     (let c' = snd (send_cip (fst q) (snd q) c) in of_bool (cl_context c' \<noteq> cl_context c) + drawn qs c')"

lemma drawn_le: "drawn qs c \<le> length qs"
  by (induction qs arbitrary: c) (simp_all add: Let_def add_mono le_SucI)

lemma drawn_append: "drawn (xs @ ys) c = drawn xs c + drawn ys (snd (send_all xs c))"
  by (induction xs arbitrary: c) (simp_all add: Let_def split: prod.splits)

lemma send_all_context: "cl_context (snd (send_all qs c)) = cl_context c + of_nat (drawn qs c)"
proof (induction qs arbitrary: c)
  case (Cons q qs)
  obtain r c1 where s: "send_cip (fst q) (snd q) c = (r, c1)" by fastforce
  show ?case
    using Cons [of c1] send_cip_keeps [OF s] by (auto simp: s Let_def split: prod.splits)
qed simp

lemma client_after_context: "cl_context (client_after qs c n) = cl_context c + of_nat (drawn (take n qs) c)"
  by (simp add: client_after_def send_all_context)

lemma drawn_take_mono: "j \<le> i \<Longrightarrow> drawn (take j qs) c \<le> drawn (take i qs) c"
proof -
  assume "j \<le> i"
  then have "take i qs = take j qs @ drop j (take i qs)"
    using append_take_drop_id [of j "take i qs"] by (simp add: min_def)
  then show ?thesis by (metis drawn_append le_add1)
qed


text \<open>The counts drawn by \<open>n\<close> requests in a row.\<close>

primrec sequences :: "nat \<Rightarrow> connected_state \<Rightarrow> u16 list" where
  "sequences 0 conn = []"
| "sequences (Suc n) conn = (case next_sequence conn of (v, conn) \<Rightarrow> v # sequences n conn)"

lemma sequences_eq: "sequences n conn = map (nth_sequence (cn_sequence conn)) [0..<n]"
proof (induction n arbitrary: conn)
  case (Suc n)
  have "sequences (Suc n) conn =
      nth_sequence (cn_sequence conn) 0 # map (\<lambda>i. nth_sequence (cn_sequence conn) (Suc i)) [0..<n]"
    by (simp add: next_sequence_nth Suc nth_sequence_nth)
  then show ?case unfolding map_upt_Suc .
qed simp

lemma nth_sequence_inj_on: "inj_on (nth_sequence s) {k..<k + 65535}"
proof (rule inj_onI)
  fix x y assume "x \<in> {k..<k + 65535}" "y \<in> {k..<k + 65535}" "nth_sequence s x = nth_sequence s y"
  then show "x = y"
    using nth_sequence_inject [of s x y] nth_sequence_inject [of s y x] by (cases "x \<le> y") auto
qed

text \<open>
  The sequence counts of a class 3 connection: none is 0, and among any 65535 consecutive requests
  no two share one, so a reply can be mistaken for another's only after a full turn of the counter.
\<close>

theorem connected_sequences_distinct:
  "0 \<notin> set (sequences n conn) \<and> distinct (take 65535 (drop k (sequences n conn)))"
proof
  have "nth_sequence (cn_sequence conn) i \<noteq> 0" for i
    using unat_nth_sequence [of "cn_sequence conn" i] by auto
  then show "0 \<notin> set (sequences n conn)" by (auto simp: sequences_eq dest: sym)
  have "inj_on (nth_sequence (cn_sequence conn)) (set (take 65535 [k..<n]))"
    by (rule inj_on_subset [OF nth_sequence_inj_on [of _ k]]) (cases "k + 65535 \<le> n"; auto simp: take_upt)
  then show "distinct (take 65535 (drop k (sequences n conn)))"
    by (simp add: sequences_eq drop_map take_map distinct_map)
qed

section \<open>The keepalive does not spin\<close>

lemma await_reply_alive_error:
  "await_reply ex a = ((True, Some (Inl e)), a') \<Longrightarrow> st_timeouts (ac_stats a') = st_timeouts (ac_stats a) + 1"
proof (induction ex a rule: await_reply.induct)
  case (1 ex a)
  obtain out buf inbox where r: "read_frame (ac_buf a) (ac_inbox a) = (out, buf, inbox)"
    by (metis prod_cases3)
  show ?case
    using "1.prems" "1.IH" [OF r [symmetric] refl refl]
    by (subst (asm) await_reply.simps)
      (auto simp: r Let_def count_timeout_def count_options_def count_stale_def
        split: read_outcome.splits reply_match.splits if_splits)
qed

lemma await_reply_some: "await_reply ex a = ((alive, None), a') \<Longrightarrow> False"
proof (induction ex a rule: await_reply.induct)
  case (1 ex a)
  obtain out buf inbox where r: "read_frame (ac_buf a) (ac_inbox a) = (out, buf, inbox)"
    by (metis prod_cases3)
  show ?case
    using "1.prems" "1.IH" [OF r [symmetric] refl refl]
    by (subst (asm) await_reply.simps)
      (auto simp: r Let_def split: read_outcome.splits reply_match.splits if_splits)
qed

lemma await_reply_timeouts_counted:
  "await_reply ex a = (res, a') \<Longrightarrow>
     st_timeouts (ac_stats a') = st_timeouts (ac_stats a) \<or> st_timeouts (ac_stats a') = st_timeouts (ac_stats a) + 1"
proof (induction ex a rule: await_reply.induct)
  case (1 ex a)
  obtain out buf inbox where r: "read_frame (ac_buf a) (ac_inbox a) = (out, buf, inbox)"
    by (metis prod_cases3)
  show ?case
    using "1.prems" "1.IH" [OF r [symmetric] refl refl]
    by (subst (asm) await_reply.simps)
      (auto simp: r Let_def count_timeout_def count_options_def count_stale_def
        split: read_outcome.splits reply_match.splits if_splits)
qed

text \<open>A transaction that ends without a frame on a session that lives on has been counted as a timeout.\<close>

lemma transact_alive_error:
  assumes "transact t a = ((True, Some (Inl e)), a')"
  shows "st_timeouts (ac_stats a') = st_timeouts (ac_stats a) + 1"
  using assms
  by (auto simp: transact_def Let_def next_context_def count_timeout_def
      split: preflight_verdict.splits option.splits sum.splits dest!: await_reply_alive_error)

lemma transact_none: "transact t a = ((alive, None), a') \<Longrightarrow> tx_reply_closed t"
  by (auto simp: transact_def Let_def preflight_def split: preflight_verdict.splits option.splits sum.splits if_splits
      prod.splits dest: await_reply_some)

lemma transact_timeouts_counted:
  assumes "transact t a = (res, a')"
  shows "st_timeouts (ac_stats a') = st_timeouts (ac_stats a) \<or> st_timeouts (ac_stats a') = st_timeouts (ac_stats a) + 1"
  using assms
  by (auto simp: transact_def Let_def next_context_def count_timeout_def
      split: preflight_verdict.splits option.splits sum.splits dest!: await_reply_timeouts_counted)

lemma client_transaction_error:
  assumes "client_transaction cmd data op c = (Inl e, c')" "cl_alive c'"
  shows "st_timeouts (client_stats c') \<noteq> st_timeouts (client_stats c)"
proof -
  have "st_timeouts (client_stats c') = st_timeouts (client_stats c) + 1 \<or>
      st_timeouts (client_stats c') = st_timeouts (client_stats c) + 2"
  proof (cases "te_fate (cl_env c (cl_turn c))")
    case VerdictReceived
    with assms show ?thesis
      by (auto simp: client_transaction_def Let_def client_stats_def split: if_splits prod.splits option.splits
          dest: transact_alive_error dest!: transact_none) (simp add: env_transaction_def VerdictReceived)
  next
    case (BackstopElapsed closed)
    with assms show ?thesis
      by (auto simp: client_transaction_def Let_def client_stats_def client_count_timeout_def count_timeout_def
          split: if_splits prod.splits dest!: transact_timeouts_counted)
  qed (use assms in \<open>auto simp: client_transaction_def Let_def client_count_timeout_def count_timeout_def
      client_stats_def split: if_splits\<close>)
  then show ?thesis by auto
qed
lemma count_keepalive_simps [simp]:
  "cl_connected (count_keepalive c) = cl_connected c" "cl_alive (count_keepalive c) = cl_alive c"
  "st_timeouts (client_stats (count_keepalive c)) = st_timeouts (client_stats c)"
  by (simp_all add: count_keepalive_def client_stats_def)

lemma count_seq_mismatch_simps [simp]:
  "cl_connected (count_seq_mismatch c) = cl_connected c" "cl_alive (count_seq_mismatch c) = cl_alive c"
  by (simp_all add: count_seq_mismatch_def)

lemma send_connected_activity:
  assumes "send_connected conn q op c = (res, c')" "message_request_encode q = Inr bs" "length bs < 60000"
  shows "\<exists>conn'. cl_connected c' = Some conn' \<and>
    (cn_activity conn' = activity_touch (te_done (cl_env c (cl_turn c))) (cn_activity conn) \<or>
     cn_activity conn' = cn_activity conn \<and>
     (\<not> cl_alive c' \<or> st_timeouts (client_stats c') \<noteq> st_timeouts (client_stats c)))"
proof -
  let ?seq = "nth_sequence (cn_sequence conn) 0"
  let ?c = "c\<lparr>cl_connected := Some (conn\<lparr>cn_sequence := ?seq\<rparr>)\<rparr>"
  obtain data where data: "encap_data_with_cpf [connected_address (cn_o_t_connection_id conn),
      Cpf.connected_data (w_put_slice bs (w_u16 ?seq []))] = Inr data"
    using assms(3) by (auto simp: encap_data_with_cpf_def cpf_encode_def cpf_item_write_def connected_address_def
        connected_data_def cpf_item_new_def writer_defs u16_try_from_def)
  obtain r c1 where t: "client_transaction SendUnitData data op ?c = (r, c1)" by fastforce
  have keep: "cl_connected c1 = cl_connected ?c" using client_transaction_keeps [OF t] by simp
  show ?thesis
  proof (cases r)
    case (Inl e)
    with assms data t have "c' = c1" by (simp add: send_connected_def next_sequence_nth Let_def)
    with client_transaction_error [of SendUnitData data op ?c e c1] t Inl keep show ?thesis
      by (auto simp: client_stats_def)
  next
    case (Inr f)
    with assms data t show ?thesis
      by (auto simp: send_connected_def next_sequence_nth Let_def split: prod.splits if_splits)
  qed
qed

text \<open>
  C20. A probe that fails cannot make the keepalive loop spin. Whenever the loop goes on after a wake-up
  at which a probe was due, either the activity clock has been set to the instant of the reply,
  which moves the next probe out by three quarters of the window, or the request has been counted as
  a timeout, or the session has ended, and the next probe ends the loop.
\<close>

theorem keepalive_never_spins:
  assumes "cl_connected c = Some conn" "keepalive_turn held now c = (True, c')"
    and "keepalive_due now (activity_last (cn_activity conn)) (cn_inactivity_window conn)"
  shows "\<exists>conn'. cl_connected c' = Some conn' \<and>
    (cn_activity conn' = activity_touch (te_done (cl_env c (cl_turn c))) (cn_activity conn) \<or>
     cn_activity conn' = cn_activity conn \<and>
     (\<not> cl_alive c' \<or> st_timeouts (client_stats c') \<noteq> st_timeouts (client_stats c)))"
proof -
  let ?q = "message_request_new SERVICE_GET_ATTRIBUTE_SINGLE
      (ep_attribute IDENTITY_ATTR_REVISION (ep_instance (ucast IDENTITY_INSTANCE) (ep_class IDENTITY_CLASS []))) []"
  have "\<exists>bs. message_request_encode ?q = Inr bs \<and> length bs < 60000"
    by (simp add: message_request_encode_def message_request_new_def epath_encode_def segment_encode.simps
        encode_logical_def encode_logical_wide_def MAX_PATH_WORDS_def u8_try_from_def writer_defs
        ep_attribute_def ep_instance_def ep_class_def IDENTITY_ATTR_REVISION_def IDENTITY_INSTANCE_def IDENTITY_CLASS_def)
  then obtain bs where bs: "message_request_encode ?q = Inr bs" "length bs < 60000" by blast
  obtain res c1 where s: "send_connected conn ?q ''get_attribute_single'' c = (res, c1)" by fastforce
  from assms s have "c' = c1 \<or> c' = count_keepalive c1"
    by (auto simp: keepalive_turn_def keepalive_probe_def get_attribute_single_def send_cip_def Let_def
        split: if_splits sum.splits enip_error.splits)
  with send_connected_activity [OF s bs] show ?thesis by auto
qed

section \<open>A request that is answered\<close>

lemma await_answered:
  assumes "ac_buf a = []" "ac_inbox a = [Chunk bs]"
    and f: "wf_encap_frame f" "encap_frame_encode f = Inr bs" "eh_command (ef_header f) \<noteq> Nop"
    and m: "match_reply ex (ef_header f) = Match" "eh_options (ef_header f) = 0"
      "\<not> poisons_session (eh_status (ef_header f))"
  shows "\<exists>a'. await_reply ex a = ((True, Some (Inr f)), a')"
proof -
  have "codec_drain ([] @ concat [bs]) = ([f], None, [])"
    using codec_drain_stream [of "[f]" "[bs]" "[]"] codec_drain.simps [of "[]"] codec_decode_step [of "[]"] f by simp
  moreover have "bs \<noteq> []" using f(2) by (auto simp: encap_frame_encode_def encap_header_write_def writer_defs Let_def
      le_bytes_unfold split: if_splits option.splits)
  ultimately show ?thesis
    using await_reply_spec [of a "[bs]" "[f]" None "[]" ex] assms by (cases "await_reply ex a") simp
qed

definition example_env :: "bytes \<Rightarrow> tx_env" where
  "example_env bs =
     \<lparr>te_fate = VerdictReceived, te_now = 0, te_taken = 0, te_write = Written, te_arrivals = [Chunk bs], te_done = 1\<rparr>"

definition example_client :: "(nat \<Rightarrow> tx_env) \<Rightarrow> client" where
  "example_client env =
     \<lparr>cl_actor = example_actor 3, cl_alive = True, cl_route = None, cl_request_timeout = from_secs 3,
      cl_max_value_bytes = 1048576, cl_connected = None, cl_peer_ip = None, cl_env = env, cl_turn = 0\<rparr>"

text \<open>The answer to the first request of session 7: a successful Get_Attribute_Single with one byte.\<close>

definition example_answer :: encap_frame where
  "example_answer =
     encap_frame_new (encap_header_request SendRRData 0 7 [1, 0, 0, 0, 0, 0, 0, 0])
       ([0, 0, 0, 0, 0, 0] @ [2, 0, 0, 0, 0, 0, 0xB2, 0, 5, 0, 0x8E, 0, 0, 0, 9])"

definition example_answer_bytes :: bytes where
  "example_answer_bytes =
     [0x6F, 0, 21, 0, 7, 0, 0, 0, 0, 0, 0, 0, 1, 0, 0, 0, 0, 0, 0, 0, 0, 0, 0, 0] @
     [0, 0, 0, 0, 0, 0, 2, 0, 0, 0, 0, 0, 0xB2, 0, 5, 0, 0x8E, 0, 0, 0, 9]"

lemma example_answer_wf:
  "wf_encap_frame example_answer" "encap_frame_encode example_answer = Inr example_answer_bytes"
  by (simp_all add: wf_encap_frame_def wf_encap_header_def encap_frame_new_def encap_header_request_def
      command_from_code_def encap_status_from_code_def u16_try_from_def example_answer_def example_answer_bytes_def
      encap_frame_encode_def Let_def encap_header_write_def writer_defs le_bytes_unfold)

lemma example_answer_parse:
  "parse_explicit_reply example_answer =
     Inr \<lparr>mr_reply_service = 0x8E, mr_status = \<lparr>general = Success, extended = []\<rparr>, mr_data = [9]\<rparr>"
proof -
  have "cpf_encode [null_address, unconnected_data [0x8E, 0, 0, 0, 9]] =
      Inr [2, 0, 0, 0, 0, 0, 0xB2, 0, 5, 0, 0x8E, 0, 0, 0, 9]"
    by (simp add: null_address_def unconnected_data_def cpf_item_new_def cpf_encode_def cpf_item_write_def
        u16_try_from_def writer_defs le_bytes_unfold)
  then have "cpf_decode [2, 0, 0, 0, 0, 0, 0xB2, 0, 5, 0, 0x8E, 0, 0, 0, 9] =
      Inr [null_address, unconnected_data [0x8E, 0, 0, 0, 9]]"
    by (rule cpf_decode_encode [rotated])
      (simp_all add: wf_cpf_def wf_cpf_item_def null_address_def unconnected_data_def cpf_item_new_def
        item_type_from_code_def)
  then show ?thesis
    by (simp add: parse_explicit_reply_def example_answer_def encap_frame_new_def encap_header_request_def
        encap_status_is_ok_def reply_body_def wire_simps expect_explicit_data_def null_address_def
        unconnected_data_def cpf_item_new_def message_reply_decode_def with_extended_def
        general_status_from_code_def checked_mul_usize_def usize_max_def)
qed

lemma example_transaction_answered:
  assumes "length data \<le> 1000"
  shows "\<exists>c'. client_transaction SendRRData data op (example_client (\<lambda>_. example_env example_answer_bytes)) =
    (Inr example_answer, c')"
proof -
  let ?ex = "\<lparr>re_command = SendRRData, re_session_handle = 7, re_context = [1, 0, 0, 0, 0, 0, 0, 0]\<rparr>"
  let ?t = "env_transaction SendRRData data (from_secs 3) (example_env example_answer_bytes)"
  have due: "deadline_from 0 (from_secs 3) = 3000000000"
    by (simp add: deadline_from_def instant_checked_add_def from_secs_def instant_max_def)
  have "\<exists>b. transact ?t (example_actor 3) = await_reply ?ex b \<and> ac_inbox b = [Chunk example_answer_bytes] \<and> ac_buf b = []"
    using assms
    by (simp add: transact_def preflight_def env_transaction_def example_env_def due next_context_def Let_def send_frame_def
        encap_frame_encode_def encap_frame_new_def example_actor_def spawn_session_def le_bytes_8_1 u16_try_from_def)
      (rule exI, rule conjI, rule refl, simp)
  then obtain b where b: "transact ?t (example_actor 3) = await_reply ?ex b"
    "ac_inbox b = [Chunk example_answer_bytes]" "ac_buf b = []" by blast
  have "\<exists>a'. await_reply ?ex b = ((True, Some (Inr example_answer)), a')"
    using b example_answer_wf
    by (intro await_answered) (simp_all add: example_answer_def encap_frame_new_def encap_header_request_def
        match_reply_def session_handle_exempt_def poisons_session_def)
  with b(1) show ?thesis
    by (auto simp: client_transaction_def example_client_def Let_def example_env_def)
qed


text \<open>A connection of a 32 s window opened at instant 0, whose probe at 24 s times out in the command queue.\<close>

definition example_connection :: connected_state where
  "example_connection =
     \<lparr>cn_o_t_connection_id = 1, cn_t_o_connection_id = 3, cn_sequence = 0,
      cn_open_request = forward_open_class3 0 3 1 2 3 message_router_path 2000000 X16,
      cn_inactivity_window = 32000000000, cn_negotiated_interval = 2000000000, cn_timeout_multiplier = X16,
      cn_activity = activity_new 0\<rparr>"

theorem keepalive_never_spins_witness:
  "\<exists>c conn c'. cl_connected c = Some conn \<and> keepalive_turn True 24000000000 c = (True, c') \<and>
     st_timeouts (client_stats c') \<noteq> st_timeouts (client_stats c)"
proof -
  let ?c = "(example_client (\<lambda>_. (example_env [])\<lparr>te_fate := HandoffElapsed\<rparr>))\<lparr>cl_connected := Some example_connection\<rparr>"
  have due: "keepalive_due 24000000000 (activity_last (cn_activity example_connection))
      (cn_inactivity_window example_connection)"
    by (simp add: keepalive_due_def next_keepalive_at_def example_connection_def activity_last_def activity_new_def
        instant_checked_add_def duration_checked_mul_def duration_checked_div_def keepalive_defs instant_max_def
        duration_max_def)
  obtain go c' where t: "keepalive_turn True 24000000000 ?c = (go, c')" by fastforce
  with due have c': "go" "cl_alive c'" "cn_activity (the (cl_connected c')) = activity_new 0"
    by (auto simp: keepalive_turn_def keepalive_probe_def get_attribute_single_def send_cip_def send_connected_def
        next_sequence_nth client_transaction_def example_env_def example_client_def client_count_timeout_def
        attribute_reply_def message_request_encode_def message_request_new_def epath_encode_def segment_encode.simps
        encode_logical_def encode_logical_wide_def MAX_PATH_WORDS_def u8_try_from_def writer_defs
        ep_attribute_def ep_instance_def ep_class_def IDENTITY_ATTR_REVISION_def IDENTITY_INSTANCE_def IDENTITY_CLASS_def
        encap_data_with_cpf_def cpf_encode_def cpf_item_write_def connected_address_def connected_data_def
        cpf_item_new_def u16_try_from_def example_connection_def Let_def)
  have "activity_touch 1 (activity_new 0) \<noteq> activity_new 0"
    by (simp add: activity_touch_def activity_new_def saturating_duration_since_def max_def)
  with keepalive_never_spins [of ?c example_connection True 24000000000 c'] t due c'
  have "st_timeouts (client_stats c') \<noteq> st_timeouts (client_stats ?c)"
    by (auto simp: example_client_def example_env_def example_connection_def)
  with t c' show ?thesis by (intro exI [of _ ?c] exI [of _ example_connection] exI [of _ c']) simp
qed

section \<open>The handshake\<close>

text \<open>
  C19. Opening a session takes exactly one frame off the stream. When the stream, however it is cut into
  reads, starts with an acceptable register reply, the connect succeeds with the handle of that reply,
  and the frames behind the reply, if the peer has already sent any, are exactly those the session
  actor finds.
\<close>

theorem connect_over_stream:
  assumes "wf_encap_frame reply" "encap_frame_encode reply = Inr bs" "check_register_reply reply = Inr handle"
    and "[] \<notin> set cs" "concat cs = bs @ rest" "\<not> co_connected_messaging opts"
  shows "\<exists>c cs'. connect_over opts Written (map Chunk cs) env rnd now = Inr c \<and> cl_alive c \<and> cl_handle c = handle \<and>
    ac_inbox (cl_actor c) = map Chunk cs' \<and> codec_drain (ac_buf (cl_actor c) @ concat cs') = codec_drain rest"
proof -
  have "eh_command (ef_header reply) \<noteq> Nop"
    using assms(3) by (auto simp: check_register_reply_def Let_def split: if_splits)
  then have drain: "codec_drain ([] @ concat cs) = (case codec_drain rest of (fs, e, r) \<Rightarrow> (reply # fs, e, r))"
    using codec_drain_stream [of "[reply]" "[bs]" rest] assms(1,2,5) by simp
  obtain out buf inbox where r: "read_frame [] (map Chunk cs) = (out, buf, inbox)" by (metis prod_cases3)
  note step = read_frame_drain [OF assms(4), of "[]", unfolded r]
  from step drain have "\<exists>cs'. out = Frame reply \<and> inbox = map Chunk cs' \<and>
      codec_drain (buf @ concat cs') = codec_drain rest"
    by (cases out) (auto simp: case_prod_unfold prod_eq_iff)
  then obtain cs' where out: "out = Frame reply" and inbox: "inbox = map Chunk cs'"
    and same: "codec_drain (buf @ concat cs') = codec_drain rest" by blast
  have "\<exists>b. send_frame_by register_frame Written = Inr b"
    by (simp add: send_frame_by_def send_frame_def register_frame_def encap_frame_encode_def encap_frame_new_def
        encap_header_request_def u16_try_from_def writer_defs Let_def)
  then show ?thesis
    using assms(3,6) r out inbox same
    by (auto simp: connect_over_def recv_frame_def spawn_session_def)
qed

theorem connect_over_stream_witness:
  "\<exists>c. connect_over client_options_default Written
      [Chunk [0x65, 0, 4, 0, 7, 0, 0, 0, 0, 0, 0, 0], Chunk (ascii ''ECREGIST'' @ [0, 0, 0, 0, 1, 0, 0, 0])]
      (\<lambda>_. example_env []) (1, 2, 3) 0 = Inr c \<and> cl_handle c = 7"
proof -
  let ?f = "encap_frame_new (encap_header_request RegisterSession 0 7 REGISTER_CONTEXT) [1, 0, 0, 0]"
  let ?cs = "[[0x65, 0, 4, 0, 7, 0, 0, 0, 0, 0, 0, 0], ascii ''ECREGIST'' @ [0, 0, 0, 0, 1, 0, 0, 0]] :: bytes list"
  have f: "wf_encap_frame ?f" "encap_frame_encode ?f = Inr (concat ?cs)"
    by (simp_all add: wf_encap_frame_def wf_encap_header_def encap_frame_new_def encap_header_request_def
        command_from_code_def encap_status_from_code_def u16_try_from_def encap_frame_encode_def Let_def
        encap_header_write_def writer_defs le_bytes_unfold REGISTER_CONTEXT_def ascii_def)
  have reg: "check_register_reply ?f = Inr 7"
    by (simp add: check_register_reply_def encap_frame_new_def encap_header_request_def encap_status_is_ok_def
        wire_simps PROTOCOL_VERSION_def Let_def)
  show ?thesis
    using connect_over_stream [OF f reg, of ?cs "[]" client_options_default "\<lambda>_. example_env []" "(1, 2, 3)" 0]
    by (auto simp: client_options_default_def)
qed

end
