(* ===== verification/F64.thy ===== *)
theory F64
  imports Prelude Complex_Main
begin

text \<open>
  The floating-point numbers of the language as the adapter uses them: IEEE 754 binary64 (\<^verbatim>\<open>f64\<close>) and
  its conversions to and from binary32 (\<^verbatim>\<open>f32\<close>). A finite number is its sign and its magnitude, a
  rational; arithmetic is the exact result rounded to nearest, ties to even, with gradual underflow
  and overflow to infinity. NaN payloads are not kept.
\<close>

section \<open>Rounding\<close>

fun ilog2 :: "nat \<Rightarrow> nat" where
  "ilog2 n = (if n < 2 then 0 else Suc (ilog2 (n div 2)))"

declare ilog2.simps [simp del]

definition pow2 :: "int \<Rightarrow> rat" where
  "pow2 k = (if 0 \<le> k then 2 ^ nat k else 1 / 2 ^ nat (- k))"

text \<open>The exponent of a positive rational: \<open>pow2 (flog2 q) \<le> q < pow2 (flog2 q + 1)\<close>.\<close>

definition flog2 :: "rat \<Rightarrow> int" where
  "flog2 q =
     (case quotient_of q of (a, b) \<Rightarrow>
      let k = int (ilog2 (nat a)) - int (ilog2 (nat b)) in if pow2 k \<le> q then k else k - 1)"

definition round_half_even :: "rat \<Rightarrow> int" where
  "round_half_even q =
     (let f = \<lfloor>q\<rfloor>; d = q - of_int f in
      if d < 1 / 2 then f else if d > 1 / 2 then f + 1 else if even f then f else f + 1)"

text \<open>A magnitude rounded to \<open>p\<close> significant bits, with \<open>emin\<close> the exponent of the last subnormal bit.\<close>

definition round_mag :: "int \<Rightarrow> int \<Rightarrow> rat \<Rightarrow> rat" where
  "round_mag p emin q =
     (if q = 0 then 0
      else let e = max (flog2 q - (p - 1)) emin in of_int (round_half_even (q / pow2 e)) * pow2 e)"

section \<open>Numbers\<close>

datatype f64 = Finite bool rat | Infinite bool | NaN

definition f64_zero :: f64 where "f64_zero = Finite False 0"
definition f64_one :: f64 where "f64_one = Finite False 1"

fun f64_value :: "f64 \<Rightarrow> rat" where
  "f64_value (Finite s q) = (if s then - q else q)"
| "f64_value _ = 0"

fun is_finite :: "f64 \<Rightarrow> bool" where
  "is_finite (Finite _ _) = True"
| "is_finite _ = False"

definition round_f64 :: "bool \<Rightarrow> rat \<Rightarrow> f64" where
  "round_f64 s q = (let r = round_mag 53 (- 1074) q in if pow2 1024 \<le> r then Infinite s else Finite s r)"

text \<open>The nearest number of a rational; \<^verbatim>\<open>as f64\<close> on an integer. An exact zero is positive.\<close>

definition f64_of_rat :: "rat \<Rightarrow> f64" where
  "f64_of_rat r = round_f64 (r < 0) \<bar>r\<bar>"

definition f64_of_int :: "int \<Rightarrow> f64" where
  "f64_of_int i = f64_of_rat (of_int i)"

section \<open>Arithmetic\<close>

fun f64_neg :: "f64 \<Rightarrow> f64" where
  "f64_neg (Finite s q) = Finite (\<not> s) q"
| "f64_neg (Infinite s) = Infinite (\<not> s)"
| "f64_neg NaN = NaN"

fun f64_abs :: "f64 \<Rightarrow> f64" where
  "f64_abs (Finite s q) = Finite False q"
| "f64_abs (Infinite s) = Infinite False"
| "f64_abs NaN = NaN"

fun f64_add :: "f64 \<Rightarrow> f64 \<Rightarrow> f64" where
  "f64_add (Finite s q) (Finite t r) =
     (let v = f64_value (Finite s q) + f64_value (Finite t r) in
      if v = 0 then Finite (s \<and> t) 0 else f64_of_rat v)"
| "f64_add (Infinite s) (Infinite t) = (if s = t then Infinite s else NaN)"
| "f64_add (Infinite s) (Finite _ _) = Infinite s"
| "f64_add (Finite _ _) (Infinite t) = Infinite t"
| "f64_add _ _ = NaN"

definition f64_sub :: "f64 \<Rightarrow> f64 \<Rightarrow> f64" where
  "f64_sub a b = f64_add a (f64_neg b)"

fun f64_mul :: "f64 \<Rightarrow> f64 \<Rightarrow> f64" where
  "f64_mul (Finite s q) (Finite t r) = round_f64 (s \<noteq> t) (q * r)"
| "f64_mul (Infinite s) (Infinite t) = Infinite (s \<noteq> t)"
| "f64_mul (Infinite s) (Finite t r) = (if r = 0 then NaN else Infinite (s \<noteq> t))"
| "f64_mul (Finite s q) (Infinite t) = (if q = 0 then NaN else Infinite (s \<noteq> t))"
| "f64_mul _ _ = NaN"

fun f64_div :: "f64 \<Rightarrow> f64 \<Rightarrow> f64" where
  "f64_div (Finite s q) (Finite t r) =
     (if r = 0 then (if q = 0 then NaN else Infinite (s \<noteq> t)) else round_f64 (s \<noteq> t) (q / r))"
| "f64_div (Infinite s) (Infinite t) = NaN"
| "f64_div (Infinite s) (Finite t _) = Infinite (s \<noteq> t)"
| "f64_div (Finite s _) (Infinite t) = Finite (s \<noteq> t) 0"
| "f64_div _ _ = NaN"

section \<open>Comparison and rounding to integers\<close>

fun f64_eq :: "f64 \<Rightarrow> f64 \<Rightarrow> bool" where
  "f64_eq (Finite s q) (Finite t r) \<longleftrightarrow> f64_value (Finite s q) = f64_value (Finite t r)"
| "f64_eq (Infinite s) (Infinite t) \<longleftrightarrow> s = t"
| "f64_eq _ _ \<longleftrightarrow> False"

fun f64_le :: "f64 \<Rightarrow> f64 \<Rightarrow> bool" where
  "f64_le (Finite s q) (Finite t r) \<longleftrightarrow> f64_value (Finite s q) \<le> f64_value (Finite t r)"
| "f64_le (Infinite s) (Infinite t) \<longleftrightarrow> s \<or> \<not> t"
| "f64_le (Infinite s) (Finite _ _) \<longleftrightarrow> s"
| "f64_le (Finite _ _) (Infinite t) \<longleftrightarrow> \<not> t"
| "f64_le _ _ \<longleftrightarrow> False"

definition f64_lt :: "f64 \<Rightarrow> f64 \<Rightarrow> bool" where
  "f64_lt a b \<longleftrightarrow> f64_le a b \<and> \<not> f64_eq a b"

text \<open>\<^verbatim>\<open>f64::round\<close> (half away from zero), whose result is an integer, \<^verbatim>\<open>fract() != 0\<close>, and the saturating casts.\<close>

definition round_half_away :: "rat \<Rightarrow> int" where
  "round_half_away r = (if r < 0 then - \<lfloor>- r + 1 / 2\<rfloor> else \<lfloor>r + 1 / 2\<rfloor>)"

definition has_fract :: "f64 \<Rightarrow> bool" where
  "has_fract x \<longleftrightarrow> f64_value x \<notin> \<int>"

definition i128_saturating :: "int \<Rightarrow> int" where
  "i128_saturating i = (if i < - (2 ^ 127) then - (2 ^ 127) else if i \<ge> 2 ^ 127 then 2 ^ 127 - 1 else i)"

section \<open>Representations\<close>

fun ieee_decode :: "nat \<Rightarrow> nat \<Rightarrow> nat \<Rightarrow> f64" where
  "ieee_decode mbits ebits w =
     (let s = odd (w div 2 ^ (mbits + ebits));
          ex = (w div 2 ^ mbits) mod 2 ^ ebits;
          m = w mod 2 ^ mbits;
          bias = 2 ^ (ebits - 1) - 1
      in if ex = 2 ^ ebits - 1 then (if m = 0 then Infinite s else NaN)
         else if ex = 0 then Finite s (of_nat m * pow2 (1 - int bias - int mbits))
         else Finite s (of_nat (2 ^ mbits + m) * pow2 (int ex - int bias - int mbits)))"

definition f64_from_bits :: "u64 \<Rightarrow> f64" where
  "f64_from_bits w = ieee_decode 52 11 (unat w)"

text \<open>\<^verbatim>\<open>f64::from(f32)\<close>, which is exact.\<close>

definition f64_from_f32 :: "u32 \<Rightarrow> f64" where
  "f64_from_f32 w = ieee_decode 23 8 (unat w)"

fun ieee_encode :: "nat \<Rightarrow> nat \<Rightarrow> f64 \<Rightarrow> nat" where
  "ieee_encode mbits ebits (Infinite s) = of_bool s * 2 ^ (mbits + ebits) + (2 ^ ebits - 1) * 2 ^ mbits"
| "ieee_encode mbits ebits NaN = (2 ^ ebits - 1) * 2 ^ mbits + 2 ^ (mbits - 1)"
| "ieee_encode mbits ebits (Finite s q) =
     (let bias = 2 ^ (ebits - 1) - 1;
          emin = 1 - int bias - int mbits
      in of_bool s * 2 ^ (mbits + ebits) +
         (if q < 2 ^ mbits * pow2 emin then nat \<lfloor>q / pow2 emin\<rfloor>
          else let e = flog2 q in
               nat (e + int bias) * 2 ^ mbits + (nat \<lfloor>q / pow2 (e - int mbits)\<rfloor> - 2 ^ mbits)))"

definition f64_to_bits :: "f64 \<Rightarrow> u64" where
  "f64_to_bits x = of_nat (ieee_encode 52 11 x)"

text \<open>\<^verbatim>\<open>as f32\<close>: rounded to the narrower format, overflowing to infinity.\<close>

fun f32_of_f64 :: "f64 \<Rightarrow> u32" where
  "f32_of_f64 (Finite s q) =
     (let r = round_mag 24 (- 149) q
      in of_nat (ieee_encode 23 8 (if pow2 128 \<le> r then Infinite s else Finite s r)))"
| "f32_of_f64 x = of_nat (ieee_encode 23 8 x)"

text \<open>The largest finite \<^verbatim>\<open>f32\<close>, as an \<^verbatim>\<open>f64\<close>.\<close>

definition F32_MAX :: f64 where
  "F32_MAX = Finite False ((2 ^ 24 - 1) * 2 ^ 104)"

section \<open>Lemmas\<close>

lemma pow2_simps [simp]: "pow2 0 = 1" "0 < pow2 k" "pow2 k \<noteq> 0" "0 \<le> pow2 k"
  by (simp_all add: pow2_def)

lemma pow2_powi: "pow2 k = 2 powi k"
  by (simp add: pow2_def power_int_def field_simps)

lemma pow2_add: "pow2 (a + b) = pow2 a * pow2 b"
  by (simp add: pow2_powi power_int_add)

lemma pow2_nat [simp]: "pow2 (int n) = 2 ^ n"
  by (simp add: pow2_def)

lemma pow2_diff: "pow2 (a - b) = pow2 a / pow2 b"
  by (simp add: pow2_powi power_int_diff)

lemma pow2_mono: "a \<le> b \<Longrightarrow> pow2 a \<le> pow2 b"
  by (simp add: pow2_powi power_int_increasing)

lemma pow2_less: "a < b \<Longrightarrow> pow2 a < pow2 b"
  by (simp add: pow2_powi power_int_strict_increasing)

lemma pow2_less_iff: "pow2 a < pow2 b \<longleftrightarrow> a < b"
  by (metis pow2_less pow2_mono not_less)

lemma ilog2_bounds: "0 < n \<Longrightarrow> 2 ^ ilog2 n \<le> n \<and> n < 2 ^ Suc (ilog2 n)"
proof (induction n rule: ilog2.induct)
  case (1 n)
  show ?case
  proof (cases "n < 2")
    case True
    then show ?thesis using "1.prems" by (subst (1 2) ilog2.simps) auto
  next
    case False
    then have ih: "2 ^ ilog2 (n div 2) \<le> n div 2" "n div 2 < 2 ^ Suc (ilog2 (n div 2))"
      using "1.IH" by auto
    then show ?thesis using False by (subst (1 2) ilog2.simps) auto
  qed
qed

lemma flog2_bounds:
  assumes "0 < q"
  shows "pow2 (flog2 q) \<le> q \<and> q < pow2 (flog2 q + 1)"
proof -
  obtain a b where ab: "quotient_of q = (a, b)" by fastforce
  have b: "0 < b" and q: "q = of_int a / of_int b"
    using quotient_of_denom_pos [OF ab] quotient_of_div [OF ab] by auto
  then have a: "0 < a" using assms by (simp add: zero_less_divide_iff)
  let ?x = "ilog2 (nat a)" and ?y = "ilog2 (nat b)"
  have A: "2 ^ ?x \<le> nat a" "nat a < 2 ^ Suc ?x" and B: "2 ^ ?y \<le> nat b" "nat b < 2 ^ Suc ?y"
    using ilog2_bounds [of "nat a"] ilog2_bounds [of "nat b"] a b by auto
  have cast: "of_int i = (of_nat (nat i) :: rat)" if "0 < i" for i :: int using that by simp
  have ra: "2 ^ ?x \<le> (of_int a :: rat)" "(of_int a :: rat) < 2 ^ Suc ?x"
    unfolding cast [OF a]
    by (metis A(1) of_nat_le_iff of_nat_numeral of_nat_power, metis A(2) of_nat_less_iff of_nat_numeral of_nat_power)
  have rb: "2 ^ ?y \<le> (of_int b :: rat)" "(of_int b :: rat) < 2 ^ Suc ?y"
    unfolding cast [OF b]
    by (metis B(1) of_nat_le_iff of_nat_numeral of_nat_power, metis B(2) of_nat_less_iff of_nat_numeral of_nat_power)
  let ?k = "int ?x - int ?y"
  have p: "pow2 (?k + d) = 2 ^ ?x / 2 ^ ?y * pow2 d" for d
    using pow2_add [of ?k d] by (simp add: pow2_diff)
  have pos: "(0 :: rat) < of_int b" using b by simp
  have up: "q < pow2 (?k + 1)"
  proof -
    have "q < 2 ^ Suc ?x / of_int b" unfolding q using ra(2) pos by (rule divide_strict_right_mono)
    also have "\<dots> \<le> 2 ^ Suc ?x / 2 ^ ?y" using rb(1) pos by (intro divide_left_mono) auto
    also have "\<dots> = pow2 (?k + 1)" unfolding p by (simp add: pow2_def)
    finally show ?thesis .
  qed
  have lo: "pow2 (?k - 1) \<le> q"
  proof -
    have "pow2 (?k - 1) = 2 ^ ?x / 2 ^ Suc ?y" using p [of "- 1"] by (simp add: pow2_def)
    also have "\<dots> \<le> 2 ^ ?x / of_int b" using rb(2) pos by (intro divide_left_mono) auto
    also have "\<dots> \<le> q" unfolding q using ra(1) pos by (intro divide_right_mono) auto
    finally show ?thesis .
  qed
  show ?thesis using up lo by (simp add: flog2_def ab Let_def)
qed

lemma flog2_unique:
  assumes "pow2 k \<le> q" "q < pow2 (k + 1)"
  shows "flog2 q = k"
proof -
  have "0 < q" using assms(1) pow2_simps(2) [of k] by linarith
  note b = flog2_bounds [OF this]
  have "k < flog2 q + 1" using assms b by (metis pow2_less_iff le_less_trans)
  moreover have "flog2 q < k + 1" using assms b by (metis pow2_less_iff le_less_trans)
  ultimately show ?thesis by simp
qed

lemma round_half_even_int [simp]: "round_half_even (of_int i) = i"
  by (simp add: round_half_even_def)

text \<open>Every number of the format is left alone by the rounding.\<close>

lemma round_mag_exact:
  assumes "q = of_nat m * pow2 e" "m < 2 ^ nat p" "emin \<le> e" "0 < p"
  shows "round_mag p emin q = q"
proof (cases "m = 0")
  case False
  then have m: "0 < m" by simp
  let ?e = "max (flog2 q - (p - 1)) emin"
  have pos: "0 < q" using assms(1) m by simp
  have "(of_nat m :: rat) < 2 ^ nat p" by (metis assms(2) of_nat_less_iff of_nat_numeral of_nat_power)
  then have "q < pow2 (p + e)" using assms(1,4) by (simp add: pow2_add) (simp add: pow2_def)
  then have "flog2 q < p + e" using flog2_bounds [OF pos] by (metis pow2_less_iff le_less_trans)
  then have le: "?e \<le> e" using assms(3) by simp
  have shift: "of_nat m * pow2 e / pow2 k = of_nat m * pow2 (e - k)" for k by (simp add: pow2_diff)
  have "q / pow2 ?e = of_nat m * pow2 (e - ?e)" using shift [of ?e] assms(1) by simp
  also have "\<dots> = of_int (int m * 2 ^ nat (e - ?e))" using le by (simp add: pow2_def)
  finally have "of_int (round_half_even (q / pow2 ?e)) * pow2 ?e = q / pow2 ?e * pow2 ?e"
    by (metis round_half_even_int)
  then show ?thesis using pos by (simp add: round_mag_def Let_def)
qed (use assms in \<open>simp add: round_mag_def\<close>)

lemma f64_of_int_exact:
  assumes "\<bar>i\<bar> \<le> 2 ^ 53"
  shows "f64_of_int i = Finite (i < 0) (of_int \<bar>i\<bar>)"
proof -
  have "round_mag 53 (- 1074) (of_int \<bar>i\<bar>) = of_int \<bar>i\<bar>"
  proof (cases "\<bar>i\<bar> = 2 ^ 53")
    case True
    then have eq: "of_int \<bar>i\<bar> = of_nat 1 * pow2 53" by (simp add: pow2_def)
    show ?thesis unfolding eq by (rule round_mag_exact [where m = 1 and e = 53]) simp_all
  next
    case False
    then have "nat \<bar>i\<bar> < 2 ^ nat 53" using assms by (simp add: nat_less_iff)
    then show ?thesis by (intro round_mag_exact [where m = "nat \<bar>i\<bar>" and e = 0]) simp_all
  qed
  moreover have "of_int \<bar>i\<bar> < pow2 1024"
  proof -
    have "(of_int \<bar>i\<bar> :: rat) \<le> of_int (2 ^ 53)" using assms by (simp only: of_int_le_iff)
    also have "\<dots> < pow2 1024" by (simp add: pow2_def)
    finally show ?thesis .
  qed
  ultimately show ?thesis
    by (simp add: f64_of_int_def f64_of_rat_def round_f64_def Let_def flip: of_int_abs)
qed

text \<open>Past \<open>2 ^ 53\<close> neighbouring integers share a number.\<close>

lemma f64_of_int_collapse: "f64_of_int 9007199254740993 = f64_of_int 9007199254740992"
proof -
  have e: "flog2 9007199254740993 = 53" by (rule flog2_unique) (simp_all add: pow2_def)
  have f: "flog2 9007199254740992 = 53" by (rule flog2_unique) (simp_all add: pow2_def)
  have "\<lfloor>(9007199254740993 / 2) :: rat\<rfloor> = 4503599627370496" by (simp add: floor_eq_iff)
  then have r: "round_half_even (9007199254740993 / 2) = 4503599627370496"
    by (simp add: round_half_even_def Let_def)
  have r': "round_half_even 4503599627370496 = 4503599627370496"
    using round_half_even_int [of 4503599627370496] by simp
  show ?thesis
    by (simp add: f64_of_int_def f64_of_rat_def round_f64_def round_mag_def e f r r' pow2_def)
qed

section \<open>The representations round-trip\<close>

lemma ieee_round_trip:
  assumes "w < 2 ^ Suc (mbits + ebits)" "1 < ebits" "ieee_decode mbits ebits w \<noteq> NaN"
  shows "ieee_encode mbits ebits (ieee_decode mbits ebits w) = w"
proof -
  define s where "s = odd (w div 2 ^ (mbits + ebits))"
  define ex where "ex = (w div 2 ^ mbits) mod 2 ^ ebits"
  define m where "m = w mod 2 ^ mbits"
  define bias :: nat where "bias = 2 ^ (ebits - 1) - 1"
  have "w div 2 ^ (mbits + ebits) < 2" using assms(1) by (simp add: less_mult_imp_div_less)
  then have top: "w div 2 ^ (mbits + ebits) = of_bool s" by (auto simp: s_def less_2_cases_iff)
  have "w div 2 ^ mbits = w div 2 ^ (mbits + ebits) * 2 ^ ebits + ex"
    unfolding ex_def power_add div_mult2_eq by (simp add: div_mult_mod_eq)
  then have w: "w = of_bool s * 2 ^ (mbits + ebits) + ex * 2 ^ mbits + m"
    using div_mult_mod_eq [of w "2 ^ mbits"] top by (simp add: m_def power_add algebra_simps)
  have m: "m < 2 ^ mbits" and ex: "ex < 2 ^ ebits" by (simp_all add: m_def ex_def)
  note dec = ieee_decode.simps [of mbits ebits w, folded s_def ex_def m_def bias_def, unfolded Let_def]
  consider (inf) "ex = 2 ^ ebits - 1" | (sub) "ex = 0" "ex \<noteq> 2 ^ ebits - 1" | (normal) "0 < ex" "ex \<noteq> 2 ^ ebits - 1" by blast
  then show ?thesis
  proof cases
    case inf
    then have "m = 0" using assms(3) dec by (simp split: if_splits)
    with inf show ?thesis unfolding dec using w by simp
  next
    case sub
    let ?emin = "1 - int bias - int mbits"
    have lt: "of_nat m * pow2 ?emin < 2 ^ mbits * pow2 ?emin"
      using m by (simp add: of_nat_less_iff [symmetric] del: of_nat_less_iff)
    have "\<lfloor>of_nat m * pow2 ?emin / pow2 ?emin\<rfloor> = int m" by simp
    then have "ieee_encode mbits ebits (Finite s (of_nat m * pow2 ?emin)) = of_bool s * 2 ^ (mbits + ebits) + m"
      unfolding ieee_encode.simps Let_def bias_def [symmetric] if_P [OF lt] by simp
    with sub w show ?thesis unfolding dec by simp
  next
    case normal
    let ?e = "int ex - int bias"
    let ?q = "of_nat (2 ^ mbits + m) * pow2 (?e - int mbits)"
    have M: "2 ^ mbits \<le> (of_nat (2 ^ mbits + m) :: rat)" "(of_nat (2 ^ mbits + m) :: rat) < 2 ^ mbits * 2"
      using m by (simp_all add: of_nat_less_iff [symmetric] del: of_nat_less_iff)
    have sh: "?q = of_nat (2 ^ mbits + m) * (pow2 ?e / 2 ^ mbits)" by (simp add: pow2_diff)
    have lo: "pow2 ?e \<le> ?q"
      using mult_right_mono [OF M(1), of "pow2 ?e / 2 ^ mbits"] unfolding sh by simp
    have hi: "?q < pow2 (?e + 1)"
      using mult_strict_right_mono [OF M(2), of "pow2 ?e / 2 ^ mbits"] unfolding sh pow2_add by (simp add: pow2_def)
    have e: "flog2 ?q = ?e" using lo hi by (rule flog2_unique)
    have big: "\<not> ?q < 2 ^ mbits * pow2 (1 - int bias - int mbits)"
    proof -
      have "2 ^ mbits * pow2 (1 - int bias - int mbits) = pow2 (1 - int bias)" by (simp add: pow2_diff)
      also have "\<dots> \<le> pow2 ?e" using normal(1) by (intro pow2_mono) simp
      finally show ?thesis using lo by simp
    qed
    have fl: "\<lfloor>?q / pow2 (?e - int mbits)\<rfloor> = int (2 ^ mbits + m)"
      by (metis floor_of_nat nonzero_mult_div_cancel_right pow2_simps(3))
    have "ieee_encode mbits ebits (Finite s ?q) = of_bool s * 2 ^ (mbits + ebits) + (ex * 2 ^ mbits + m)"
      unfolding ieee_encode.simps Let_def bias_def [symmetric] e fl if_not_P [OF big] nat_int by simp
    with normal w show ?thesis unfolding dec by simp
  qed
qed

end
