(* ===== verification/Json.thy ===== *)
theory Json
  imports F64
begin

text \<open>
  The JSON values of \<^verbatim>\<open>serde_json\<close> as the adapter uses them: a number is an unsigned 64-bit integer, a
  negative signed one, or a finite \<^verbatim>\<open>f64\<close>, and the accessors convert between them as documented. A
  number of one kind never equals a number of another. An object is the sequence of its entries in key order
  with no key twice, since the library is built with its ordered map: comparing two objects compares the
  sequences.
\<close>

datatype json_number = PosInt u64 | NegInt u64 | Float f64

datatype json =
    JNull | JBool bool | JNumber json_number | JString rstr | JArray "json list" | JObject "(rstr \<times> json) list"

text \<open>The conversions into a value: \<^verbatim>\<open>json!(i64)\<close>, \<^verbatim>\<open>json!(u64)\<close> and \<^verbatim>\<open>Number::from_f64\<close>.\<close>

definition json_of_i64 :: "u64 \<Rightarrow> json" where
  "json_of_i64 i = JNumber (if sint i < 0 then NegInt i else PosInt i)"

definition json_of_u64 :: "u64 \<Rightarrow> json" where
  "json_of_u64 n = JNumber (PosInt n)"

definition number_from_f64 :: "f64 \<Rightarrow> json_number option" where
  "number_from_f64 f = (if is_finite f then Some (Float f) else None)"

fun number_as_f64 :: "json_number \<Rightarrow> f64" where
  "number_as_f64 (PosInt n) = f64_of_int (uint n)"
| "number_as_f64 (NegInt i) = f64_of_int (sint i)"
| "number_as_f64 (Float f) = f"

fun as_f64 :: "json \<Rightarrow> f64 option" where
  "as_f64 (JNumber n) = Some (number_as_f64 n)"
| "as_f64 _ = None"

fun as_u64 :: "json \<Rightarrow> u64 option" where
  "as_u64 (JNumber (PosInt n)) = Some n"
| "as_u64 _ = None"

fun as_i64 :: "json \<Rightarrow> u64 option" where
  "as_i64 (JNumber (PosInt n)) = (if unat n < 2 ^ 63 then Some n else None)"
| "as_i64 (JNumber (NegInt i)) = Some i"
| "as_i64 _ = None"

fun as_bool :: "json \<Rightarrow> bool option" where
  "as_bool (JBool b) = Some b"
| "as_bool _ = None"

fun as_array :: "json \<Rightarrow> json list option" where
  "as_array (JArray xs) = Some xs"
| "as_array _ = None"

fun number_eq :: "json_number \<Rightarrow> json_number \<Rightarrow> bool" where
  "number_eq (PosInt a) (PosInt b) \<longleftrightarrow> a = b"
| "number_eq (NegInt a) (NegInt b) \<longleftrightarrow> a = b"
| "number_eq (Float a) (Float b) \<longleftrightarrow> f64_eq a b"
| "number_eq _ _ \<longleftrightarrow> False"

fun json_eq :: "json \<Rightarrow> json \<Rightarrow> bool"
  and jsons_eq :: "json list \<Rightarrow> json list \<Rightarrow> bool"
  and fields_eq :: "(rstr \<times> json) list \<Rightarrow> (rstr \<times> json) list \<Rightarrow> bool" where
  "json_eq JNull JNull \<longleftrightarrow> True"
| "json_eq (JBool a) (JBool b) \<longleftrightarrow> a = b"
| "json_eq (JNumber a) (JNumber b) \<longleftrightarrow> number_eq a b"
| "json_eq (JString a) (JString b) \<longleftrightarrow> a = b"
| "json_eq (JArray a) (JArray b) \<longleftrightarrow> jsons_eq a b"
| "json_eq (JObject a) (JObject b) \<longleftrightarrow> fields_eq a b"
| "json_eq _ _ \<longleftrightarrow> False"
| "jsons_eq [] [] \<longleftrightarrow> True"
| "jsons_eq (x # xs) (y # ys) \<longleftrightarrow> json_eq x y \<and> jsons_eq xs ys"
| "jsons_eq _ _ \<longleftrightarrow> False"
| "fields_eq [] [] \<longleftrightarrow> True"
| "fields_eq ((k, x) # xs) ((l, y) # ys) \<longleftrightarrow> k = l \<and> json_eq x y \<and> fields_eq xs ys"
| "fields_eq _ _ \<longleftrightarrow> False"

text \<open>A number that the library can hold: a negative integer is negative and a float is finite.\<close>

fun wf_number :: "json_number \<Rightarrow> bool" where
  "wf_number (PosInt _) \<longleftrightarrow> True"
| "wf_number (NegInt i) \<longleftrightarrow> sint i < 0"
| "wf_number (Float f) \<longleftrightarrow> is_finite f"

end
