(* ===== verification/Value_Codec.thy ===== *)
theory Value_Codec
  imports Json Cip_Types
begin

text \<open>
  The codec between CIP values and JSON, \<^verbatim>\<open>crates/ethernet-ip-adapter/src/eip/types.rs\<close>, with the
  configured types of \<^verbatim>\<open>config.rs\<close>. The text of an error is left out; what it renders is kept.
\<close>

section \<open>Configured types\<close>

datatype eip_type =
  EipBool | EipSint | EipUsint | EipInt | EipUint | EipDint | EipUdint | EipLint | EipUlint | EipReal | EipLreal

fun eip_wire :: "eip_type \<Rightarrow> string" where
  "eip_wire EipBool = ''bool''" | "eip_wire EipSint = ''sint''" | "eip_wire EipUsint = ''usint''"
| "eip_wire EipInt = ''int''" | "eip_wire EipUint = ''uint''" | "eip_wire EipDint = ''dint''"
| "eip_wire EipUdint = ''udint''" | "eip_wire EipLint = ''lint''" | "eip_wire EipUlint = ''ulint''"
| "eip_wire EipReal = ''real''" | "eip_wire EipLreal = ''lreal''"

fun eip_cip_type :: "eip_type \<Rightarrow> cip_type" where
  "eip_cip_type EipBool = TBool" | "eip_cip_type EipSint = TSint" | "eip_cip_type EipUsint = TUsint"
| "eip_cip_type EipInt = TInt" | "eip_cip_type EipUint = TUint" | "eip_cip_type EipDint = TDint"
| "eip_cip_type EipUdint = TUdint" | "eip_cip_type EipLint = TLint" | "eip_cip_type EipUlint = TUlint"
| "eip_cip_type EipReal = TReal" | "eip_cip_type EipLreal = TLreal"

fun cip_type_name :: "cip_type \<Rightarrow> string" where
  "cip_type_name TBool = ''BOOL''" | "cip_type_name TSint = ''SINT''" | "cip_type_name TInt = ''INT''"
| "cip_type_name TDint = ''DINT''" | "cip_type_name TLint = ''LINT''" | "cip_type_name TUsint = ''USINT''"
| "cip_type_name TUint = ''UINT''" | "cip_type_name TUdint = ''UDINT''" | "cip_type_name TUlint = ''ULINT''"
| "cip_type_name TReal = ''REAL''" | "cip_type_name TLreal = ''LREAL''" | "cip_type_name TByte = ''BYTE''"
| "cip_type_name TWord = ''WORD''" | "cip_type_name TDword = ''DWORD''" | "cip_type_name TLword = ''LWORD''"
| "cip_type_name TString = ''STRING''" | "cip_type_name TStruct = ''STRUCT''" | "cip_type_name (TUnknown _) = ''UNKNOWN''"

definition wire_type_label :: "cip_type \<Rightarrow> string" where
  "wire_type_label ty =
     (case ty of TUnknown code \<Rightarrow> ''UNKNOWN(0x'' @ hex_pad 4 (unat code) @ '')'' | _ \<Rightarrow> cip_type_name ty)"

section \<open>Reading\<close>

record decoded =
  dd_value :: json
  dd_non_finite :: bool

datatype decode_error = TypeMismatch eip_type cip_type

definition decode_error_quality_raw :: "decode_error \<Rightarrow> string" where
  "decode_error_quality_raw e =
     (case e of TypeMismatch expected got \<Rightarrow>
        ''DECODE type mismatch (expected '' @ eip_wire expected @ '', device declares '' @ wire_type_label got @ '')'')"

fun numeric_to_f64 :: "cip_value \<Rightarrow> f64 option" where
  "numeric_to_f64 (VSint x) = Some (f64_of_int (sint x))"
| "numeric_to_f64 (VInt x) = Some (f64_of_int (sint x))"
| "numeric_to_f64 (VDint x) = Some (f64_of_int (sint x))"
| "numeric_to_f64 (VLint x) = Some (f64_of_int (sint x))"
| "numeric_to_f64 (VUsint x) = Some (f64_of_int (uint x))"
| "numeric_to_f64 (VUint x) = Some (f64_of_int (uint x))"
| "numeric_to_f64 (VUdint x) = Some (f64_of_int (uint x))"
| "numeric_to_f64 (VUlint x) = Some (f64_of_int (uint x))"
| "numeric_to_f64 (VReal x) = Some (f64_from_f32 x)"
| "numeric_to_f64 (VLreal x) = Some (f64_from_bits x)"
| "numeric_to_f64 _ = None"

fun native_int_json :: "cip_value \<Rightarrow> json" where
  "native_int_json (VSint x) = json_of_i64 (scast x)"
| "native_int_json (VInt x) = json_of_i64 (scast x)"
| "native_int_json (VDint x) = json_of_i64 (scast x)"
| "native_int_json (VLint x) = json_of_i64 x"
| "native_int_json (VUsint x) = json_of_u64 (ucast x)"
| "native_int_json (VUint x) = json_of_u64 (ucast x)"
| "native_int_json (VUdint x) = json_of_u64 (ucast x)"
| "native_int_json (VUlint x) = json_of_u64 x"
| "native_int_json _ = JNull"

definition float_json :: "f64 \<Rightarrow> json" where
  "float_json f = (case number_from_f64 f of Some n \<Rightarrow> JNumber n | None \<Rightarrow> JNull)"

definition finite_or_null :: "f64 \<Rightarrow> decoded" where
  "finite_or_null f =
     (if is_finite f then \<lparr>dd_value = float_json f, dd_non_finite = False\<rparr>
      else \<lparr>dd_value = JNull, dd_non_finite = True\<rparr>)"

definition f64_or :: "f64 option \<Rightarrow> f64 \<Rightarrow> f64" where
  "f64_or m d = (case m of Some x \<Rightarrow> x | None \<Rightarrow> d)"

definition decode_scalar :: "cip_value \<Rightarrow> eip_type \<Rightarrow> f64 option \<Rightarrow> f64 option \<Rightarrow> decode_error + decoded" where
  "decode_scalar v ty scale offset =
     (if ty = EipBool then
        (case v of
           VBool b \<Rightarrow> Inr \<lparr>dd_value = JBool b, dd_non_finite = False\<rparr>
         | _ \<Rightarrow> Inl (TypeMismatch ty (wire_type v)))
      else
        ok_then (ok_or (numeric_to_f64 v) (TypeMismatch ty (wire_type v))) (\<lambda>raw.
          if scale \<noteq> None \<or> offset \<noteq> None
          then Inr (finite_or_null (f64_add (f64_mul raw (f64_or scale f64_one)) (f64_or offset f64_zero)))
          else
            case v of
              VReal f \<Rightarrow> Inr (finite_or_null (f64_from_f32 f))
            | VLreal f \<Rightarrow> Inr (finite_or_null (f64_from_bits f))
            | other \<Rightarrow> Inr \<lparr>dd_value = native_int_json other, dd_non_finite = False\<rparr>))"

primrec decode_elems :: "cip_value list \<Rightarrow> eip_type \<Rightarrow> f64 option \<Rightarrow> f64 option \<Rightarrow> decode_error + json list \<times> bool" where
  "decode_elems [] ty scale offset = Inr ([], False)"
| "decode_elems (e # es) ty scale offset =
     ok_then (decode_scalar e ty scale offset) (\<lambda>d.
     ok_then (decode_elems es ty scale offset) (\<lambda>(out, non_finite).
     Inr (dd_value d # out, dd_non_finite d \<or> non_finite)))"

definition decode_value :: "cip_value \<Rightarrow> eip_type \<Rightarrow> f64 option \<Rightarrow> f64 option \<Rightarrow> decode_error + decoded" where
  "decode_value v ty scale offset =
     (let want = eip_cip_type ty in
      case v of
        VArray el_ty elems \<Rightarrow>
          if el_ty \<noteq> want then Inl (TypeMismatch ty el_ty)
          else
            ok_then (decode_elems elems ty scale offset) (\<lambda>(out, non_finite).
              Inr (if non_finite then \<lparr>dd_value = JNull, dd_non_finite = True\<rparr>
                   else \<lparr>dd_value = JArray out, dd_non_finite = False\<rparr>))
      | _ \<Rightarrow>
          if wire_type v \<noteq> want then Inl (TypeMismatch ty (wire_type v))
          else decode_scalar v ty scale offset)"

section \<open>Packed booleans\<close>

definition BOOLS_PER_DWORD :: nat where "BOOLS_PER_DWORD = 32"

definition packed_dword_count :: "u32 \<Rightarrow> nat" where
  "packed_dword_count bools = (unat bools + (BOOLS_PER_DWORD - 1)) div BOOLS_PER_DWORD"

primrec dwords :: "cip_value list \<Rightarrow> u32 list option" where
  "dwords [] = Some []"
| "dwords (e # es) =
     (case e of
        VDword w \<Rightarrow> map_option (\<lambda>ws. w # ws) (dwords es)
      | _ \<Rightarrow> None)"

definition packed_dwords :: "cip_value \<Rightarrow> u32 list option" where
  "packed_dwords v =
     (case v of
        VDword w \<Rightarrow> Some [w]
      | VArray ty elems \<Rightarrow> if ty = TDword then dwords elems else None
      | _ \<Rightarrow> None)"

datatype packed_bool_error = Cardinality u32 nat nat

text \<open>The two nested loops: \<open>unpack_word\<close> appends the bits of a word until the list has the wanted length.\<close>

function unpack_word :: "nat \<Rightarrow> u32 \<Rightarrow> nat \<Rightarrow> bool list \<Rightarrow> bool list" where
  "unpack_word want word bitn out =
     (if bitn \<ge> BOOLS_PER_DWORD \<or> length out \<ge> want then out
      else unpack_word want word (Suc bitn) (out @ [drop_bit bitn word AND 1 = 1]))"
  by pat_completeness auto
termination
  by (relation "measure (\<lambda>(want, _, _, out). want - length out)") auto

declare unpack_word.simps [simp del]

primrec unpack_words :: "nat \<Rightarrow> u32 list \<Rightarrow> bool list \<Rightarrow> bool list" where
  "unpack_words want [] out = out"
| "unpack_words want (word # words) out =
     (let out = unpack_word want word 0 out in
      if length out \<ge> want then out else unpack_words want words out)"

definition unpack_bools :: "u32 list \<Rightarrow> u32 \<Rightarrow> packed_bool_error + json" where
  "unpack_bools words bools =
     (let expected = packed_dword_count bools in
      if length words \<noteq> expected then Inl (Cardinality bools expected (length words))
      else Inr (JArray (map JBool (unpack_words (unat bools) words []))))"

section \<open>Writing\<close>

text \<open>The value an error names: an exact integer or the number the arithmetic produced.\<close>

datatype named_value = NamedInt int | NamedF64 f64

datatype write_error =
    ExpectedBool | ExpectedNumber | ExpectedArray
  | WrongArrayLen nat nat
  | NonInteger eip_type
  | OutOfRange eip_type named_value
  | InexactUnderTransform eip_type named_value
  | NonFinite

definition is_integer_type :: "eip_type \<Rightarrow> bool" where
  "is_integer_type ty \<longleftrightarrow>
     ty \<in> {EipSint, EipUsint, EipInt, EipUint, EipDint, EipUdint, EipLint, EipUlint}"

definition is_identity_transform :: "f64 option \<Rightarrow> f64 option \<Rightarrow> bool" where
  "is_identity_transform scale offset \<longleftrightarrow>
     f64_eq (f64_or scale f64_one) f64_one \<and> f64_eq (f64_or offset f64_zero) f64_zero"

definition json_exact_int :: "json \<Rightarrow> int option" where
  "json_exact_int v =
     (case as_u64 v of
        Some n \<Rightarrow> Some (uint n)
      | None \<Rightarrow> map_option sint (as_i64 v))"

fun int_bounds :: "eip_type \<Rightarrow> int \<times> int" where
  "int_bounds EipSint = (- (2 ^ 7), 2 ^ 7 - 1)" | "int_bounds EipUsint = (0, 2 ^ 8 - 1)"
| "int_bounds EipInt = (- (2 ^ 15), 2 ^ 15 - 1)" | "int_bounds EipUint = (0, 2 ^ 16 - 1)"
| "int_bounds EipDint = (- (2 ^ 31), 2 ^ 31 - 1)" | "int_bounds EipUdint = (0, 2 ^ 32 - 1)"
| "int_bounds EipLint = (- (2 ^ 63), 2 ^ 63 - 1)" | "int_bounds EipUlint = (0, 2 ^ 64 - 1)"
| "int_bounds _ = (0, 0)"

text \<open>\<^verbatim>\<open>try_from\<close> into the target type fails outside its range.\<close>

definition in_bounds :: "eip_type \<Rightarrow> int \<Rightarrow> bool" where
  "in_bounds ty v \<longleftrightarrow> fst (int_bounds ty) \<le> v \<and> v \<le> snd (int_bounds ty)"

definition make_int :: "eip_type \<Rightarrow> int \<Rightarrow> cip_value option" where
  "make_int ty v =
     (if \<not> in_bounds ty v then None
      else case ty of
             EipSint \<Rightarrow> Some (VSint (of_int v)) | EipUsint \<Rightarrow> Some (VUsint (of_int v))
           | EipInt \<Rightarrow> Some (VInt (of_int v)) | EipUint \<Rightarrow> Some (VUint (of_int v))
           | EipDint \<Rightarrow> Some (VDint (of_int v)) | EipUdint \<Rightarrow> Some (VUdint (of_int v))
           | EipLint \<Rightarrow> Some (VLint (of_int v)) | EipUlint \<Rightarrow> Some (VUlint (of_int v))
           | _ \<Rightarrow> None)"

definition encode_exact_int :: "eip_type \<Rightarrow> int \<Rightarrow> write_error + cip_value" where
  "encode_exact_int ty v =
     (if v < fst (int_bounds ty) \<or> v > snd (int_bounds ty) then Inl (OutOfRange ty (NamedInt v))
      else ok_or (make_int ty v) (NonInteger ty))"

definition EXACT_F64_INT_LIMIT :: int where "EXACT_F64_INT_LIMIT = 2 ^ 53"

text \<open>The part of \<^verbatim>\<open>encode_scalar\<close> that works on the inverse-scaled number.\<close>

definition encode_device :: "eip_type \<Rightarrow> bool \<Rightarrow> f64 \<Rightarrow> write_error + cip_value" where
  "encode_device ty scaled device =
     (if \<not> is_finite device then Inl NonFinite
      else if ty = EipReal then
        (if f64_lt device (f64_neg F32_MAX) \<or> f64_lt F32_MAX device then Inl (OutOfRange ty (NamedF64 device))
         else Inr (VReal (f32_of_f64 device)))
      else if ty = EipLreal then Inr (VLreal (f64_to_bits device))
      else if \<not> scaled \<and> has_fract device then Inl (NonInteger ty)
      else
        let exact = i128_saturating (round_half_away (f64_value device)) in
        if exact < fst (int_bounds ty) \<or> exact > snd (int_bounds ty) then Inl (OutOfRange ty (NamedF64 device))
        else ok_or (make_int ty exact) (NonInteger ty))"

text \<open>The inverse transform \<open>(n - offset) / scale\<close>.\<close>

definition device_value :: "f64 option \<Rightarrow> f64 option \<Rightarrow> f64 \<Rightarrow> f64" where
  "device_value scale offset n =
     (if scale \<noteq> None \<or> offset \<noteq> None
      then f64_div (f64_sub n (f64_or offset f64_zero)) (f64_or scale f64_one) else n)"

definition encode_scalar :: "json \<Rightarrow> eip_type \<Rightarrow> f64 option \<Rightarrow> f64 option \<Rightarrow> write_error + cip_value" where
  "encode_scalar v ty scale offset =
     (if ty = EipBool then ok_then (ok_or (as_bool v) ExpectedBool) (\<lambda>b. Inr (VBool b))
      else
        let via_f64 =
          ok_then (ok_or (as_f64 v) ExpectedNumber) (\<lambda>n.
            encode_device ty (scale \<noteq> None \<or> offset \<noteq> None) (device_value scale offset n))
        in case (if is_integer_type ty then json_exact_int v else None) of
             Some exact \<Rightarrow>
               if is_identity_transform scale offset then encode_exact_int ty exact
               else if exact < - EXACT_F64_INT_LIMIT \<or> exact > EXACT_F64_INT_LIMIT
               then Inl (InexactUnderTransform ty (NamedInt exact))
               else via_f64
           | None \<Rightarrow> via_f64)"

primrec encode_elems :: "json list \<Rightarrow> eip_type \<Rightarrow> f64 option \<Rightarrow> f64 option \<Rightarrow> write_error + cip_value list" where
  "encode_elems [] ty scale offset = Inr []"
| "encode_elems (e # es) ty scale offset =
     ok_then (encode_scalar e ty scale offset) (\<lambda>v.
     ok_then (encode_elems es ty scale offset) (\<lambda>vs. Inr (v # vs)))"

definition encode_write :: "json \<Rightarrow> eip_type \<Rightarrow> f64 option \<Rightarrow> f64 option \<Rightarrow> u32 option \<Rightarrow> write_error + cip_value" where
  "encode_write v ty scale offset array_count =
     (case array_count of
        Some n \<Rightarrow>
          ok_then (ok_or (as_array v) ExpectedArray) (\<lambda>arr.
            if length arr \<noteq> unat n then Inl (WrongArrayLen (unat n) (length arr))
            else ok_then (encode_elems arr ty scale offset) (\<lambda>elems. Inr (VArray (eip_cip_type ty) elems)))
      | None \<Rightarrow> encode_scalar v ty scale offset)"

section \<open>Integers cross exactly\<close>

text \<open>The integer a value carries.\<close>

fun cip_int :: "cip_value \<Rightarrow> int option" where
  "cip_int (VSint x) = Some (sint x)" | "cip_int (VInt x) = Some (sint x)"
| "cip_int (VDint x) = Some (sint x)" | "cip_int (VLint x) = Some (sint x)"
| "cip_int (VUsint x) = Some (uint x)" | "cip_int (VUint x) = Some (uint x)"
| "cip_int (VUdint x) = Some (uint x)" | "cip_int (VUlint x) = Some (uint x)"
| "cip_int _ = None"

lemma sint_of_int:
  "- (2 ^ 7) \<le> v \<Longrightarrow> v < 2 ^ 7 \<Longrightarrow> sint (of_int v :: u8) = v"
  "- (2 ^ 15) \<le> v \<Longrightarrow> v < 2 ^ 15 \<Longrightarrow> sint (of_int v :: u16) = v"
  "- (2 ^ 31) \<le> v \<Longrightarrow> v < 2 ^ 31 \<Longrightarrow> sint (of_int v :: u32) = v"
  "- (2 ^ 63) \<le> v \<Longrightarrow> v < 2 ^ 63 \<Longrightarrow> sint (of_int v :: u64) = v"
  by (simp_all add: signed_of_int signed_take_bit_int_eq_self)

lemma uint_of_int:
  "0 \<le> v \<Longrightarrow> v < 2 ^ 8 \<Longrightarrow> uint (of_int v :: u8) = v"
  "0 \<le> v \<Longrightarrow> v < 2 ^ 16 \<Longrightarrow> uint (of_int v :: u16) = v"
  "0 \<le> v \<Longrightarrow> v < 2 ^ 32 \<Longrightarrow> uint (of_int v :: u32) = v"
  "0 \<le> v \<Longrightarrow> v < 2 ^ 64 \<Longrightarrow> uint (of_int v :: u64) = v"
  by (simp_all add: unsigned_of_int take_bit_int_eq_self)

lemma make_int_exact:
  "make_int ty v = Some x \<longleftrightarrow>
     is_integer_type ty \<and> in_bounds ty v \<and> wire_type x = eip_cip_type ty \<and> cip_int x = Some v"
proof (cases "is_integer_type ty \<and> in_bounds ty v")
  case True
  then show ?thesis
    by (cases ty; cases x)
      (auto simp: make_int_def is_integer_type_def in_bounds_def sint_of_int uint_of_int)
qed (cases ty; auto simp: make_int_def is_integer_type_def)

lemma encode_exact_int_eq:
  assumes "is_integer_type ty"
  shows "encode_exact_int ty v =
    (if in_bounds ty v then Inr (the (make_int ty v)) else Inl (OutOfRange ty (NamedInt v)))"
proof (cases "in_bounds ty v")
  case True
  with assms have "\<exists>x. make_int ty v = Some x" by (cases ty) (auto simp: make_int_def is_integer_type_def)
  with True show ?thesis by (auto simp: encode_exact_int_def in_bounds_def)
qed (auto simp: encode_exact_int_def in_bounds_def)

lemma native_int_json_exact:
  assumes "cip_int x = Some i" "wf_number n" "json_exact_int (JNumber n) = Some i"
  shows "native_int_json x = JNumber n"
proof -
  have s: "sint (scast (y :: u8) :: u64) = sint y" "sint (scast (y' :: u16) :: u64) = sint y'"
    "sint (scast (y'' :: u32) :: u64) = sint y''" for y y' y''
    by (simp_all add: sint_up_scast is_up)
  have u: "uint (ucast (y :: u8) :: u64) = uint y" "uint (ucast (y' :: u16) :: u64) = uint y'"
    "uint (ucast (y'' :: u32) :: u64) = uint y''" for y y' y''
    by (simp_all add: uint_up_ucast is_up)
  have "(\<exists>w. native_int_json x = json_of_i64 w \<and> sint w = i) \<or> (\<exists>w. native_int_json x = json_of_u64 w \<and> uint w = i)"
    using assms(1) by (cases x) (auto simp: s u)
  then obtain w where w: "native_int_json x = json_of_i64 w \<and> sint w = i \<or> native_int_json x = json_of_u64 w \<and> uint w = i"
    by blast
  have undo: "sint w = i \<Longrightarrow> w = of_int i" "uint w = i \<Longrightarrow> w = of_int i" by auto
  show ?thesis
  proof (cases n)
    case (PosInt k)
    then have k: "uint k = i" using assms by (simp add: json_exact_int_def)
    then have "k = of_int i" "0 \<le> i" by auto
    with w undo PosInt show ?thesis by (auto simp: json_of_i64_def json_of_u64_def)
  next
    case (NegInt k)
    then have k: "sint k = i" "i < 0" using assms by (auto simp: json_exact_int_def)
    then have "k = of_int i" by auto
    moreover have "uint w \<noteq> i" using k(2) uint_ge_0 [of w] by linarith
    ultimately show ?thesis using w undo NegInt k by (auto simp: json_of_i64_def)
  next
    case (Float f)
    then show ?thesis using assms by (simp add: json_exact_int_def)
  qed
qed

lemma decode_value_int:
  assumes "is_integer_type ty" "wire_type x = eip_cip_type ty" "cip_int x = Some i"
  shows "decode_value x ty None None = Inr \<lparr>dd_value = native_int_json x, dd_non_finite = False\<rparr>"
  using assms by (cases x; cases ty) (auto simp: decode_value_def decode_scalar_def is_integer_type_def)

section \<open>Packed booleans against a reference\<close>

lemma unpack_word_eq:
  "unpack_word want word k out =
     out @ map (\<lambda>n. bit word n) [k..<k + min (32 - k) (want - length out)]"
proof (induction want word k out rule: unpack_word.induct)
  case (1 want word k out)
  have b: "(drop_bit k word AND 1 = 1) = bit word k"
    by (simp add: and_one_eq bit_iff_odd_drop_bit mod_2_eq_odd)
  show ?case
  proof (cases "k \<ge> BOOLS_PER_DWORD \<or> length out \<ge> want")
    case True
    then show ?thesis by (subst unpack_word.simps) (auto simp: BOOLS_PER_DWORD_def)
  next
    case False
    then have lt: "k < 32" "length out < want" by (auto simp: BOOLS_PER_DWORD_def)
    have n: "k + min (32 - k) (want - length out) = Suc k + min (32 - Suc k) (want - Suc (length out))"
      using lt by linarith
    have "unpack_word want word k out = unpack_word want word (Suc k) (out @ [bit word k])"
      using False by (subst unpack_word.simps) (simp add: b)
    also have "\<dots> = out @ bit word k # map (\<lambda>n. bit word n) [Suc k..<Suc k + min (32 - Suc k) (want - Suc (length out))]"
      using "1.IH" [OF False] by (simp add: b)
    also have "\<dots> = out @ map (\<lambda>n. bit word n) [k..<k + min (32 - k) (want - length out)]"
      unfolding n using lt by (subst (2) upt_conv_Cons) simp_all
    finally show ?thesis .
  qed
qed

definition packed_bit :: "u32 list \<Rightarrow> nat \<Rightarrow> bool" where
  "packed_bit words k = bit (words ! (k div 32)) (k mod 32)"

lemma packed_bit_Cons: "packed_bit (w # ws) k = (if k < 32 then bit w k else packed_bit ws (k - 32))"
  by (auto simp: packed_bit_def le_div_geq le_mod_geq not_less)

lemma unpack_words_eq:
  "length out + 32 * length words \<ge> want \<Longrightarrow> length out \<le> want \<Longrightarrow>
     unpack_words want words out = out @ map (packed_bit words) [0..<want - length out]"
proof (induction words arbitrary: out)
  case (Cons w ws)
  let ?n = "min 32 (want - length out)"
  let ?out = "out @ map (bit w) [0..<?n]"
  have step: "unpack_word want w 0 out = ?out" by (simp add: unpack_word_eq)
  have split: "[0..<want - length out] = [0..<?n] @ [?n..<want - length out]"
    by (metis le0 le_add_diff_inverse min.cobounded2 upt_add_eq_append)
  have first: "map (packed_bit (w # ws)) [0..<?n] = map (bit w) [0..<?n]" by (simp add: packed_bit_Cons)
  show ?case
  proof (cases "want \<le> length out + 32")
    case True
    then have "?n = want - length out" by simp
    with Cons.prems step first show ?thesis by simp
  next
    case False
    then have n: "?n = 32" by simp
    have "map (packed_bit (w # ws)) [32..<want - length out] = map (packed_bit ws) [0..<want - length out - 32]"
      by (rule nth_equalityI) (simp_all add: packed_bit_Cons)
    with Cons.IH [of ?out] Cons.prems False n step first split show ?thesis by simp
  qed
qed simp

section \<open>Properties\<close>

text \<open>
  C29. Integers cross the codec bit for bit. An integer literal written to an integer type under no value
  transform is accepted exactly when it lies in the range of the type, the value written carries that
  very integer, 64-bit ones beyond \<open>2 ^ 53\<close> included, and reading it back publishes the literal;
  outside the range it is refused by name.
\<close>

theorem integer_write_read:
  assumes "is_integer_type ty" "wf_number n" "json_exact_int (JNumber n) = Some i" "is_identity_transform scale offset"
  shows "if in_bounds ty i
    then \<exists>x. encode_write (JNumber n) ty scale offset None = Inr x \<and> cip_int x = Some i \<and>
           decode_value x ty None None = Inr \<lparr>dd_value = JNumber n, dd_non_finite = False\<rparr>
    else encode_write (JNumber n) ty scale offset None = Inl (OutOfRange ty (NamedInt i))"
proof -
  have "ty \<noteq> EipBool" using assms(1) by (auto simp: is_integer_type_def)
  with assms have w: "encode_write (JNumber n) ty scale offset None = encode_exact_int ty i"
    by (simp add: encode_write_def encode_scalar_def Let_def)
  show ?thesis
  proof (cases "in_bounds ty i")
    case True
    then obtain x where x: "make_int ty i = Some x" using assms(1) by (cases ty) (auto simp: make_int_def is_integer_type_def)
    then have c: "wire_type x = eip_cip_type ty" "cip_int x = Some i" by (auto simp: make_int_exact)
    have "encode_exact_int ty i = Inr x" using True x assms(1) by (simp add: encode_exact_int_eq)
    with c True show ?thesis
      using decode_value_int [OF assms(1) c] native_int_json_exact [OF c(2) assms(2,3)] by (simp add: w)
  qed (use assms(1) in \<open>simp add: w encode_exact_int_eq\<close>)
qed

text \<open>A 64-bit stamp that no \<^verbatim>\<open>f64\<close> holds, and its successor past the largest \<open>lint\<close>.\<close>

theorem integer_write_read_witness:
  "(\<exists>x. encode_write (JNumber (PosInt 9007199254740993)) EipLint None None None = Inr x \<and>
     decode_value x EipLint None None =
       Inr \<lparr>dd_value = JNumber (PosInt 9007199254740993), dd_non_finite = False\<rparr>) \<and>
   encode_write (JNumber (PosInt 0x8000000000000000)) EipLint None None None =
     Inl (OutOfRange EipLint (NamedInt 9223372036854775808))"
proof -
  have id: "is_identity_transform None None"
    by (simp add: is_identity_transform_def f64_or_def f64_one_def f64_zero_def)
  have a: "json_exact_int (JNumber (PosInt 9007199254740993)) = Some 9007199254740993"
    "json_exact_int (JNumber (PosInt 0x8000000000000000)) = Some 9223372036854775808"
    by (simp_all add: json_exact_int_def)
  show ?thesis
    using integer_write_read [OF _ _ a(1) id, of EipLint] integer_write_read [OF _ _ a(2) id, of EipLint]
    by (auto simp: is_integer_type_def in_bounds_def)
qed

text \<open>
  C30. A write never clamps. Whatever the number and the transform, an integer value that is accepted is in
  the range of its type and is the exact literal, or the inverse-scaled number rounded to the nearest
  integer; and a literal that the arithmetic of a real transform cannot carry is refused.
\<close>

theorem integer_write_no_clamp:
  assumes "is_integer_type ty" "encode_write v ty scale offset None = Inr x"
  shows "\<exists>i. cip_int x = Some i \<and> wire_type x = eip_cip_type ty \<and> in_bounds ty i \<and>
    (json_exact_int v = Some i \<and> is_identity_transform scale offset \<or>
     (\<exists>n. as_f64 v = Some n \<and> is_finite (device_value scale offset n) \<and>
        i = round_half_away (f64_value (device_value scale offset n)) \<and>
        (\<forall>k. json_exact_int v = Some k \<longrightarrow> \<bar>k\<bar> \<le> 2 ^ 53)))"
proof -
  have ty: "ty \<noteq> EipBool" "ty \<noteq> EipReal" "ty \<noteq> EipLreal" using assms(1) by (auto simp: is_integer_type_def)
  have bounds: "- (2 ^ 127) < fst (int_bounds ty)" "snd (int_bounds ty) < 2 ^ 127 - 1"
    using assms(1) by (cases ty; simp add: is_integer_type_def)+
  have dev: "\<exists>i. cip_int x = Some i \<and> wire_type x = eip_cip_type ty \<and> in_bounds ty i \<and>
      is_finite device \<and> i = round_half_away (f64_value device)"
    if enc: "encode_device ty scaled device = Inr x" for scaled device
  proof -
    let ?i = "i128_saturating (round_half_away (f64_value device))"
    from enc ty have f: "is_finite device" "make_int ty ?i = Some x"
      by (auto simp: encode_device_def Let_def split: if_splits)
    then have b: "in_bounds ty ?i" "cip_int x = Some ?i" "wire_type x = eip_cip_type ty" by (auto simp: make_int_exact)
    then have "?i = round_half_away (f64_value device)"
      using bounds by (auto simp: in_bounds_def i128_saturating_def split: if_splits)
    with f b show ?thesis by auto
  qed
  show ?thesis
  proof (cases "json_exact_int v")
    case None
    with assms ty show ?thesis
      by (auto simp: encode_write_def encode_scalar_def Let_def ok_then_Inr_iff dest!: dev)
  next
    case (Some k)
    show ?thesis
    proof (cases "is_identity_transform scale offset")
      case True
      with assms ty Some have "make_int ty k = Some x"
        by (auto simp: encode_write_def encode_scalar_def Let_def encode_exact_int_def split: if_splits)
      with True Some show ?thesis by (auto simp: make_int_exact)
    next
      case False
      with assms ty Some show ?thesis
        by (auto simp: encode_write_def encode_scalar_def Let_def ok_then_Inr_iff EXACT_F64_INT_LIMIT_def
            split: if_splits dest!: dev)
    qed
  qed
qed

theorem integer_write_no_clamp_witness:
  "\<exists>i. cip_int (VDint 5) = Some i \<and> i = 5 \<and> in_bounds EipDint i"
proof -
  have fl: "\<lfloor>(11 / 2) :: rat\<rfloor> = 5" by (simp add: floor_eq_iff)
  have "encode_write (JNumber (Float (Finite False 5))) EipDint None None None = Inr (VDint 5)"
    by (simp add: encode_write_def encode_scalar_def is_integer_type_def json_exact_int_def encode_device_def device_value_def
        has_fract_def i128_saturating_def round_half_away_def fl make_int_def in_bounds_def)
  from integer_write_no_clamp [OF _ this] show ?thesis by (auto simp: is_integer_type_def)
qed

text \<open>
  C31. A packed reply is unpacked as the manual defines it: it is accepted exactly when it has one word
  per 32 booleans begun, and then element \<open>k\<close> is bit \<open>k mod 32\<close> of word \<open>k div 32\<close>, for exactly the
  configured number of elements.
\<close>

theorem unpack_bools_reference:
  "unpack_bools words bools =
     (if length words = (unat bools + 31) div 32
      then Inr (JArray (map (\<lambda>k. JBool (bit (words ! (k div 32)) (k mod 32))) [0..<unat bools]))
      else Inl (Cardinality bools ((unat bools + 31) div 32) (length words)))"
proof -
  have "unpack_words (unat bools) words [] = map (packed_bit words) [0..<unat bools]"
    if "length words = (unat bools + 31) div 32"
    using that by (subst unpack_words_eq) auto
  then show ?thesis
    by (auto simp: unpack_bools_def packed_dword_count_def BOOLS_PER_DWORD_def Let_def packed_bit_def)
qed

end
