(* ===== verification/Security_Config.thy ===== *)
theory Security_Config
  imports Json
begin

text \<open>
  The security block of a connection (\<^verbatim>\<open>eip/tls.rs\<close>) with its certificate enrollment part
  (\<^verbatim>\<open>eip/est.rs\<close>): the records, the rules a block must satisfy at startup, the endpoint texts, and the
  place the enrolled material is written to. An error carries what its message names. The parsing of
  a JSON object into a record is done by a library and is not part of the model.
\<close>

section \<open>Text\<close>

text \<open>\<^verbatim>\<open>str::rsplit_once\<close> at one ASCII character, and \<^verbatim>\<open>str::find\<close> of it as a split.\<close>

primrec split_once :: "'a \<Rightarrow> 'a list \<Rightarrow> ('a list \<times> 'a list) option" where
  "split_once c [] = None"
| "split_once c (b # bs) = (if b = c then Some ([], bs) else map_option (\<lambda>(x, y). (b # x, y)) (split_once c bs))"

definition rsplit_once :: "'a \<Rightarrow> 'a list \<Rightarrow> ('a list \<times> 'a list) option" where
  "rsplit_once c s = map_option (\<lambda>(x, y). (rev y, rev x)) (split_once c (rev s))"

definition strip_text :: "'a list \<Rightarrow> 'a list \<Rightarrow> 'a list option" where
  "strip_text p s = (if take (length p) s = p then Some (drop (length p) s) else None)"

definition all_digits :: "bytes \<Rightarrow> bool" where
  "all_digits s \<longleftrightarrow> list_all is_ascii_digit s"

text \<open>\<^verbatim>\<open>str::parse::<u16>\<close>: an optional plus sign and at least one digit, in range.\<close>

definition parse_u16 :: "bytes \<Rightarrow> u16 option" where
  "parse_u16 s =
     (let d = (case s of b # bs \<Rightarrow> if b = 0x2B then bs else s | [] \<Rightarrow> s) in
      if d = [] \<or> \<not> all_digits d \<or> parse_dec d \<ge> 2 ^ 16 then None else Some (of_nat (parse_dec d)))"

section \<open>The block\<close>

datatype security_mode = Plaintext | Tls

record secret_ref =
  sr_secret :: rstr
  sr_field :: "rstr option"

record client_identity =
  ci_cert_secret :: "rstr option"
  ci_cert_file :: "rstr option"
  ci_key_file :: "rstr option"
  ci_cert :: "secret_ref option"
  ci_key :: "secret_ref option"
  ci_renew_before_days :: "u32 option"

definition has_bundle :: "client_identity \<Rightarrow> bool" where
  "has_bundle c \<longleftrightarrow> ci_cert_secret c \<noteq> None"

definition has_files :: "client_identity \<Rightarrow> bool" where
  "has_files c \<longleftrightarrow> ci_cert_file c \<noteq> None \<or> ci_key_file c \<noteq> None"

definition has_inline :: "client_identity \<Rightarrow> bool" where
  "has_inline c \<longleftrightarrow> ci_cert c \<noteq> None \<or> ci_key c \<noteq> None"

definition is_complete :: "client_identity \<Rightarrow> bool" where
  "is_complete c \<longleftrightarrow>
     has_bundle c \<or> (ci_cert_file c \<noteq> None \<and> ci_key_file c \<noteq> None) \<or> (ci_cert c \<noteq> None \<and> ci_key c \<noteq> None)"

record ca_source =
  ca_secret :: "rstr option"
  ca_file :: "rstr option"
  ca_cert :: "secret_ref option"
  ca_trust_store :: "rstr option"
  ca_list :: "secret_ref list option"

definition style_count :: "ca_source \<Rightarrow> nat" where
  "style_count ca =
     of_bool (ca_secret ca \<noteq> None) + of_bool (ca_file ca \<noteq> None) + of_bool (ca_cert ca \<noteq> None) +
     of_bool (ca_trust_store ca \<noteq> None) +
     of_bool (case ca_list ca of None \<Rightarrow> False | Some l \<Rightarrow> l \<noteq> [])"

definition is_configured :: "ca_source \<Rightarrow> bool" where
  "is_configured ca \<longleftrightarrow> style_count ca > 0"

record est_auth =
  ea_bootstrap :: "client_identity option"
  ea_basic :: "secret_ref option"

record est_destination =
  ed_cert_secret :: "rstr option"
  ed_cert :: "rstr option"
  ed_key :: "rstr option"

datatype resolved_destination = Bundle rstr | Pair rstr rstr

record est_config =
  ec_enabled :: bool
  ec_server :: "rstr option"
  ec_label :: "rstr option"
  ec_trust :: "ca_source option"
  ec_auth :: "est_auth option"
  ec_into :: "est_destination option"
  ec_subject :: "rstr option"
  ec_renew_before_days :: "u32 option"
  ec_retry_backoff_mins :: "u64 option"
  ec_fetch_ca_certs :: bool

record security_config =
  sc_mode :: security_mode
  sc_client :: "client_identity option"
  sc_ca :: "ca_source option"
  sc_verify_peer :: bool
  sc_server_name :: "rstr option"
  sc_check_expiration :: bool
  sc_cipher_suites :: "rstr list option"
  sc_reload_interval_secs :: "u64 option"
  sc_est :: "est_config option"

definition is_tls :: "security_config \<Rightarrow> bool" where
  "is_tls sec \<longleftrightarrow> sc_mode sec = Tls"

definition with_client :: "client_identity \<Rightarrow> security_config" where
  "with_client c =
     \<lparr>sc_mode = Tls, sc_client = Some c, sc_ca = None, sc_verify_peer = True, sc_server_name = None,
      sc_check_expiration = True, sc_cipher_suites = None, sc_reload_interval_secs = None, sc_est = None\<rparr>"

definition est_enabled :: "security_config \<Rightarrow> est_config option" where
  "est_enabled sec = (case sc_est sec of Some e \<Rightarrow> if ec_enabled e then Some e else None | None \<Rightarrow> None)"

section \<open>Enrollment\<close>

datatype est_error =
    NoServer | NotHttps rstr | UrlNoHost rstr | UnterminatedIpv6 rstr | InvalidPort rstr
  | BootstrapAndBasic | IncompleteBootstrap | IntoEmpty | IntoMixes | NoDestination | FileDestination

record est_endpoint =
  ee_host :: rstr
  ee_port :: u16
  ee_base_path :: rstr

definition parse_optional_port :: "rstr option \<Rightarrow> est_error + u16" where
  "parse_optional_port p = (case p of None \<Rightarrow> Inr 443 | Some s \<Rightarrow> ok_or (parse_u16 s) (InvalidPort s))"

definition WELL_KNOWN :: rstr where "WELL_KNOWN = ascii ''/.well-known/est''"

text \<open>The \<^verbatim>\<open>host[:port]\<close> part of a URL.\<close>

definition parse_authority :: "rstr \<Rightarrow> est_error + rstr \<times> u16" where
  "parse_authority authority =
     (case strip_prefix 0x5B authority of
        Some stripped \<Rightarrow>
          (case split_once 0x5D stripped of
             None \<Rightarrow> Inl (UnterminatedIpv6 authority)
           | Some (host, after) \<Rightarrow> ok_then (parse_optional_port (strip_prefix 0x3A after)) (\<lambda>port. Inr (host, port)))
      | None \<Rightarrow>
          (case rsplit_once 0x3A authority of
             Some (h, p) \<Rightarrow>
               if p \<noteq> [] \<and> all_digits p then ok_then (parse_optional_port (Some p)) (\<lambda>port. Inr (h, port))
               else Inr (authority, 443)
           | None \<Rightarrow> Inr (authority, 443)))"

definition trim_end :: "'a \<Rightarrow> 'a list \<Rightarrow> 'a list" where
  "trim_end c s = rev (dropWhile (\<lambda>b. b = c) (rev s))"

definition trim_both :: "'a \<Rightarrow> 'a list \<Rightarrow> 'a list" where
  "trim_both c s = trim_end c (dropWhile (\<lambda>b. b = c) s)"

definition est_endpoint_parse :: "rstr \<Rightarrow> rstr option \<Rightarrow> est_error + est_endpoint" where
  "est_endpoint_parse url label =
     ok_then (ok_or (strip_text (ascii ''https://'') url) (NotHttps url)) (\<lambda>rest.
     let (authority, path) =
       (case split_once 0x2F rest of Some (a, p) \<Rightarrow> (a, 0x2F # p) | None \<Rightarrow> (rest, WELL_KNOWN)) in
     if authority = [] then Inl (UrlNoHost url)
     else ok_then (parse_authority authority) (\<lambda>(host, port).
       if host = [] then Inl (UrlNoHost url)
       else
         let trimmed = trim_end 0x2F path;
             base = (if trimmed = [] then WELL_KNOWN else trimmed);
             base' = (case label of
                        Some l \<Rightarrow> if l = [] then base else base @ 0x2F # trim_both 0x2F l
                      | None \<Rightarrow> base)
         in Inr \<lparr>ee_host = host, ee_port = port, ee_base_path = base'\<rparr>))"

definition op_path :: "est_endpoint \<Rightarrow> rstr \<Rightarrow> rstr" where
  "op_path e op = ee_base_path e @ 0x2F # op"

definition host_header :: "est_endpoint \<Rightarrow> rstr" where
  "host_header e = (if ee_port e = 443 then ee_host e else ee_host e @ 0x3A # dec_digits (unat (ee_port e)))"

definition resolve_destination :: "est_config \<Rightarrow> security_config \<Rightarrow> est_error + resolved_destination" where
  "resolve_destination est sec =
     (case ec_into est of
        Some into \<Rightarrow>
          (case (ed_cert_secret into, ed_cert into, ed_key into) of
             (Some b, None, None) \<Rightarrow> Inr (Bundle b)
           | (None, Some c, Some k) \<Rightarrow> Inr (Pair c k)
           | (None, None, None) \<Rightarrow> Inl IntoEmpty
           | _ \<Rightarrow> Inl IntoMixes)
      | None \<Rightarrow>
          ok_then (ok_or (sc_client sec) NoDestination) (\<lambda>client.
          case ci_cert_secret client of
            Some name \<Rightarrow> Inr (Bundle name)
          | None \<Rightarrow>
              (case (ci_cert client, ci_key client) of
                 (Some cert, Some key) \<Rightarrow> Inr (Pair (sr_secret cert) (sr_secret key))
               | _ \<Rightarrow> Inl FileDestination)))"

definition est_validate :: "est_config \<Rightarrow> security_config \<Rightarrow> est_error + unit" where
  "est_validate est sec =
     (if \<not> ec_enabled est then Inr ()
      else
        ok_then (ok_or (ec_server est) NoServer) (\<lambda>server.
        if strip_text (ascii ''https://'') server = None then Inl (NotHttps server)
        else
          ok_then (est_endpoint_parse server (ec_label est)) (\<lambda>_.
          ok_then
            (case ec_auth est of
               None \<Rightarrow> Inr ()
             | Some auth \<Rightarrow>
                 if ea_bootstrap auth \<noteq> None \<and> ea_basic auth \<noteq> None then Inl BootstrapAndBasic
                 else (case ea_bootstrap auth of
                         Some b \<Rightarrow> if is_complete b then Inr () else Inl IncompleteBootstrap
                       | None \<Rightarrow> Inr ())) (\<lambda>_.
          ok_then (resolve_destination est sec) (\<lambda>_. Inr ())))))"

definition DEFAULT_RENEW_BEFORE_DAYS :: int where "DEFAULT_RENEW_BEFORE_DAYS = 30"
definition DEFAULT_RETRY_BACKOFF_MINS :: u64 where "DEFAULT_RETRY_BACKOFF_MINS = 60"
definition DEFAULT_SUBJECT_CN :: rstr where "DEFAULT_SUBJECT_CN = ascii ''eip-originator''"

definition renew_before_days :: "est_config \<Rightarrow> security_config \<Rightarrow> int" where
  "renew_before_days est sec =
     (case ec_renew_before_days est of
        Some d \<Rightarrow> uint d
      | None \<Rightarrow>
          (case Option.bind (sc_client sec) ci_renew_before_days of
             Some d \<Rightarrow> uint d
           | None \<Rightarrow> DEFAULT_RENEW_BEFORE_DAYS))"

definition subject_cn :: "est_config \<Rightarrow> rstr" where
  "subject_cn est = (case ec_subject est of Some s \<Rightarrow> s | None \<Rightarrow> DEFAULT_SUBJECT_CN)"

section \<open>Startup validation\<close>

datatype security_error =
    TlsOnPush | ClientMixesStyles | NeedsBothFiles | NeedsBothInline | NoClientIdentity
  | CaMixesStyles | NoCaSource | EstError est_error

definition client_error :: "client_identity \<Rightarrow> security_error + unit" where
  "client_error c =
     (let styles = of_bool (has_bundle c) + of_bool (has_files c) + of_bool (has_inline c) in
      if (1 :: nat) < styles then Inl ClientMixesStyles
      else if has_files c \<and> \<not> (ci_cert_file c \<noteq> None \<and> ci_key_file c \<noteq> None) then Inl NeedsBothFiles
      else if has_inline c \<and> \<not> (ci_cert c \<noteq> None \<and> ci_key c \<noteq> None) then Inl NeedsBothInline
      else Inr ())"

definition security_validate :: "security_config \<Rightarrow> bool \<Rightarrow> security_error + unit" where
  "security_validate sec is_push =
     (if \<not> is_tls sec then Inr ()
      else if is_push then Inl TlsOnPush
      else
        ok_then (case sc_client sec of Some c \<Rightarrow> client_error c | None \<Rightarrow> Inr ()) (\<lambda>_.
        if \<not> (case sc_client sec of Some c \<Rightarrow> is_complete c | None \<Rightarrow> False) then Inl NoClientIdentity
        else if (case sc_ca sec of Some ca \<Rightarrow> style_count ca > 1 | None \<Rightarrow> False) then Inl CaMixesStyles
        else if sc_verify_peer sec \<and>
                \<not> (case sc_ca sec of Some ca \<Rightarrow> is_configured ca | None \<Rightarrow> False) \<and>
                \<not> (case sc_client sec of Some c \<Rightarrow> has_bundle c | None \<Rightarrow> False) then Inl NoCaSource
        else case sc_est sec of
               Some est \<Rightarrow> map_err EstError (est_validate est sec)
             | None \<Rightarrow> Inr ()))"

section \<open>Endpoint host\<close>

definition host_of :: "rstr \<Rightarrow> rstr" where
  "host_of endpoint =
     (case (case endpoint of
              b # rest \<Rightarrow> if b = 0x5B then map_option fst (split_once 0x5D rest) else None
            | [] \<Rightarrow> None) of
        Some h \<Rightarrow> h
      | None \<Rightarrow>
          (case rsplit_once 0x3A endpoint of
             Some (host, port) \<Rightarrow> if port \<noteq> [] \<and> all_digits port then host else endpoint
           | None \<Rightarrow> endpoint))"

section \<open>What an accepted block is\<close>

text \<open>A client identity given in exactly one style, and completely.\<close>

definition one_style :: "client_identity \<Rightarrow> bool" where
  "one_style c \<longleftrightarrow>
     (has_bundle c \<and> \<not> has_files c \<and> \<not> has_inline c) \<or>
     (\<not> has_bundle c \<and> ci_cert_file c \<noteq> None \<and> ci_key_file c \<noteq> None \<and> \<not> has_inline c) \<or>
     (\<not> has_bundle c \<and> \<not> has_files c \<and> ci_cert c \<noteq> None \<and> ci_key c \<noteq> None)"

lemma client_ok_iff: "client_error c = Inr () \<and> is_complete c \<longleftrightarrow> one_style c"
  unfolding client_error_def is_complete_def one_style_def has_bundle_def has_files_def has_inline_def Let_def
  by (cases "ci_cert_secret c"; cases "ci_cert_file c"; cases "ci_key_file c"; cases "ci_cert c"; cases "ci_key c") simp_all

lemma est_validate_iff:
  "est_validate est sec = Inr () \<longleftrightarrow>
     (ec_enabled est \<longrightarrow>
       (\<exists>server e d. ec_server est = Some server \<and> est_endpoint_parse server (ec_label est) = Inr e \<and>
          resolve_destination est sec = Inr d) \<and>
       (\<forall>auth. ec_auth est = Some auth \<longrightarrow>
          \<not> (ea_bootstrap auth \<noteq> None \<and> ea_basic auth \<noteq> None) \<and> pred_option is_complete (ea_bootstrap auth)))"
proof -
  have https: "strip_text (ascii ''https://'') server \<noteq> None" if "est_endpoint_parse server l = Inr e" for server l e
    using that by (auto simp: est_endpoint_parse_def ok_then_Inr_iff ok_or_def split: option.splits)
  have unit: "ok_then m (\<lambda>_. Inr ()) = Inr () \<longleftrightarrow> (\<exists>x. m = Inr x)" for m :: "est_error + 'a"
    by (cases m) auto
  have auth: "(case a of None \<Rightarrow> Inr () | Some auth \<Rightarrow>
        if ea_bootstrap auth \<noteq> None \<and> ea_basic auth \<noteq> None then Inl BootstrapAndBasic
        else (case ea_bootstrap auth of Some b \<Rightarrow> if is_complete b then Inr () else Inl IncompleteBootstrap
              | None \<Rightarrow> Inr ())) = Inr () \<longleftrightarrow>
      (\<forall>auth. a = Some auth \<longrightarrow> \<not> (ea_bootstrap auth \<noteq> None \<and> ea_basic auth \<noteq> None) \<and> pred_option is_complete (ea_bootstrap auth))"
    for a :: "est_auth option"
    by (auto simp: pred_option_def split: option.splits if_splits)
  show ?thesis
  proof (cases "ec_enabled est")
    case True
    show ?thesis
    proof (cases "ec_server est")
      case (Some server)
      show ?thesis
      proof (cases "est_endpoint_parse server (ec_label est)")
        case (Inr e)
        with https [OF Inr] True Some show ?thesis
          by (simp add: est_validate_def ok_then_Inr_iff auth unit) auto
      qed (use True Some in \<open>auto simp: est_validate_def\<close>)
    qed (use True in \<open>simp add: est_validate_def\<close>)
  qed (simp add: est_validate_def)
qed

text \<open>
  A TLS block is accepted exactly when the instance is not a push one, the client identity is given
  completely and in one style, at most one style gives the trust anchors, verifying the peer has a
  source of them, and an enabled enrollment has a server that parses, one way to authenticate and a
  place for its result. A plaintext block is always accepted.
\<close>

theorem security_validate_iff:
  "security_validate sec is_push = Inr () \<longleftrightarrow>
     (is_tls sec \<longrightarrow>
        \<not> is_push \<and>
        (\<exists>c. sc_client sec = Some c \<and> one_style c \<and>
           (sc_verify_peer sec \<longrightarrow> has_bundle c \<or> (\<exists>ca. sc_ca sec = Some ca \<and> is_configured ca))) \<and>
        (\<forall>ca. sc_ca sec = Some ca \<longrightarrow> style_count ca \<le> 1) \<and>
        (\<forall>est. est_enabled sec = Some est \<longrightarrow>
           (\<exists>server e d. ec_server est = Some server \<and> est_endpoint_parse server (ec_label est) = Inr e \<and>
              resolve_destination est sec = Inr d) \<and>
           (\<forall>auth. ec_auth est = Some auth \<longrightarrow>
              \<not> (ea_bootstrap auth \<noteq> None \<and> ea_basic auth \<noteq> None) \<and>
              pred_option is_complete (ea_bootstrap auth))))"
proof (cases "is_tls sec \<and> \<not> is_push")
  case True
  show ?thesis
  proof (cases "sc_client sec")
    case None
    with True show ?thesis by (simp add: security_validate_def)
  next
    case (Some c)
    show ?thesis
    proof (cases "one_style c")
      case True
      then have c: "client_error c = Inr ()" "is_complete c" using client_ok_iff [of c] by auto
      show ?thesis
      proof (cases "sc_est sec")
        case None
        with \<open>is_tls sec \<and> \<not> is_push\<close> Some c True show ?thesis
          by (auto simp: security_validate_def est_enabled_def not_less split: option.splits)
      next
        case (Some est)
        with \<open>is_tls sec \<and> \<not> is_push\<close> \<open>sc_client sec = Some c\<close> c True show ?thesis
          by (cases "ec_enabled est"; cases "sc_ca sec")
            (auto simp: security_validate_def est_enabled_def not_less est_validate_iff)
      qed
    next
      case False
      then have "client_error c = Inr () \<Longrightarrow> \<not> is_complete c" using client_ok_iff [of c] by auto
      with False True Some show ?thesis
        by (cases "client_error c") (auto simp: security_validate_def)
    qed
  qed
qed (auto simp: security_validate_def)

text \<open>
  The host of a bracketed address is what the brackets hold, but the bare form of such an address
  loses its last group when that is decimal: it is taken for a port.
\<close>

theorem host_of_bare_ipv6:
  "host_of (ascii ''[fe80::1]:44818'') = ascii ''fe80::1'' \<and> host_of (ascii ''fe80::1'') = ascii ''fe80:''"
  by (simp add: host_of_def ascii_def of_char_def rsplit_once_def all_digits_def is_ascii_digit_def)

end
