(* ===== verification/Config.thy ===== *)
theory Config
  imports Value_Codec Security_Config Assembly Cm Io_Frame
begin

text \<open>
  The configuration of the adapter (\<^verbatim>\<open>config.rs\<close>, with the connection object of \<^verbatim>\<open>device.rs\<close>): the
  records, the precedence chains, the stable identifiers of signals, and the startup validation that
  decides whether a device is launched. An error is a value that carries what its message names. The
  parsing of JSON into the records is done by a library; the security block, which rides in the open
  part of the connection, is parsed by a parameter of the validation.
\<close>

section \<open>Global settings\<close>

definition MAX_ARRAY_COUNT :: u32 where "MAX_ARRAY_COUNT = 65535"

datatype publish_mode = OnChange | Always

fun publish_mode_str :: "publish_mode \<Rightarrow> string" where
  "publish_mode_str OnChange = ''onChange''"
| "publish_mode_str Always = ''always''"

definition BUILTIN_POLL_MS :: u64 where "BUILTIN_POLL_MS = 5000"
definition BUILTIN_PUBLISH_MODE :: publish_mode where "BUILTIN_PUBLISH_MODE = OnChange"
definition BUILTIN_BATCH_MS :: u64 where "BUILTIN_BATCH_MS = 0"

record defaults =
  df_poll_interval_ms :: "u64 option"
  df_publish_mode :: "publish_mode option"
  df_batch_ms :: "u64 option"

record timeouts =
  to_connect_ms :: u64
  to_request_timeout_ms :: u64
  to_reconnect_backoff_min_ms :: u64
  to_reconnect_backoff_max_ms :: u64

record health_thresholds =
  ht_stale_signal_secs :: u64
  ht_keepalive_probe_interval_ms :: u64

record global_config =
  gc_defaults :: defaults
  gc_timeouts :: timeouts
  gc_health_thresholds :: health_thresholds
  gc_metrics_interval_secs :: u64

definition timeouts_default :: timeouts where
  "timeouts_default =
     \<lparr>to_connect_ms = 5000, to_request_timeout_ms = 2000,
      to_reconnect_backoff_min_ms = 1000, to_reconnect_backoff_max_ms = 60000\<rparr>"

definition health_thresholds_default :: health_thresholds where
  "health_thresholds_default = \<lparr>ht_stale_signal_secs = 60, ht_keepalive_probe_interval_ms = 60000\<rparr>"

definition global_config_default :: global_config where
  "global_config_default =
     \<lparr>gc_defaults = \<lparr>df_poll_interval_ms = None, df_publish_mode = None, df_batch_ms = None\<rparr>,
      gc_timeouts = timeouts_default, gc_health_thresholds = health_thresholds_default,
      gc_metrics_interval_secs = 60\<rparr>"

section \<open>Signals and poll groups\<close>

datatype deadband_kind = DbNone | DbAbsolute | DbPercent

record deadband_spec =
  db_kind :: deadband_kind
  db_value :: f64

definition deadband_default :: deadband_spec where
  "deadband_default = \<lparr>db_kind = DbNone, db_value = f64_zero\<rparr>"

record connection_config =
  cc_endpoint :: rstr
  cc_slot :: "u8 option"
  cc_connected :: bool
  cc_extra :: "(rstr \<times> json) list"

definition connection_mode :: "connection_config \<Rightarrow> string" where
  "connection_mode c = (if cc_connected c then ''connected'' else ''unconnected'')"

record signal_spec =
  sg_name :: rstr
  sg_tag_path :: rstr
  sg_eip_type :: eip_type
  sg_array_count :: "u32 option"
  sg_scale :: "f64 option"
  sg_offset :: "f64 option"
  sg_deadband :: deadband_spec

definition json_field :: "string \<Rightarrow> json \<Rightarrow> rstr \<times> json" where
  "json_field k v = (ascii k, v)"

definition json_opt :: "string \<Rightarrow> json option \<Rightarrow> (rstr \<times> json) list" where
  "json_opt k m = (case m of Some v \<Rightarrow> [json_field k v] | None \<Rightarrow> [])"

text \<open>
  The address object of a signal. The map of the JSON library is ordered by key and the fields are
  listed in the order the source inserts them; its rendering is not observed here.
\<close>

definition signal_address_json :: "signal_spec \<Rightarrow> connection_config \<Rightarrow> json" where
  "signal_address_json s conn =
     JObject ([json_field ''tagPath'' (JString (sg_tag_path s)),
               json_field ''type'' (JString (ascii (eip_wire (sg_eip_type s))))] @
              json_opt ''arrayCount'' (map_option (\<lambda>n. json_of_u64 (ucast n)) (sg_array_count s)) @
              json_opt ''slot'' (map_option (\<lambda>n. json_of_u64 (ucast n)) (cc_slot conn)))"

definition signal_is_numeric :: "signal_spec \<Rightarrow> bool" where
  "signal_is_numeric s \<longleftrightarrow> sg_eip_type s \<noteq> EipBool"

record poll_group =
  pg_id :: "rstr option"
  pg_poll_interval_ms :: "u64 option"
  pg_publish_mode :: "publish_mode option"
  pg_signals :: "signal_spec list"

definition permits :: "rstr list \<Rightarrow> rstr \<Rightarrow> bool" where
  "permits allow signal_id \<longleftrightarrow> list_ex (\<lambda>s. s = signal_id) allow"

section \<open>Push mode\<close>

datatype device_mode = Poll | Push

fun device_mode_str :: "device_mode \<Rightarrow> string" where
  "device_mode_str Poll = ''poll''"
| "device_mode_str Push = ''push''"

datatype io_conn_type = IoP2p | IoMulticast

fun io_conn_type_to_enip :: "io_conn_type \<Rightarrow> conn_type" where
  "io_conn_type_to_enip IoP2p = P2P"
| "io_conn_type_to_enip IoMulticast = Multicast"

datatype io_priority = IoLow | IoHigh | IoScheduled | IoUrgent

fun io_priority_to_enip :: "io_priority \<Rightarrow> priority" where
  "io_priority_to_enip IoLow = Low"
| "io_priority_to_enip IoHigh = High"
| "io_priority_to_enip IoScheduled = Scheduled"
| "io_priority_to_enip IoUrgent = Urgent"

datatype rt_format = RtModeless | RtHeader32 | RtHeartbeat

fun rt_format_to_enip :: "rt_format \<Rightarrow> real_time_format" where
  "rt_format_to_enip RtModeless = Modeless"
| "rt_format_to_enip RtHeader32 = Header32Bit"
| "rt_format_to_enip RtHeartbeat = Heartbeat"

record io_field_spec =
  if_name :: rstr
  if_offset :: nat
  if_eip_type :: eip_type
  if_bit :: "u8 option"
  if_array_count :: "u32 option"
  if_scale :: "f64 option"
  if_value_offset :: "f64 option"
  if_deadband :: "deadband_spec option"

record io_assemblies =
  ia_config :: "u16 option"
  ia_output :: u16
  ia_input :: u16

record io_input =
  ii_size_bytes :: nat
  ii_real_time_format :: rt_format
  ii_sample_ms :: u64
  ii_signals :: "io_field_spec list"

record io_output =
  io_size_bytes :: nat
  io_real_time_format :: rt_format
  io_run :: bool
  io_signals :: "io_field_spec list"

record io_config =
  ic_rpi_ms :: u64
  ic_o2t_rpi_ms :: "u64 option"
  ic_connection_type :: io_conn_type
  ic_priority :: io_priority
  ic_timeout_multiplier :: u32
  ic_assemblies :: io_assemblies
  ic_input :: io_input
  ic_output :: "io_output option"

text \<open>The stable identifier \<^verbatim>\<open>a<assembly>/<offset>/<type>[.<bit>]\<close>.\<close>

definition field_signal_id :: "io_field_spec \<Rightarrow> u16 \<Rightarrow> rstr" where
  "field_signal_id f assembly =
     ascii ''a'' @ dec_digits (unat assembly) @ ascii ''/'' @ dec_digits (if_offset f) @ ascii ''/'' @
     ascii (eip_wire (if_eip_type f)) @
     (case if_bit f of Some b \<Rightarrow> ascii ''.'' @ dec_digits (unat b) | None \<Rightarrow> [])"

definition field_address_json :: "io_field_spec \<Rightarrow> u16 \<Rightarrow> connection_config \<Rightarrow> json" where
  "field_address_json f assembly conn =
     JObject ([json_field ''assembly'' (json_of_u64 (ucast assembly)),
               json_field ''offset'' (json_of_u64 (of_nat (if_offset f))),
               json_field ''type'' (JString (ascii (eip_wire (if_eip_type f))))] @
              json_opt ''bit'' (map_option (\<lambda>n. json_of_u64 (ucast n)) (if_bit f)) @
              json_opt ''arrayCount'' (map_option (\<lambda>n. json_of_u64 (ucast n)) (if_array_count f)) @
              json_opt ''slot'' (map_option (\<lambda>n. json_of_u64 (ucast n)) (cc_slot conn)))"

definition field_is_numeric :: "io_field_spec \<Rightarrow> bool" where
  "field_is_numeric f \<longleftrightarrow> if_eip_type f \<noteq> EipBool"

definition to_enip_field :: "io_field_spec \<Rightarrow> nat \<Rightarrow> field_spec" where
  "to_enip_field f key =
     \<lparr>fs_key = key, fs_offset = if_offset f, fs_ty = eip_cip_type (if_eip_type f), fs_bit = if_bit f,
      fs_count = (case if_array_count f of Some n \<Rightarrow> unat n | None \<Rightarrow> 1)\<rparr>"

section \<open>Validation\<close>

datatype config_error =
    SecurityParse rstr
  | SecurityInvalid security_error
  | PollWithIo | PushWithPollGroups | PushWithoutIo
  | NoPollGroups
  | EmptyPollGroup nat
  | DuplicateName rstr
  | DuplicateTagPath rstr
  | DuplicateSignalId rstr
  | ArrayCountOutOfRange rstr u32
  | BoolTransform rstr
  | BoolDeadband rstr
  | OutputDeadband rstr
  | IllegalMultiplier u32
  | ZeroRpi | ZeroO2tRpi
  | HeartbeatInput | ZeroInputSize | EmptyInput | HeartbeatWithSignals
  | LayoutError string "rstr option" assembly_error

definition timeout_multiplier_enip :: "io_config \<Rightarrow> config_error + timeout_multiplier" where
  "timeout_multiplier_enip io =
     (let m = ic_timeout_multiplier io in
      if m = 4 then Inr X4 else if m = 8 then Inr X8 else if m = 16 then Inr X16
      else if m = 32 then Inr X32 else if m = 64 then Inr X64 else if m = 128 then Inr X128
      else if m = 256 then Inr X256 else if m = 512 then Inr X512 else Inl (IllegalMultiplier m))"

definition effective_o2t_rpi_ms :: "io_config \<Rightarrow> u64" where
  "effective_o2t_rpi_ms io = (case ic_o2t_rpi_ms io of Some r \<Rightarrow> r | None \<Rightarrow> ic_rpi_ms io)"

definition enip_fields :: "io_field_spec list \<Rightarrow> field_spec list" where
  "enip_fields flds = map (\<lambda>(idx, f). to_enip_field f idx) (enumerate 0 flds)"

definition error_key :: "assembly_error \<Rightarrow> nat option" where
  "error_key e =
     (case e of FieldOutOfBounds key \<Rightarrow> Some key | ZeroCount key \<Rightarrow> Some key
      | InvalidBitField key \<Rightarrow> Some key | NonElementaryType key \<Rightarrow> Some key | _ \<Rightarrow> None)"

definition build_layout :: "io_field_spec list \<Rightarrow> nat \<Rightarrow> string \<Rightarrow> config_error + assembly_layout" where
  "build_layout flds size_bytes ctx =
     map_err (\<lambda>e. LayoutError ctx
         (Option.bind (error_key e) (\<lambda>k. if k < length flds then Some (if_name (flds ! k)) else None)) e)
       (assembly_new (enip_fields flds) size_bytes)"

definition input_layout :: "io_config \<Rightarrow> config_error + assembly_layout" where
  "input_layout io = build_layout (ii_signals (ic_input io)) (ii_size_bytes (ic_input io)) ''io.input''"

definition output_layout :: "io_config \<Rightarrow> config_error + assembly_layout option" where
  "output_layout io =
     (case ic_output io of
        Some out \<Rightarrow>
          if io_signals out \<noteq> []
          then ok_then (build_layout (io_signals out) (io_size_bytes out) ''io.output'') (\<lambda>l. Inr (Some l))
          else Inr None
      | None \<Rightarrow> Inr None)"

definition output_fields :: "io_config \<Rightarrow> io_field_spec list" where
  "output_fields io = (case ic_output io of Some out \<Rightarrow> io_signals out | None \<Rightarrow> [])"

definition output_field_ids :: "io_config \<Rightarrow> rstr list" where
  "output_field_ids io = map (\<lambda>f. field_signal_id f (ia_output (ic_assemblies io))) (output_fields io)"

datatype io_side = SideInput | SideOutput

text \<open>The loop over the fields of one direction, with the sets of names and identifiers seen.\<close>

fun check_io_fields ::
    "io_side \<Rightarrow> u16 \<Rightarrow> io_field_spec list \<Rightarrow> rstr set \<Rightarrow> rstr set \<Rightarrow> config_error + rstr set \<times> rstr set" where
  "check_io_fields side inst [] names ids = Inr (names, ids)"
| "check_io_fields side inst (f # fs) names ids =
     (let sid = field_signal_id f inst in
      if if_name f \<in> names then Inl (DuplicateName (if_name f))
      else if sid \<in> ids then Inl (DuplicateSignalId sid)
      else if \<not> field_is_numeric f \<and> (if_scale f \<noteq> None \<or> if_value_offset f \<noteq> None) then Inl (BoolTransform (if_name f))
      else if side = SideInput \<and> \<not> field_is_numeric f \<and>
              (case if_deadband f of Some db \<Rightarrow> db_kind db \<noteq> DbNone | None \<Rightarrow> False) then Inl (BoolDeadband (if_name f))
      else if side = SideOutput \<and> if_deadband f \<noteq> None then Inl (OutputDeadband (if_name f))
      else check_io_fields side inst fs (insert (if_name f) names) (insert sid ids))"

definition io_validate :: "io_config \<Rightarrow> config_error + unit" where
  "io_validate io =
     ok_then (timeout_multiplier_enip io) (\<lambda>_.
     if ic_rpi_ms io = 0 then Inl ZeroRpi
     else if effective_o2t_rpi_ms io = 0 then Inl ZeroO2tRpi
     else if ii_real_time_format (ic_input io) = RtHeartbeat then Inl HeartbeatInput
     else if ii_size_bytes (ic_input io) = 0 then Inl ZeroInputSize
     else if ii_signals (ic_input io) = [] then Inl EmptyInput
     else if (case ic_output io of Some out \<Rightarrow> io_size_bytes out = 0 \<and> io_signals out \<noteq> [] | None \<Rightarrow> False)
     then Inl HeartbeatWithSignals
     else
       ok_then (check_io_fields SideInput (ia_input (ic_assemblies io)) (ii_signals (ic_input io)) {} {}) (\<lambda>(names, ids).
       ok_then (check_io_fields SideOutput (ia_output (ic_assemblies io)) (output_fields io) names ids) (\<lambda>_.
       ok_then (input_layout io) (\<lambda>_.
       ok_then (output_layout io) (\<lambda>_. Inr ())))))"

record device_config =
  dc_id :: rstr
  dc_adapter :: rstr
  dc_mode :: device_mode
  dc_connection :: connection_config
  dc_defaults :: defaults
  dc_poll_groups :: "poll_group list"
  dc_io :: "io_config option"
  dc_writes :: "rstr list"

definition dc_signals :: "device_config \<Rightarrow> signal_spec list" where
  "dc_signals cfg = concat (map pg_signals (dc_poll_groups cfg))"

text \<open>The loops over the groups and their signals, with the sets of names and tag paths seen.\<close>

fun check_signals :: "signal_spec list \<Rightarrow> rstr set \<Rightarrow> rstr set \<Rightarrow> config_error + rstr set \<times> rstr set" where
  "check_signals [] names paths = Inr (names, paths)"
| "check_signals (s # ss) names paths =
     (if sg_name s \<in> names then Inl (DuplicateName (sg_name s))
      else if sg_tag_path s \<in> paths then Inl (DuplicateTagPath (sg_tag_path s))
      else if (case sg_array_count s of Some n \<Rightarrow> \<not> (1 \<le> n \<and> n \<le> MAX_ARRAY_COUNT) | None \<Rightarrow> False)
      then Inl (ArrayCountOutOfRange (sg_name s) (the (sg_array_count s)))
      else if \<not> signal_is_numeric s \<and> (sg_scale s \<noteq> None \<or> sg_offset s \<noteq> None) then Inl (BoolTransform (sg_name s))
      else if \<not> signal_is_numeric s \<and> db_kind (sg_deadband s) \<noteq> DbNone then Inl (BoolDeadband (sg_name s))
      else check_signals ss (insert (sg_name s) names) (insert (sg_tag_path s) paths))"

fun check_groups :: "nat \<Rightarrow> poll_group list \<Rightarrow> rstr set \<Rightarrow> rstr set \<Rightarrow> config_error + unit" where
  "check_groups idx [] names paths = Inr ()"
| "check_groups idx (g # gs) names paths =
     (if pg_signals g = [] then Inl (EmptyPollGroup (idx + 1))
      else ok_then (check_signals (pg_signals g) names paths) (\<lambda>(names', paths').
        check_groups (idx + 1) gs names' paths'))"

definition default_group_id :: "nat \<Rightarrow> rstr" where
  "default_group_id idx = ascii ''group-'' @ dec_digits (idx + 1)"

definition assign_ids :: "poll_group list \<Rightarrow> poll_group list" where
  "assign_ids gs =
     map (\<lambda>(idx, g). if pg_id g = None then g\<lparr>pg_id := Some (default_group_id idx)\<rparr> else g) (enumerate 0 gs)"

definition validate_poll :: "device_config \<Rightarrow> config_error + device_config" where
  "validate_poll cfg =
     (if dc_poll_groups cfg = [] then Inl NoPollGroups
      else ok_then (check_groups 0 (dc_poll_groups cfg) {} {}) (\<lambda>_.
        Inr (cfg\<lparr>dc_poll_groups := assign_ids (dc_poll_groups cfg)\<rparr>)))"

text \<open>\<^verbatim>\<open>SecurityConfig::from_connection\<close>, over the library's parser of the block.\<close>

definition from_connection ::
    "(json \<Rightarrow> rstr + security_config) \<Rightarrow> connection_config \<Rightarrow> config_error + security_config option" where
  "from_connection parse conn =
     (case map_of (cc_extra conn) (ascii ''security'') of
        None \<Rightarrow> Inr None
      | Some v \<Rightarrow> ok_then (map_err SecurityParse (parse v)) (\<lambda>sec. Inr (Some sec)))"

definition device_validate :: "(json \<Rightarrow> rstr + security_config) \<Rightarrow> device_config \<Rightarrow> config_error + device_config" where
  "device_validate parse cfg =
     ok_then (from_connection parse (dc_connection cfg)) (\<lambda>security.
     ok_then (case security of
                Some sec \<Rightarrow> map_err SecurityInvalid (security_validate sec (dc_mode cfg = Push))
              | None \<Rightarrow> Inr ()) (\<lambda>_.
     case dc_mode cfg of
       Poll \<Rightarrow> if dc_io cfg \<noteq> None then Inl PollWithIo else validate_poll cfg
     | Push \<Rightarrow>
         if dc_poll_groups cfg \<noteq> [] then Inl PushWithPollGroups
         else (case dc_io cfg of
                 None \<Rightarrow> Inl PushWithoutIo
               | Some io \<Rightarrow> ok_then (io_validate io) (\<lambda>_. Inr cfg))))"

section \<open>Lookups and precedence\<close>

definition find_signal :: "device_config \<Rightarrow> rstr \<Rightarrow> signal_spec option" where
  "find_signal cfg tag_path = find (\<lambda>s. sg_tag_path s = tag_path) (dc_signals cfg)"

definition unmatched_allow_entries :: "device_config \<Rightarrow> rstr list" where
  "unmatched_allow_entries cfg =
     (let configured =
        (case dc_mode cfg of
           Poll \<Rightarrow> map sg_tag_path (dc_signals cfg)
         | Push \<Rightarrow> (case dc_io cfg of Some io \<Rightarrow> output_field_ids io | None \<Rightarrow> []))
      in filter (\<lambda>a. a \<notin> set configured) (dc_writes cfg))"

definition experimental_signals :: "device_config \<Rightarrow> rstr list" where
  "experimental_signals cfg =
     map sg_name (filter (\<lambda>s. sg_eip_type s = EipBool \<and> sg_array_count s \<noteq> None) (dc_signals cfg))"

definition or_else :: "'a option \<Rightarrow> 'a option \<Rightarrow> 'a option" where
  "or_else a b = (case a of Some x \<Rightarrow> Some x | None \<Rightarrow> b)"

definition unwrap_or :: "'a option \<Rightarrow> 'a \<Rightarrow> 'a" where
  "unwrap_or a d = (case a of Some x \<Rightarrow> x | None \<Rightarrow> d)"

definition effective_poll_ms :: "device_config \<Rightarrow> poll_group \<Rightarrow> global_config \<Rightarrow> u64" where
  "effective_poll_ms cfg g global =
     unwrap_or (or_else (or_else (pg_poll_interval_ms g) (df_poll_interval_ms (dc_defaults cfg)))
                        (df_poll_interval_ms (gc_defaults global))) BUILTIN_POLL_MS"

definition effective_publish_mode :: "device_config \<Rightarrow> poll_group \<Rightarrow> global_config \<Rightarrow> publish_mode" where
  "effective_publish_mode cfg g global =
     unwrap_or (or_else (or_else (pg_publish_mode g) (df_publish_mode (dc_defaults cfg)))
                        (df_publish_mode (gc_defaults global))) BUILTIN_PUBLISH_MODE"

definition effective_batch_ms :: "device_config \<Rightarrow> global_config \<Rightarrow> u64" where
  "effective_batch_ms cfg global =
     unwrap_or (or_else (df_batch_ms (dc_defaults cfg)) (df_batch_ms (gc_defaults global))) BUILTIN_BATCH_MS"

section \<open>What an accepted configuration is\<close>

definition ok_signal :: "signal_spec \<Rightarrow> bool" where
  "ok_signal s \<longleftrightarrow>
     pred_option (\<lambda>n. 1 \<le> n \<and> n \<le> MAX_ARRAY_COUNT) (sg_array_count s) \<and>
     (sg_eip_type s = EipBool \<longrightarrow>
        sg_scale s = None \<and> sg_offset s = None \<and> db_kind (sg_deadband s) = DbNone)"

definition ok_field :: "io_side \<Rightarrow> io_field_spec \<Rightarrow> bool" where
  "ok_field side f \<longleftrightarrow>
     (if_eip_type f = EipBool \<longrightarrow> if_scale f = None \<and> if_value_offset f = None \<and>
        (side = SideInput \<longrightarrow> pred_option (\<lambda>db. db_kind db = DbNone) (if_deadband f))) \<and>
     (side = SideOutput \<longrightarrow> if_deadband f = None)"

lemma check_signals_iff:
  "check_signals ss names paths = Inr np \<longleftrightarrow>
     np = (set (map sg_name ss) \<union> names, set (map sg_tag_path ss) \<union> paths) \<and> list_all ok_signal ss \<and>
     distinct (map sg_name ss) \<and> set (map sg_name ss) \<inter> names = {} \<and>
     distinct (map sg_tag_path ss) \<and> set (map sg_tag_path ss) \<inter> paths = {}"
proof (induction ss names paths rule: check_signals.induct)
  case (2 s ss names paths)
  show ?case
  proof (cases "sg_name s \<notin> names \<and> sg_tag_path s \<notin> paths \<and> ok_signal s")
    case True
    then have "check_signals (s # ss) names paths =
        check_signals ss (insert (sg_name s) names) (insert (sg_tag_path s) paths)"
      by (auto simp: ok_signal_def signal_is_numeric_def split: option.splits)
    with True 2 show ?thesis
      by (auto simp: ok_signal_def signal_is_numeric_def split: option.splits)
  next
    case False
    then have "\<exists>e. check_signals (s # ss) names paths = Inl e"
      by (auto simp: ok_signal_def signal_is_numeric_def split: option.splits)
    with False show ?thesis by auto
  qed
qed auto

lemma check_groups_iff:
  "check_groups idx gs names paths = Inr () \<longleftrightarrow>
     (\<forall>g \<in> set gs. pg_signals g \<noteq> []) \<and> list_all ok_signal (concat (map pg_signals gs)) \<and>
     distinct (map sg_name (concat (map pg_signals gs))) \<and>
     set (map sg_name (concat (map pg_signals gs))) \<inter> names = {} \<and>
     distinct (map sg_tag_path (concat (map pg_signals gs))) \<and>
     set (map sg_tag_path (concat (map pg_signals gs))) \<inter> paths = {}"
proof (induction idx gs names paths rule: check_groups.induct)
  case (2 idx g gs names paths)
  show ?case
  proof (cases "check_signals (pg_signals g) names paths")
    case (Inl e)
    with check_signals_iff [of "pg_signals g" names paths
        "(set (map sg_name (pg_signals g)) \<union> names, set (map sg_tag_path (pg_signals g)) \<union> paths)"]
    show ?thesis by (auto simp: Int_Un_distrib2)
  next
    case (Inr np)
    then show ?thesis
      using 2 iffD1 [OF check_signals_iff Inr]
      by (cases "pg_signals g = []") (simp_all add: Int_Un_distrib Int_Un_distrib2 Int_commute, blast?)
  qed
qed simp

lemma check_io_fields_iff:
  "check_io_fields side inst fs names ids = Inr ni \<longleftrightarrow>
     ni = (set (map if_name fs) \<union> names, set (map (\<lambda>f. field_signal_id f inst) fs) \<union> ids) \<and>
     list_all (ok_field side) fs \<and>
     distinct (map if_name fs) \<and> set (map if_name fs) \<inter> names = {} \<and>
     distinct (map (\<lambda>f. field_signal_id f inst) fs) \<and> set (map (\<lambda>f. field_signal_id f inst) fs) \<inter> ids = {}"
proof (induction side inst fs names ids rule: check_io_fields.induct)
  case (2 side inst f fs names ids)
  show ?case
  proof (cases "if_name f \<notin> names \<and> field_signal_id f inst \<notin> ids \<and> ok_field side f")
    case True
    then have "check_io_fields side inst (f # fs) names ids =
        check_io_fields side inst fs (insert (if_name f) names) (insert (field_signal_id f inst) ids)"
      by (auto simp: ok_field_def field_is_numeric_def Let_def split: option.splits)
    with True 2 show ?thesis
      by (auto simp: ok_field_def field_is_numeric_def Let_def split: option.splits)
  next
    case False
    then have "\<exists>e. check_io_fields side inst (f # fs) names ids = Inl e"
      by (cases side) (auto simp: ok_field_def field_is_numeric_def Let_def split: option.splits)
    with False show ?thesis by auto
  qed
qed auto


text \<open>The rules for a poll device and for the class 1 block of a push device.\<close>

definition wf_poll :: "device_config \<Rightarrow> bool" where
  "wf_poll cfg \<longleftrightarrow>
     dc_poll_groups cfg \<noteq> [] \<and> (\<forall>g \<in> set (dc_poll_groups cfg). pg_signals g \<noteq> []) \<and>
     list_all ok_signal (dc_signals cfg) \<and>
     distinct (map sg_name (dc_signals cfg)) \<and> distinct (map sg_tag_path (dc_signals cfg))"

definition legal_multipliers :: "u32 list" where
  "legal_multipliers = [4, 8, 16, 32, 64, 128, 256, 512]"

definition io_ids :: "io_config \<Rightarrow> rstr list" where
  "io_ids io = map (\<lambda>f. field_signal_id f (ia_input (ic_assemblies io))) (ii_signals (ic_input io)) @ output_field_ids io"

definition wf_io :: "io_config \<Rightarrow> bool" where
  "wf_io io \<longleftrightarrow>
     ic_timeout_multiplier io \<in> set legal_multipliers \<and> ic_rpi_ms io \<noteq> 0 \<and> effective_o2t_rpi_ms io \<noteq> 0 \<and>
     ii_real_time_format (ic_input io) \<noteq> RtHeartbeat \<and> ii_signals (ic_input io) \<noteq> [] \<and>
     list_all (ok_field SideInput) (ii_signals (ic_input io)) \<and> list_all (ok_field SideOutput) (output_fields io) \<and>
     distinct (map if_name (ii_signals (ic_input io)) @ map if_name (output_fields io)) \<and> distinct (io_ids io) \<and>
     list_all (valid_field (ii_size_bytes (ic_input io))) (enip_fields (ii_signals (ic_input io))) \<and>
     (\<forall>out. ic_output io = Some out \<longrightarrow> list_all (valid_field (io_size_bytes out)) (enip_fields (io_signals out)))"

lemma enip_fields_nth:
  "length (enip_fields fs) = length fs"
  "k < length fs \<Longrightarrow> enip_fields fs ! k = to_enip_field (fs ! k) k"
  by (simp_all add: enip_fields_def nth_enumerate_eq)

lemma enip_fields_Nil [simp]: "enip_fields [] = []" "enip_fields fs = [] \<longleftrightarrow> fs = []"
  by (simp_all add: enip_fields_def) (metis enumerate_simps(1) length_0_conv length_enumerate)

lemma build_layout_iff:
  assumes "n \<le> usize_max"
  shows "build_layout fs n ctx = Inr l \<longleftrightarrow>
    list_all (valid_field n) (enip_fields fs) \<and> l = \<lparr>al_fields = enip_fields fs, al_data_size = n\<rparr>"
  using check_fields_iff [OF assms, of "enip_fields fs"]
  by (cases "check_fields n (enip_fields fs)") (auto simp: build_layout_def assembly_new_def)

lemma valid_field_size: "valid_field n f \<Longrightarrow> 0 < n"
  using span_pos [of n f] by (auto simp: valid_field_def)

lemma timeout_multiplier_iff:
  "(\<exists>m. timeout_multiplier_enip io = Inr m) \<longleftrightarrow> ic_timeout_multiplier io \<in> set legal_multipliers"
  by (auto simp: timeout_multiplier_enip_def legal_multipliers_def Let_def)

lemma validate_poll_iff:
  "validate_poll cfg = Inr cfg' \<longleftrightarrow>
     wf_poll cfg \<and> cfg' = cfg\<lparr>dc_poll_groups := assign_ids (dc_poll_groups cfg)\<rparr>"
proof (cases "check_groups 0 (dc_poll_groups cfg) {} {}")
  case (Inl e)
  with check_groups_iff [of 0 "dc_poll_groups cfg" "{}" "{}"]
  show ?thesis by (auto simp: validate_poll_def wf_poll_def dc_signals_def)
next
  case (Inr u)
  with check_groups_iff [of 0 "dc_poll_groups cfg" "{}" "{}"]
  show ?thesis by (auto simp: validate_poll_def wf_poll_def dc_signals_def)
qed

lemma assign_ids_signals [simp]: "map pg_signals (assign_ids gs) = map pg_signals gs"
  by (rule nth_equalityI) (auto simp: assign_ids_def nth_enumerate_eq)

lemma find_distinct:
  assumes "distinct (map key xs)" "x \<in> set xs"
  shows "find (\<lambda>y. key y = key x) xs = Some x"
  using assms by (induction xs) auto

text \<open>The class 1 block is accepted exactly when it obeys the rules.\<close>

lemma io_validate_iff:
  assumes "ii_size_bytes (ic_input io) \<le> usize_max"
    and "\<And>out. ic_output io = Some out \<Longrightarrow> io_size_bytes out \<le> usize_max"
  shows "io_validate io = Inr () \<longleftrightarrow> wf_io io"
proof -
  let ?ins = "ii_signals (ic_input io)" and ?n = "ii_size_bytes (ic_input io)"
  let ?ii = "ia_input (ic_assemblies io)" and ?oi = "ia_output (ic_assemblies io)"
  have inp: "(\<exists>l. input_layout io = Inr l) \<longleftrightarrow> list_all (valid_field ?n) (enip_fields ?ins)"
    by (simp add: input_layout_def build_layout_iff [OF assms(1)])
  have outp: "(\<exists>l. output_layout io = Inr l) \<longleftrightarrow>
      (\<forall>out. ic_output io = Some out \<longrightarrow> list_all (valid_field (io_size_bytes out)) (enip_fields (io_signals out)))"
    by (cases "ic_output io") (auto simp: output_layout_def ok_then_Inr_iff build_layout_iff assms(2))
  have zero_in: "?n \<noteq> 0" if "?ins \<noteq> []" "list_all (valid_field ?n) (enip_fields ?ins)"
    using that valid_field_size [of ?n "hd (enip_fields ?ins)"] by (cases "enip_fields ?ins") auto
  have zero_out: "\<not> (io_size_bytes out = 0 \<and> io_signals out \<noteq> [])"
    if "list_all (valid_field (io_size_bytes out)) (enip_fields (io_signals out))" for out
    using that valid_field_size [of "io_size_bytes out" "hd (enip_fields (io_signals out))"]
    by (cases "enip_fields (io_signals out)") auto
  have flds: "(\<exists>ni. ok_then (check_io_fields SideInput ?ii ?ins {} {}) (\<lambda>(names, ids).
        check_io_fields SideOutput ?oi (output_fields io) names ids) = Inr ni) \<longleftrightarrow>
      list_all (ok_field SideInput) ?ins \<and> list_all (ok_field SideOutput) (output_fields io) \<and>
      distinct (map if_name ?ins @ map if_name (output_fields io)) \<and> distinct (io_ids io)"
    by (auto simp: ok_then_Inr_iff check_io_fields_iff io_ids_def output_field_ids_def)
  have seq: "io_validate io = Inr () \<longleftrightarrow>
      (\<exists>m. timeout_multiplier_enip io = Inr m) \<and> ic_rpi_ms io \<noteq> 0 \<and> effective_o2t_rpi_ms io \<noteq> 0 \<and>
      ii_real_time_format (ic_input io) \<noteq> RtHeartbeat \<and> ?n \<noteq> 0 \<and> ?ins \<noteq> [] \<and>
      (\<forall>out. ic_output io = Some out \<longrightarrow> \<not> (io_size_bytes out = 0 \<and> io_signals out \<noteq> [])) \<and>
      (\<exists>ni. ok_then (check_io_fields SideInput ?ii ?ins {} {}) (\<lambda>(names, ids).
        check_io_fields SideOutput ?oi (output_fields io) names ids) = Inr ni) \<and>
      (\<exists>l. input_layout io = Inr l) \<and> (\<exists>l. output_layout io = Inr l)"
    by (cases "timeout_multiplier_enip io"; cases "check_io_fields SideInput ?ii ?ins {} {}";
        cases "ic_output io")
      (auto simp: io_validate_def ok_then_Inr_iff)
  show ?thesis
    unfolding seq timeout_multiplier_iff flds inp outp wf_io_def using zero_in zero_out by blast
qed

lemma eip_wire_chars: "b \<in> set (ascii (eip_wire ty)) \<Longrightarrow> is_ascii_alphabetic b"
  by (cases ty) (auto simp: ascii_def of_char_def is_ascii_alphabetic_def)

lemma eip_wire_inj: "ascii (eip_wire a) = ascii (eip_wire b) \<Longrightarrow> a = b"
  by (cases a; cases b) (simp_all add: ascii_def of_char_def)

lemma wire_no_slash: "0x2F \<notin> set (ascii (eip_wire ty))" "0x2E \<notin> set (ascii (eip_wire ty))"
  using eip_wire_chars [of "0x2F" ty] eip_wire_chars [of "0x2E" ty] by (auto simp: is_ascii_alphabetic_def)

lemma digits_no_slash: "0x2F \<notin> set (dec_digits n)" "0x2E \<notin> set (dec_digits n)"
  using dec_digits_digits [of "0x2F" n] dec_digits_digits [of "0x2E" n] by (auto simp: is_ascii_digit_def)

lemma dec_digits_inj [simp]: "dec_digits m = dec_digits n \<longleftrightarrow> m = n"
  by (metis parse_dec_digits)

section \<open>Properties\<close>

text \<open>
  The stable identifier of a push signal determines its place: fields with the same identifier have
  the same assembly, offset, type and bit.
\<close>

theorem field_signal_id_inj:
  "field_signal_id f a = field_signal_id g b \<longleftrightarrow>
     a = b \<and> if_offset f = if_offset g \<and> if_eip_type f = if_eip_type g \<and> if_bit f = if_bit g"
proof -
  define tail where "tail = (\<lambda>h :: io_field_spec. ascii (eip_wire (if_eip_type h)) @
     (case if_bit h of Some b \<Rightarrow> 0x2E # dec_digits (unat b) | None \<Rightarrow> []))"
  have no_slash: "0x2F \<notin> set (tail h)" for h
    using wire_no_slash digits_no_slash by (auto simp: tail_def split: option.splits)
  have pieces: "split_on 0x2F (field_signal_id h c) =
      [0x61 # dec_digits (unat c), dec_digits (if_offset h), tail h]" for h c
  proof -
    have "field_signal_id h c = (0x61 # dec_digits (unat c)) @ 0x2F # dec_digits (if_offset h) @ 0x2F # tail h"
      by (simp add: field_signal_id_def tail_def ascii_def of_char_def split: option.splits)
    then show ?thesis
      using digits_no_slash no_slash [of h] by (simp add: split_on_append split_on_not_in del: append_Cons)
  qed
  have dots: "split_on 0x2E (tail h) = ascii (eip_wire (if_eip_type h)) #
      (case if_bit h of Some b \<Rightarrow> [dec_digits (unat b)] | None \<Rightarrow> [])" for h
    using wire_no_slash digits_no_slash
    by (auto simp: tail_def split_on_append split_on_not_in split: option.splits)
  have "tail f = tail g \<Longrightarrow> if_eip_type f = if_eip_type g \<and> if_bit f = if_bit g"
    using dots [of f] dots [of g] by (auto simp: split: option.splits dest: eip_wire_inj)
  then show ?thesis
    using pieces [of f a] pieces [of g b]
    by (metis dec_digits_inj field_signal_id_def list.inject word_unat_eq_iff)
qed

text \<open>
  A poll device is launched exactly when it obeys the rules (and its security block, if any, does):
  there is a group, no group is empty, names and tag paths are unique across the groups, array counts
  fit the wire, and booleans carry no arithmetic. Then every group has an identifier, the signals are
  those of the configuration, and looking a signal up by its tag path finds that very signal.
\<close>

theorem validate_poll_device:
  assumes "dc_mode cfg = Poll"
  shows "device_validate parse cfg = Inr cfg' \<longleftrightarrow>
    (case from_connection parse (dc_connection cfg) of
       Inl _ \<Rightarrow> False
     | Inr security \<Rightarrow> pred_option (\<lambda>sec. security_validate sec False = Inr ()) security) \<and>
    dc_io cfg = None \<and> wf_poll cfg \<and> cfg' = cfg\<lparr>dc_poll_groups := assign_ids (dc_poll_groups cfg)\<rparr> \<and>
    dc_signals cfg' = dc_signals cfg \<and> (\<forall>g \<in> set (dc_poll_groups cfg'). pg_id g \<noteq> None) \<and>
    (\<forall>sig \<in> set (dc_signals cfg'). find_signal cfg' (sg_tag_path sig) = Some sig)"
proof -
  let ?cfg = "cfg\<lparr>dc_poll_groups := assign_ids (dc_poll_groups cfg)\<rparr>"
  have sigs: "dc_signals ?cfg = dc_signals cfg" by (simp add: dc_signals_def)
  have ids: "\<forall>g \<in> set (assign_ids gs). pg_id g \<noteq> None" for gs
    by (auto simp: assign_ids_def)
  have lookup: "\<forall>sig \<in> set (dc_signals ?cfg). find_signal ?cfg (sg_tag_path sig) = Some sig" if "wf_poll cfg"
    using that find_distinct [of sg_tag_path "dc_signals cfg"]
    by (auto simp: wf_poll_def find_signal_def sigs)
  have unit: "map_err g m = Inr u \<longleftrightarrow> m = Inr ()" for g :: "security_error \<Rightarrow> config_error" and m u by simp
  show ?thesis
    using assms sigs ids [of "dc_poll_groups cfg"] lookup
    by (cases "from_connection parse (dc_connection cfg)"; cases "dc_io cfg")
      (auto simp: device_validate_def validate_poll_iff ok_then_Inr_iff unit pred_option_def split: option.splits)
qed


text \<open>Example devices: two tags in one group, and an adapter with one 32-bit input.\<close>

definition example_connection :: connection_config where
  "example_connection = \<lparr>cc_endpoint = ascii ''10.0.0.5'', cc_slot = Some 0, cc_connected = False, cc_extra = []\<rparr>"

definition example_signal :: "string \<Rightarrow> eip_type \<Rightarrow> signal_spec" where
  "example_signal n ty =
     \<lparr>sg_name = ascii n, sg_tag_path = ascii n, sg_eip_type = ty, sg_array_count = None, sg_scale = None,
      sg_offset = None, sg_deadband = deadband_default\<rparr>"

definition example_group :: poll_group where
  "example_group =
     \<lparr>pg_id = None, pg_poll_interval_ms = Some 100, pg_publish_mode = None,
      pg_signals = [example_signal ''S'' EipReal, example_signal ''R'' EipBool]\<rparr>"

definition example_poll :: device_config where
  "example_poll =
     \<lparr>dc_id = ascii ''plc'', dc_adapter = ascii ''ethernet-ip'', dc_mode = Poll, dc_connection = example_connection,
      dc_defaults = gc_defaults global_config_default, dc_poll_groups = [example_group], dc_io = None, dc_writes = []\<rparr>"

definition example_io :: io_config where
  "example_io =
     \<lparr>ic_rpi_ms = 20, ic_o2t_rpi_ms = None, ic_connection_type = IoP2p, ic_priority = IoScheduled,
      ic_timeout_multiplier = 16, ic_assemblies = \<lparr>ia_config = None, ia_output = 150, ia_input = 100\<rparr>,
      ic_input = \<lparr>ii_size_bytes = 4, ii_real_time_format = RtModeless, ii_sample_ms = 0,
        ii_signals = [\<lparr>if_name = ascii ''w'', if_offset = 0, if_eip_type = EipDint, if_bit = None,
          if_array_count = None, if_scale = None, if_value_offset = None, if_deadband = None\<rparr>]\<rparr>,
      ic_output = None\<rparr>"

definition example_push :: device_config where
  "example_push = example_poll\<lparr>dc_mode := Push, dc_poll_groups := [], dc_io := Some example_io\<rparr>"

lemmas example_defs = example_poll_def example_group_def example_signal_def example_connection_def example_io_def example_push_def

lemma example_from_connection [simp]: "from_connection parse example_connection = Inr None"
  by (simp add: from_connection_def example_defs)

lemma wf_poll_example: "wf_poll example_poll"
  by (simp add: wf_poll_def dc_signals_def ok_signal_def deadband_default_def example_defs ascii_def of_char_def)

lemma wf_io_example: "wf_io example_io"
  by (simp add: wf_io_def legal_multipliers_def effective_o2t_rpi_ms_def output_fields_def ok_field_def io_ids_def
      output_field_ids_def enip_fields_def valid_field_def is_elementary_def field_span_def to_enip_field_def example_defs)

theorem validate_poll_device_witness:
  "device_validate (\<lambda>_. Inl []) example_poll =
     Inr (example_poll\<lparr>dc_poll_groups := [example_group\<lparr>pg_id := Some (ascii ''group-1'')\<rparr>]\<rparr>)"
proof -
  have one: "assign_ids (dc_poll_groups example_poll) = [example_group\<lparr>pg_id := Some (ascii ''group-1'')\<rparr>]"
    by (simp add: assign_ids_def default_group_id_def dec_digits.simps [of "Suc 0"] example_defs ascii_def of_char_def)
  have m: "dc_mode example_poll = Poll" by (simp add: example_poll_def)
  have f: "from_connection parse (dc_connection example_poll) = Inr None" for parse
    by (simp add: example_poll_def)
  show ?thesis
    unfolding validate_poll_device [OF m] f one using wf_poll_example
    by (simp add: example_defs dc_signals_def find_signal_def ascii_def of_char_def)
qed


end
