(* ===== verification/Device.thy ===== *)
theory Device
  imports Config
begin

text \<open>
  The seam between the adapter and a device (\<^verbatim>\<open>device.rs\<close>) and the state an instance shares with the
  command surface (\<^verbatim>\<open>app.rs\<close>): readings and their quality, device errors, the link state, the health
  counters, the reconnect backoff, the control messages, and the pause that moves the shared flag and
  the event together. The counters are 64-bit and wrap, since each is one atomic cell.
\<close>

section \<open>Readings and errors\<close>

datatype quality = Good | Bad | Uncertain

record reading =
  rd_signal_id :: rstr
  rd_name :: "rstr option"
  rd_value :: json
  rd_quality :: quality
  rd_quality_raw :: "rstr option"
  rd_observed_type :: "rstr option"

datatype device_error = Transient rstr | Permanent rstr | Unsupported rstr

fun device_error_is_transient :: "device_error \<Rightarrow> bool" where
  "device_error_is_transient (Transient _) = True"
| "device_error_is_transient _ = False"

fun device_error_display :: "device_error \<Rightarrow> rstr" where
  "device_error_display (Transient t) = ascii ''transient: '' @ t"
| "device_error_display (Permanent t) = ascii ''permanent: '' @ t"
| "device_error_display (Unsupported t) = ascii ''unsupported: '' @ t"

record browsed_tag =
  bt_name :: rstr
  bt_type_name :: rstr
  bt_array_dim :: "u32 option"
  bt_instance_id :: u32

record browse_page =
  bp_tags :: "browsed_tag list"
  bp_next_cursor :: "rstr option"

record seam_identity =
  di_vendor_id :: u16
  di_vendor_name :: "rstr option"
  di_device_type :: u16
  di_device_type_name :: "rstr option"
  di_product_code :: u16
  di_revision_major :: u8
  di_revision_minor :: u8
  di_serial_number :: u32
  di_product_name :: rstr

definition identity_revision :: "seam_identity \<Rightarrow> rstr" where
  "identity_revision d = dec_digits (unat (di_revision_major d)) @ ascii ''.'' @ dec_digits (unat (di_revision_minor d))"

definition identity_summary :: "seam_identity \<Rightarrow> rstr" where
  "identity_summary d = di_product_name d @ ascii '' rev '' @ identity_revision d"

record input_snapshot =
  is_readings :: "reading list"
  is_received_at :: instant
  is_run_mode :: bool

datatype seam_io_update =
    IoUp u32 u32
  | IoData "reading list" u16 bool instant
  | IoLost device_error

section \<open>Link state and health\<close>

datatype link_state = Connecting | Online | Backoff

fun link_state_str :: "link_state \<Rightarrow> string" where
  "link_state_str Connecting = ''CONNECTING''"
| "link_state_str Online = ''ONLINE''"
| "link_state_str Backoff = ''BACKOFF''"

datatype dialect_fact = DialectUnknown | DialectSupported | DialectUnsupported

fun dialect_fact_str :: "dialect_fact \<Rightarrow> string" where
  "dialect_fact_str DialectUnknown = ''unknown''"
| "dialect_fact_str DialectSupported = ''supported''"
| "dialect_fact_str DialectUnsupported = ''unsupported''"

record health =
  h_connection_state :: u64
  h_link :: link_state
  h_poll_latency_ms :: u64
  h_read_errors :: u64
  h_write_errors :: u64
  h_reconnects :: u64
  h_signals_published :: u64
  h_paused :: bool
  h_identity :: "seam_identity option"
  h_tag_list_dialect :: dialect_fact
  h_observed_types :: "rstr \<rightharpoonup> rstr"
  h_publish_latency_ms :: u64
  h_poll_cycles :: u64
  h_frames_consumed :: u64
  h_samples_good :: u64
  h_samples_bad :: u64
  h_samples_uncertain :: u64
  h_samples_changed :: u64
  h_samples_suppressed :: u64
  h_overruns :: u64
  h_stale_signals :: u64

definition health_default :: health where
  "health_default =
     \<lparr>h_connection_state = 0, h_link = Connecting, h_poll_latency_ms = 0, h_read_errors = 0, h_write_errors = 0,
      h_reconnects = 0, h_signals_published = 0, h_paused = False, h_identity = None,
      h_tag_list_dialect = DialectUnknown, h_observed_types = Map.empty, h_publish_latency_ms = 0,
      h_poll_cycles = 0, h_frames_consumed = 0, h_samples_good = 0, h_samples_bad = 0,
      h_samples_uncertain = 0, h_samples_changed = 0, h_samples_suppressed = 0, h_overruns = 0, h_stale_signals = 0\<rparr>"

definition set_link :: "link_state \<Rightarrow> health \<Rightarrow> health" where
  "set_link st h = h\<lparr>h_link := st, h_connection_state := of_bool (st = Online)\<rparr>"

definition set_identity :: "seam_identity option \<Rightarrow> health \<Rightarrow> health" where
  "set_identity i h = h\<lparr>h_identity := i\<rparr>"

definition record_observed :: "reading list \<Rightarrow> health \<Rightarrow> health" where
  "record_observed readings h =
     (if list_all (\<lambda>r. rd_observed_type r = None) readings then h
      else h\<lparr>h_observed_types := foldl (\<lambda>m r. case rd_observed_type r of
             Some ty \<Rightarrow> m(rd_signal_id r \<mapsto> ty) | None \<Rightarrow> m) (h_observed_types h) readings\<rparr>)"

definition record_tag_list_support :: "bool \<Rightarrow> health \<Rightarrow> health" where
  "record_tag_list_support supported h =
     h\<lparr>h_tag_list_dialect := (if supported then DialectSupported else DialectUnsupported)\<rparr>"

text \<open>The state token of \<^verbatim>\<open>connectivity_of\<close>, and its \<open>connected\<close> flag.\<close>

definition connected_flag :: "health \<Rightarrow> bool" where
  "connected_flag h \<longleftrightarrow> h_link h = Online"

definition state_token :: "health \<Rightarrow> string" where
  "state_token h = (if h_paused h \<and> connected_flag h then ''PAUSED'' else link_state_str (h_link h))"

section \<open>Backoff\<close>

record backoff =
  bo_base_ms :: u64
  bo_max_ms :: u64

definition backoff_from_timeouts :: "timeouts \<Rightarrow> backoff" where
  "backoff_from_timeouts t =
     \<lparr>bo_base_ms = max (to_reconnect_backoff_min_ms t) 1, bo_max_ms = max (to_reconnect_backoff_max_ms t) 1\<rparr>"

definition saturating_mul_u64 :: "u64 \<Rightarrow> u64 \<Rightarrow> u64" where
  "saturating_mul_u64 a b = (if unat a * unat b < 2 ^ 64 then a * b else - 1)"

text \<open>\<^verbatim>\<open>f64::clamp(0.0, 1.0)\<close>, and \<^verbatim>\<open>as u64\<close> on an \<^verbatim>\<open>f64\<close>: truncated, saturating, zero for NaN.\<close>

definition f64_clamp01 :: "f64 \<Rightarrow> f64" where
  "f64_clamp01 x = (if f64_lt x f64_zero then f64_zero else if f64_lt f64_one x then f64_one else x)"

fun f64_to_u64 :: "f64 \<Rightarrow> u64" where
  "f64_to_u64 (Finite s q) = (if s then 0 else if 2 ^ 64 \<le> \<lfloor>q\<rfloor> then - 1 else of_int \<lfloor>q\<rfloor>)"
| "f64_to_u64 (Infinite s) = (if s then 0 else - 1)"
| "f64_to_u64 NaN = 0"

definition backoff_cap :: "backoff \<Rightarrow> u32 \<Rightarrow> u64" where
  "backoff_cap b attempt =
     min (saturating_mul_u64 (bo_base_ms b) (push_bit (unat (min attempt 20)) 1)) (bo_max_ms b)"

definition backoff_delay :: "backoff \<Rightarrow> u32 \<Rightarrow> f64 \<Rightarrow> duration" where
  "backoff_delay b attempt rand01 =
     from_millis (unat (f64_to_u64 (f64_mul (f64_clamp01 rand01) (f64_of_int (uint (backoff_cap b attempt))))))"

section \<open>Control and events\<close>

datatype browse_error = BrowseUnsupported | BrowseFailed rstr

text \<open>
  The messages of the control channel. A reply channel is the number that names its caller.
\<close>

type_synonym reply_to = nat

datatype device_control =
    CtlWrite signal_spec json reply_to
  | CtlReadNow "signal_spec list" reply_to
  | CtlSnapshot reply_to
  | CtlWriteOutput io_field_spec json reply_to
  | CtlPause "rstr option" reply_to
  | CtlResume reply_to
  | CtlReconnect reply_to
  | CtlRepoll reply_to
  | CtlBrowse "rstr option" nat reply_to

datatype reply =
    RepWrite "rstr + unit"
  | RepReadings "rstr + reading list"
  | RepSnapshot "input_snapshot option"
  | RepChanged bool
  | RepReconnect "rstr + unit"
  | RepRepoll "rstr + u64"
  | RepBrowse "browse_error + browse_page"

datatype severity = Info | Warning | Critical

datatype event =
    Emit severity string "(rstr \<times> json) list"
  | RaiseAlarm severity string "(rstr \<times> json) list"
  | ClearAlarm severity string

text \<open>\<^verbatim>\<open>apply_pause\<close>: the flag, and on a transition a metrics flush and one event.\<close>

definition apply_pause :: "device_config \<Rightarrow> bool \<Rightarrow> rstr option \<Rightarrow> health \<Rightarrow> bool \<times> event list \<times> health" where
  "apply_pause cfg paused who h =
     (if h_paused h = paused then (False, [], h\<lparr>h_paused := paused\<rparr>)
      else
        (True,
         [if paused
          then Emit Warning ''adapter-paused''
            (json_field ''instance'' (JString (dc_id cfg)) # json_opt ''by'' (map_option JString who))
          else Emit Info ''adapter-resumed'' [json_field ''instance'' (JString (dc_id cfg))]],
         h\<lparr>h_paused := paused\<rparr>))"

section \<open>The backoff is bounded\<close>

lemma round_half_even_le: "q \<le> of_int i \<Longrightarrow> round_half_even q \<le> i"
proof -
  assume q: "q \<le> of_int i"
  then have f: "\<lfloor>q\<rfloor> \<le> i" by (simp add: floor_le_iff less_le_trans)
  show ?thesis
  proof (cases "\<lfloor>q\<rfloor> = i")
    case True
    with q have "q = of_int i" using of_int_floor_le [of q] by simp
    then show ?thesis by simp
  qed (use f in \<open>auto simp: round_half_even_def Let_def\<close>)
qed

lemma f64_of_nat_exact: "n \<le> 2 ^ 53 \<Longrightarrow> f64_of_int (int n) = Finite False (of_nat n)"
  using f64_of_int_exact [of "int n"] by simp

text \<open>Rounding does not pass an integer of the exact range.\<close>

lemma round_mag_le_int:
  assumes "0 \<le> q" "q \<le> of_nat c" "c \<le> 2 ^ 53"
  shows "round_mag 53 (- 1074) q \<le> of_nat c"
proof (cases "q = 0 \<or> q = of_nat c")
  case True
  then show ?thesis
  proof
    assume "q = of_nat c"
    have "round_mag 53 (- 1074) (of_nat c) = of_nat c"
      using f64_of_nat_exact [OF assms(3)]
      by (auto simp: f64_of_int_def f64_of_rat_def round_f64_def Let_def split: if_splits)
    with \<open>q = of_nat c\<close> show ?thesis by simp
  qed (simp add: round_mag_def)
next
  case False
  then have q: "0 < q" "q < of_nat c" using assms by auto
  have "(of_nat c :: rat) \<le> 2 ^ 53" by (metis assms(3) of_nat_le_iff of_nat_numeral of_nat_power)
  then have "q < pow2 53" using q(2) by (simp add: pow2_def)
  then have "flog2 q < 53" using flog2_bounds [OF q(1)] by (metis pow2_less_iff le_less_trans)
  then obtain k where k: "max (flog2 q - (53 - 1)) (- 1074) = - int k"
    by (metis add.inverse_inverse le_cases max.cobounded1 max_def neg_0_le_iff_le nonneg_int_cases
        diff_le_0_iff_le zle_diff1_eq neg_le_0_iff_le zero_le_numeral numeral_eq_Suc One_nat_def)
  have p: "pow2 (- int k) = 1 / 2 ^ k" by (simp add: pow2_def)
  have "q / pow2 (- int k) \<le> of_int (int c * 2 ^ k)" using q(2) by (simp add: p)
  then have "round_half_even (q / pow2 (- int k)) \<le> int c * 2 ^ k" by (rule round_half_even_le)
  then have "of_int (round_half_even (q / pow2 (- int k))) \<le> (of_int (int c * 2 ^ k) :: rat)"
    by (simp only: of_int_le_iff)
  then have "of_int (round_half_even (q / pow2 (- int k))) * pow2 (- int k) \<le> (of_nat c :: rat)"
    by (simp add: p field_simps)
  with False k show ?thesis by (simp add: round_mag_def Let_def)
qed

lemma f64_to_u64_le:
  assumes "0 \<le> q" "q \<le> of_nat c" "c \<le> 2 ^ 53"
  shows "unat (f64_to_u64 (round_f64 s q)) \<le> c"
proof -
  let ?r = "round_mag 53 (- 1074) q"
  have r: "?r \<le> of_nat c" by (rule round_mag_le_int [OF assms])
  have "(of_nat c :: rat) \<le> 2 ^ 53" by (metis assms(3) of_nat_le_iff of_nat_numeral of_nat_power)
  then have "?r < pow2 1024" using r by (simp add: pow2_def)
  then have eq: "round_f64 s q = Finite s ?r" by (simp add: round_f64_def Let_def)
  have fl: "\<lfloor>?r\<rfloor> \<le> int c" using r by (simp add: floor_le_iff)
  show ?thesis
  proof (cases "s \<or> \<lfloor>?r\<rfloor> < 0")
    case False
    then have "unat (of_int \<lfloor>?r\<rfloor> :: u64) \<le> c"
      using fl zmod_le_nonneg_dividend [of "\<lfloor>?r\<rfloor>" "2 ^ 64"]
      by (simp add: unat_eq_nat_uint uint_word_of_int_eq take_bit_eq_mod nat_le_iff)
    moreover have "\<not> 2 ^ 64 \<le> \<lfloor>?r\<rfloor>" using fl of_nat_mono [OF assms(3), where 'a = int] by (simp del: numeral_le_floor)
    ultimately show ?thesis unfolding eq using False by simp
  next
    case True
    have "0 \<le> round_half_even (q / pow2 e)" for e
      using assms(1) by (auto simp: round_half_even_def Let_def)
    then have "0 \<le> ?r" by (simp add: round_mag_def Let_def)
    with True show ?thesis unfolding eq by simp
  qed
qed

lemma unat_min: "unat (min a b) = min (unat a) (unat b)"
  by (simp add: min_def word_le_nat_alt)

lemma unat_max_u64: "unat (- 1 :: u64) = 2 ^ 64 - 1"
  by (simp add: unsigned_minus_1_eq_mask mask_eq_exp_minus_1)

lemma unat_saturating_mul: "unat (saturating_mul_u64 a b) = min (unat a * unat b) (2 ^ 64 - 1)"
proof (cases "unat a * unat b < 2 ^ 64")
  case True
  then show ?thesis by (simp add: saturating_mul_u64_def unat_word_ariths(2) min_def)
qed (simp add: saturating_mul_u64_def unat_max_u64 min_def)

lemma backoff_cap_eq:
  "unat (backoff_cap b attempt) = min (unat (bo_base_ms b) * 2 ^ min (unat attempt) 20) (unat (bo_max_ms b))"
proof -
  let ?k = "min (unat attempt) 20"
  have k: "unat (min attempt 20 :: u32) = ?k" by (simp add: min_def word_le_nat_alt)
  have sh: "unat (push_bit ?k (1 :: u64)) = 2 ^ ?k"
  proof -
    have "(2 :: nat) ^ ?k < 2 ^ 64" by (rule power_strict_increasing) auto
    then show ?thesis using unat_of_nat_small [of "2 ^ ?k", where 'a = 64] by (simp add: push_bit_eq_mult)
  qed
  have "unat (saturating_mul_u64 (bo_base_ms b) (push_bit ?k 1)) =
      min (unat (bo_base_ms b) * 2 ^ ?k) (2 ^ 64 - 1)"
    by (simp only: unat_saturating_mul sh)
  moreover have "unat (bo_max_ms b) \<le> 2 ^ 64 - 1" using unat64_less [of "bo_max_ms b"] by (simp del: unat64_less)
  moreover have "unat (backoff_cap b attempt) =
      min (unat (saturating_mul_u64 (bo_base_ms b) (push_bit ?k 1))) (unat (bo_max_ms b))"
    unfolding backoff_cap_def k [symmetric] by (rule unat_min)
  ultimately show ?thesis by (simp only: min.assoc min_absorb2)
qed

text \<open>
  Whatever the random source returns, a reconnect waits at most the exponential window of its attempt
  and never longer than the configured ceiling, without overflow for any number of attempts.
\<close>

theorem backoff_bounded:
  assumes "unat (bo_max_ms b) \<le> 2 ^ 53"
  shows "backoff_delay b attempt rand01 \<le>
    from_millis (min (unat (bo_base_ms b) * 2 ^ min (unat attempt) 20) (unat (bo_max_ms b)))"
proof -
  let ?c = "unat (backoff_cap b attempt)"
  have c: "?c \<le> 2 ^ 53" unfolding backoff_cap_eq using assms by simp
  then have fc: "f64_of_int (uint (backoff_cap b attempt)) = Finite False (of_nat ?c)"
    unfolding uint_nat by (rule f64_of_nat_exact)
  have "unat (f64_to_u64 (f64_mul (f64_clamp01 rand01) (Finite False (of_nat ?c)))) \<le> ?c"
  proof (cases "f64_clamp01 rand01")
    case (Finite s q)
    show ?thesis
    proof (cases s)
      case True
      then show ?thesis by (simp add: Finite round_f64_def Let_def)
    next
      case False
      with Finite have "0 \<le> q \<and> q \<le> 1"
        by (cases rand01)
          (auto simp: f64_clamp01_def f64_lt_def f64_zero_def f64_one_def not_le split: if_splits)
      then have "0 \<le> q * of_nat ?c" "q * of_nat ?c \<le> of_nat ?c"
        using mult_nonneg_nonneg [of q "of_nat ?c"] mult_right_mono [of q 1 "of_nat ?c"] by (auto simp del: of_nat_unat)
      from f64_to_u64_le [OF this c] False show ?thesis by (simp add: Finite)
    qed
  next
    case (Infinite s)
    then show ?thesis by (cases rand01) (auto simp: f64_clamp01_def f64_lt_def f64_zero_def f64_one_def split: if_splits)
  qed simp
  then show ?thesis
    by (simp add: backoff_delay_def fc from_millis_def backoff_cap_eq)
qed

theorem backoff_bounded_witness:
  "backoff_delay \<lparr>bo_base_ms = 1000, bo_max_ms = 60000\<rparr> 4000000000 (Infinite False) \<le> from_millis 60000"
  using backoff_bounded [of "\<lparr>bo_base_ms = 1000, bo_max_ms = 60000\<rparr>" 4000000000 "Infinite False"] by simp

end
