(* ===== verification/Publish.thy ===== *)
theory Publish
  imports Device
begin

text \<open>
  The publish path (\<^verbatim>\<open>publish.rs\<close>) and the two engines above it (\<^verbatim>\<open>poll.rs\<close>, \<^verbatim>\<open>push.rs\<close>): the deadband
  gate, the batch window, the running state of a signal with its committed and pending baselines, and
  the gating of a poll group and of a consumed frame. A sample is represented by what the code gives to
  the facade's builder. A hash map is a finite map, and where its iteration order is observable that
  order is an argument.
\<close>

section \<open>Samples and the gate\<close>

record sample =
  sm_value :: json
  sm_quality :: quality
  sm_quality_raw :: "rstr option"
  sm_server_ts :: "rstr option"

definition sample_of :: "json \<Rightarrow> quality \<Rightarrow> rstr option \<Rightarrow> rstr option \<Rightarrow> sample" where
  "sample_of v q raw ts = \<lparr>sm_value = v, sm_quality = q, sm_quality_raw = raw, sm_server_ts = ts\<rparr>"

definition f64_hundred :: f64 where "f64_hundred = f64_of_int 100"

definition scalar_exceeds :: "f64 \<Rightarrow> f64 \<Rightarrow> deadband_spec \<Rightarrow> bool" where
  "scalar_exceeds old new deadband =
     (let delta = f64_abs (f64_sub new old) in
      case db_kind deadband of
        DbNone \<Rightarrow> \<not> f64_eq new old
      | DbAbsolute \<Rightarrow> f64_le (db_value deadband) delta
      | DbPercent \<Rightarrow>
          (let threshold = f64_div (f64_mul (f64_abs old) (db_value deadband)) f64_hundred in
           if f64_eq threshold f64_zero then \<not> f64_eq new old else f64_le threshold delta))"

definition element_changed :: "json \<Rightarrow> json \<Rightarrow> deadband_spec \<Rightarrow> bool" where
  "element_changed prev new deadband =
     (case (as_f64 prev, as_f64 new) of
        (Some a, Some b) \<Rightarrow> scalar_exceeds a b deadband
      | _ \<Rightarrow> \<not> json_eq prev new)"

definition value_changed :: "json \<Rightarrow> json \<Rightarrow> deadband_spec \<Rightarrow> bool" where
  "value_changed prev new deadband =
     (case (prev, new) of
        (JArray p, JArray n) \<Rightarrow>
          length p \<noteq> length n \<or> list_ex (\<lambda>(a, b). element_changed a b deadband) (zip p n)
      | _ \<Rightarrow> element_changed prev new deadband)"

definition should_publish :: "json option \<Rightarrow> json \<Rightarrow> quality \<Rightarrow> publish_mode \<Rightarrow> deadband_spec \<Rightarrow> bool" where
  "should_publish prev v q mode deadband =
     (if q \<noteq> Good then True
      else if mode = Always then True
      else case prev of None \<Rightarrow> True | Some p \<Rightarrow> value_changed p v deadband)"

section \<open>Batching\<close>

record batcher =
  ba_buffer :: "sample list"
  ba_window_open :: "instant option"

definition batcher_default :: batcher where
  "batcher_default = \<lparr>ba_buffer = [], ba_window_open = None\<rparr>"

definition batcher_add :: "sample \<Rightarrow> instant \<Rightarrow> u64 \<Rightarrow> batcher \<Rightarrow> sample list option \<times> batcher" where
  "batcher_add s now batch_ms b =
     (if batch_ms = 0 then (Some [s], b)
      else (None, b\<lparr>ba_window_open := (if ba_window_open b = None then Some now else ba_window_open b),
                    ba_buffer := ba_buffer b @ [s]\<rparr>))"

definition batcher_take_due :: "instant \<Rightarrow> u64 \<Rightarrow> batcher \<Rightarrow> sample list option \<times> batcher" where
  "batcher_take_due now batch_ms b =
     (case ba_window_open b of
        Some opened \<Rightarrow>
          if ba_buffer b \<noteq> [] \<and> saturating_duration_since now opened \<ge> from_millis (unat batch_ms)
          then (Some (ba_buffer b), b\<lparr>ba_window_open := None, ba_buffer := []\<rparr>)
          else (None, b)
      | None \<Rightarrow> (None, b))"

definition batcher_next_deadline :: "u64 \<Rightarrow> batcher \<Rightarrow> instant option" where
  "batcher_next_deadline batch_ms b = map_option (\<lambda>t. t + from_millis (unat batch_ms)) (ba_window_open b)"

definition batcher_discard :: "batcher \<Rightarrow> nat \<times> batcher" where
  "batcher_discard b = (length (ba_buffer b), b\<lparr>ba_window_open := None, ba_buffer := []\<rparr>)"

section \<open>The running state of the signals\<close>

record signal_state =
  ss_committed :: "json option"
  ss_pending :: "json option"
  ss_last_good :: "instant option"
  ss_last_eligible :: "instant option"
  ss_batcher :: batcher

definition signal_state_default :: signal_state where
  "signal_state_default =
     \<lparr>ss_committed = None, ss_pending = None, ss_last_good = None, ss_last_eligible = None,
      ss_batcher = batcher_default\<rparr>"

definition gate_passes :: "signal_state \<Rightarrow> json \<Rightarrow> quality \<Rightarrow> publish_mode \<Rightarrow> deadband_spec \<Rightarrow> bool" where
  "gate_passes st v q mode deadband \<longleftrightarrow>
     should_publish (ss_committed st) v q mode deadband \<and> should_publish (ss_pending st) v q mode deadband"

record publish =
  pb_signal_id :: rstr
  pb_samples :: "sample list"

record engine =
  en_state :: "rstr \<rightharpoonup> signal_state"
  en_start :: instant

definition engine_new :: "instant \<Rightarrow> engine" where
  "engine_new start = \<lparr>en_state = Map.empty, en_start = start\<rparr>"

definition put_state :: "rstr \<Rightarrow> signal_state \<Rightarrow> engine \<Rightarrow> engine" where
  "put_state i st e = e\<lparr>en_state := (en_state e)(i \<mapsto> st)\<rparr>"

definition entry_or_default :: "engine \<Rightarrow> rstr \<Rightarrow> signal_state" where
  "entry_or_default e i = (case en_state e i of Some st \<Rightarrow> st | None \<Rightarrow> signal_state_default)"

fun take_due :: "rstr list \<Rightarrow> u64 \<Rightarrow> instant \<Rightarrow> engine \<Rightarrow> publish list \<times> engine" where
  "take_due [] batch_ms now e = ([], e)"
| "take_due (i # order) batch_ms now e =
     (case en_state e i of
        None \<Rightarrow> take_due order batch_ms now e
      | Some st \<Rightarrow>
          (case batcher_take_due now batch_ms (ss_batcher st) of
             (None, _) \<Rightarrow> take_due order batch_ms now e
           | (Some samples, b) \<Rightarrow>
               let (out, e') = take_due order batch_ms now (put_state i (st\<lparr>ss_batcher := b\<rparr>) e) in
               (\<lparr>pb_signal_id = i, pb_samples = samples\<rparr> # out, e')))"

definition settle_state :: "bool \<Rightarrow> signal_state \<Rightarrow> signal_state" where
  "settle_state published st =
     (case ss_pending st of
        Some v \<Rightarrow>
          (if published then st\<lparr>ss_pending := None, ss_committed := Some v\<rparr> else st\<lparr>ss_pending := None\<rparr>)
      | None \<Rightarrow> st)"

definition settle :: "rstr \<Rightarrow> bool \<Rightarrow> engine \<Rightarrow> engine" where
  "settle i published e =
     (case en_state e i of Some st \<Rightarrow> put_state i (settle_state published st) e | None \<Rightarrow> e)"

definition discard_state :: "signal_state \<Rightarrow> nat \<times> signal_state" where
  "discard_state st =
     (let (n, b) = batcher_discard (ss_batcher st); st' = st\<lparr>ss_batcher := b\<rparr> in
      (n, if n > 0 then st'\<lparr>ss_pending := None\<rparr> else st'))"

definition saturating_add_u64 :: "u64 \<Rightarrow> nat \<Rightarrow> u64" where
  "saturating_add_u64 a n = (if unat a + n < 2 ^ 64 then a + of_nat n else - 1)"

fun discard_open_batches :: "rstr list \<Rightarrow> u64 \<Rightarrow> engine \<Rightarrow> u64 \<times> engine" where
  "discard_open_batches [] dropped e = (dropped, e)"
| "discard_open_batches (i # order) dropped e =
     (case en_state e i of
        None \<Rightarrow> discard_open_batches order dropped e
      | Some st \<Rightarrow>
          let (n, st') = discard_state st in
          discard_open_batches order (if n > 0 then saturating_add_u64 dropped n else dropped) (put_state i st' e))"

definition rebase_stale :: "instant \<Rightarrow> engine \<Rightarrow> engine" where
  "rebase_stale now e = e\<lparr>en_state := map_option (\<lambda>st. st\<lparr>ss_last_good := Some now\<rparr>) \<circ> en_state e\<rparr>"

fun rebase_from :: "(rstr \<times> json) list \<Rightarrow> instant \<Rightarrow> engine \<Rightarrow> engine" where
  "rebase_from [] now e = e"
| "rebase_from ((i, v) # rest) now e =
     rebase_from rest now
       (put_state i ((entry_or_default e i)\<lparr>ss_committed := Some v, ss_pending := None, ss_last_good := Some now\<rparr>) e)"

definition min_option :: "nat list \<Rightarrow> nat option" where
  "min_option xs = (if xs = [] then None else Some (Min (set xs)))"

definition next_batch_deadline :: "rstr list \<Rightarrow> u64 \<Rightarrow> engine \<Rightarrow> instant option" where
  "next_batch_deadline order batch_ms e =
     min_option (List.map_filter (\<lambda>i. Option.bind (en_state e i) (\<lambda>st. batcher_next_deadline batch_ms (ss_batcher st))) order)"

definition is_stale :: "instant option \<Rightarrow> instant \<Rightarrow> instant \<Rightarrow> u64 \<Rightarrow> bool" where
  "is_stale last_good since now stale_secs \<longleftrightarrow>
     saturating_duration_since now (case last_good of Some t \<Rightarrow> t | None \<Rightarrow> since) div 1000000000 \<ge> unat stale_secs"

definition engine_count_stale :: "rstr list \<Rightarrow> u64 \<Rightarrow> instant \<Rightarrow> engine \<Rightarrow> nat" where
  "engine_count_stale ids stale_secs now e =
     length (filter (\<lambda>i. is_stale (Option.bind (en_state e i) ss_last_good) (en_start e) now stale_secs) ids)"

definition cycle_overran :: "duration \<Rightarrow> duration \<Rightarrow> bool" where
  "cycle_overran elapsed interval \<longleftrightarrow> elapsed > interval"

section \<open>The poll engine\<close>

definition count_poll_quality :: "quality \<Rightarrow> health \<Rightarrow> health" where
  "count_poll_quality q h =
     (case q of
        Good \<Rightarrow> h\<lparr>h_samples_good := h_samples_good h + 1\<rparr>
      | Bad \<Rightarrow> h\<lparr>h_samples_bad := h_samples_bad h + 1, h_read_errors := h_read_errors h + 1\<rparr>
      | Uncertain \<Rightarrow> h\<lparr>h_samples_uncertain := h_samples_uncertain h + 1\<rparr>)"

definition count_suppressed :: "health \<Rightarrow> health" where
  "count_suppressed h = h\<lparr>h_samples_suppressed := h_samples_suppressed h + 1\<rparr>"

definition count_changed :: "quality \<Rightarrow> publish_mode \<Rightarrow> health \<Rightarrow> health" where
  "count_changed q mode h =
     (if q = Good \<and> mode = OnChange then h\<lparr>h_samples_changed := h_samples_changed h + 1\<rparr> else h)"

text \<open>What both engines do with a reading that passed: the pending baseline and the batch window.\<close>

definition accept_reading :: "u64 \<Rightarrow> instant \<Rightarrow> rstr \<Rightarrow> reading \<Rightarrow> signal_state \<Rightarrow> sample list option \<times> signal_state" where
  "accept_reading batch_ms now server_ts r st =
     (let st1 = (if rd_quality r = Good then st\<lparr>ss_pending := Some (rd_value r)\<rparr> else st);
          s = sample_of (rd_value r) (rd_quality r) (rd_quality_raw r) (Some server_ts);
          (out, b) = batcher_add s now batch_ms (ss_batcher st1)
      in (out, st1\<lparr>ss_batcher := b\<rparr>))"

definition note_good :: "quality \<Rightarrow> instant \<Rightarrow> signal_state \<Rightarrow> signal_state" where
  "note_good q now st = (if q = Good then st\<lparr>ss_last_good := Some now\<rparr> else st)"

definition poll_reading ::
    "publish_mode \<Rightarrow> u64 \<Rightarrow> instant \<Rightarrow> rstr \<Rightarrow> deadband_spec \<Rightarrow> reading \<Rightarrow> signal_state \<Rightarrow> health \<Rightarrow>
     sample list option \<times> signal_state \<times> health" where
  "poll_reading mode batch_ms now server_ts deadband r st h =
     (let st1 = note_good (rd_quality r) now st; h1 = count_poll_quality (rd_quality r) h in
      if \<not> gate_passes st1 (rd_value r) (rd_quality r) mode deadband then (None, st1, count_suppressed h1)
      else
        let (out, st2) = accept_reading batch_ms now server_ts r st1 in
        (out, st2, count_changed (rd_quality r) mode h1))"

definition publish_now :: "rstr \<Rightarrow> sample list option \<Rightarrow> publish list" where
  "publish_now i out = (case out of Some samples \<Rightarrow> [\<lparr>pb_signal_id = i, pb_samples = samples\<rparr>] | None \<Rightarrow> [])"

text \<open>The readings by identifier: collecting into a hash map keeps the last of equal keys.\<close>

definition by_id :: "reading list \<Rightarrow> rstr \<Rightarrow> reading option" where
  "by_id readings = map_of (rev (map (\<lambda>r. (rd_signal_id r, r)) readings))"

fun process_signals ::
    "signal_spec list \<Rightarrow> publish_mode \<Rightarrow> u64 \<Rightarrow> reading list \<Rightarrow> instant \<Rightarrow> rstr \<Rightarrow> engine \<times> health \<Rightarrow>
     publish list \<times> engine \<times> health" where
  "process_signals [] mode batch_ms readings now server_ts (e, h) = ([], e, h)"
| "process_signals (spec # specs) mode batch_ms readings now server_ts (e, h) =
     (case by_id readings (sg_tag_path spec) of
        None \<Rightarrow> process_signals specs mode batch_ms readings now server_ts (e, h)
      | Some r \<Rightarrow>
          let (out, st, h1) = poll_reading mode batch_ms now server_ts (sg_deadband spec) r
                (entry_or_default e (sg_tag_path spec)) h;
              (pubs, e2, h2) = process_signals specs mode batch_ms readings now server_ts
                (put_state (sg_tag_path spec) st e, h1)
          in (publish_now (sg_tag_path spec) out @ pubs, e2, h2))"

definition process_group ::
    "poll_group \<Rightarrow> publish_mode \<Rightarrow> u64 \<Rightarrow> reading list \<Rightarrow> instant \<Rightarrow> rstr \<Rightarrow> engine \<times> health \<Rightarrow>
     publish list \<times> engine \<times> health" where
  "process_group g mode batch_ms readings now server_ts eh =
     process_signals (pg_signals g) mode batch_ms readings now server_ts eh"

definition record_cycle :: "duration \<Rightarrow> duration \<Rightarrow> health \<Rightarrow> health" where
  "record_cycle elapsed interval h =
     (let h1 = h\<lparr>h_poll_cycles := h_poll_cycles h + 1\<rparr> in
      if cycle_overran elapsed interval then h1\<lparr>h_overruns := h_overruns h1 + 1\<rparr> else h1)"

section \<open>The push engine\<close>

definition count_push_quality :: "quality \<Rightarrow> health \<Rightarrow> health" where
  "count_push_quality q h =
     (case q of
        Good \<Rightarrow> h\<lparr>h_samples_good := h_samples_good h + 1\<rparr>
      | Bad \<Rightarrow> h\<lparr>h_samples_bad := h_samples_bad h + 1\<rparr>
      | Uncertain \<Rightarrow> h)"

definition below_floor :: "u64 \<Rightarrow> instant \<Rightarrow> quality \<Rightarrow> signal_state \<Rightarrow> bool" where
  "below_floor sample_ms now q st \<longleftrightarrow>
     q = Good \<and> sample_ms > 0 \<and>
     (case ss_last_eligible st of
        Some prev \<Rightarrow> saturating_duration_since now prev < from_millis (unat sample_ms)
      | None \<Rightarrow> False)"

definition push_reading ::
    "publish_mode \<Rightarrow> u64 \<Rightarrow> u64 \<Rightarrow> instant \<Rightarrow> rstr \<Rightarrow> deadband_spec \<Rightarrow> reading \<Rightarrow> signal_state \<Rightarrow> health \<Rightarrow>
     sample list option \<times> signal_state \<times> health" where
  "push_reading mode sample_ms batch_ms now server_ts deadband r st h =
     (let st1 = note_good (rd_quality r) now st; h1 = count_push_quality (rd_quality r) h in
      if below_floor sample_ms now (rd_quality r) st1 then (None, st1, count_suppressed h1)
      else if \<not> gate_passes st1 (rd_value r) (rd_quality r) mode deadband then (None, st1, count_suppressed h1)
      else
        let (out, st2) = accept_reading batch_ms now server_ts r (st1\<lparr>ss_last_eligible := Some now\<rparr>) in
        (out, st2, count_changed (rd_quality r) mode h1))"

fun process_frame ::
    "reading list \<Rightarrow> (rstr \<rightharpoonup> deadband_spec) \<Rightarrow> publish_mode \<Rightarrow> u64 \<Rightarrow> u64 \<Rightarrow> instant \<Rightarrow> rstr \<Rightarrow> engine \<times> health \<Rightarrow>
     publish list \<times> engine \<times> health" where
  "process_frame [] deadbands mode sample_ms batch_ms now server_ts (e, h) = ([], e, h)"
| "process_frame (r # rs) deadbands mode sample_ms batch_ms now server_ts (e, h) =
     (let i = rd_signal_id r;
          deadband = (case deadbands i of Some d \<Rightarrow> d | None \<Rightarrow> deadband_default);
          (out, st, h1) = push_reading mode sample_ms batch_ms now server_ts deadband r (entry_or_default e i) h;
          (pubs, e2, h2) = process_frame rs deadbands mode sample_ms batch_ms now server_ts (put_state i st e, h1)
      in (publish_now i out @ pubs, e2, h2))"

section \<open>What the baselines mean\<close>

text \<open>The last good value of a list of samples.\<close>

definition last_good :: "sample list \<Rightarrow> json option" where
  "last_good ss = (case rev (filter (\<lambda>s. sm_quality s = Good) ss) of [] \<Rightarrow> None | s # _ \<Rightarrow> Some (sm_value s))"

lemma last_good_Nil [simp]: "last_good [] = None"
  by (simp add: last_good_def)

lemma last_good_append:
  "last_good (xs @ ys) = (case last_good ys of Some v \<Rightarrow> Some v | None \<Rightarrow> last_good xs)"
  by (auto simp: last_good_def split: list.splits)

lemma last_good_snoc [simp]:
  "last_good (xs @ [s]) = (if sm_quality s = Good then Some (sm_value s) else last_good xs)"
  by (simp add: last_good_append) (simp add: last_good_def)

lemma last_good_single [simp]: "last_good [s] = (if sm_quality s = Good then Some (sm_value s) else None)"
  using last_good_snoc [of "[]" s] by simp

text \<open>
  \<open>tracks bus out e\<close>: with \<open>bus i\<close> the last good value of signal \<open>i\<close> that was published, and \<open>out i\<close> the
  samples of \<open>i\<close> handed out for publishing and not settled yet, the committed baseline of every signal is
  what the bus shows, and its pending baseline the last good value on its way there.
\<close>

definition tracks_state :: "json option \<Rightarrow> sample list \<Rightarrow> signal_state \<Rightarrow> bool" where
  "tracks_state bus out st \<longleftrightarrow>
     ss_committed st = bus \<and> ss_pending st = last_good (out @ ba_buffer (ss_batcher st)) \<and>
     (ba_window_open (ss_batcher st) = None \<longleftrightarrow> ba_buffer (ss_batcher st) = []) \<and>
     (out \<noteq> [] \<longrightarrow> ba_buffer (ss_batcher st) = [])"

definition tracks :: "(rstr \<Rightarrow> json option) \<Rightarrow> (rstr \<Rightarrow> sample list) \<Rightarrow> engine \<Rightarrow> bool" where
  "tracks bus out e \<longleftrightarrow>
     (\<forall>i. case en_state e i of
            None \<Rightarrow> bus i = None \<and> out i = []
          | Some st \<Rightarrow> tracks_state (bus i) (out i) st)"

definition out_samples :: "publish list \<Rightarrow> rstr \<Rightarrow> sample list" where
  "out_samples pubs i = concat (map pb_samples (filter (\<lambda>p. pb_signal_id p = i) pubs))"

definition unbatched :: "engine \<Rightarrow> bool" where
  "unbatched e \<longleftrightarrow> (\<forall>i st. en_state e i = Some st \<longrightarrow> ba_buffer (ss_batcher st) = [])"

lemma en_state_put [simp]: "en_state (put_state i st e) = (en_state e)(i \<mapsto> st)"
  by (simp add: put_state_def)

lemma out_samples_simps [simp]:
  "out_samples [] i = []"
  "out_samples (p # ps) i = (if pb_signal_id p = i then pb_samples p else []) @ out_samples ps i"
  by (simp_all add: out_samples_def)

lemma out_samples_notin: "i \<notin> pb_signal_id ` set pubs \<Longrightarrow> out_samples pubs i = []"
  by (induction pubs) auto

lemma tracks_default: "tracks_state None [] signal_state_default"
  by (simp add: tracks_state_def signal_state_default_def batcher_default_def)

lemma tracks_entry: "tracks bus out e \<Longrightarrow> tracks_state (bus i) (out i) (entry_or_default e i)"
  unfolding tracks_def entry_or_default_def
  by (drule spec [of _ i]) (auto simp: tracks_default split: option.splits)

lemma tracks_put:
  assumes "tracks bus out e" "tracks_state b o' st"
  shows "tracks (bus(i := b)) (out(i := o')) (put_state i st e)"
  unfolding tracks_def
proof
  fix j
  from assms(1) have "case en_state e j of None \<Rightarrow> bus j = None \<and> out j = []
      | Some st \<Rightarrow> tracks_state (bus j) (out j) st" by (simp add: tracks_def)
  with assms(2) show "case en_state (put_state i st e) j of None \<Rightarrow> (bus(i := b)) j = None \<and> (out(i := o')) j = []
      | Some st \<Rightarrow> tracks_state ((bus(i := b)) j) ((out(i := o')) j) st" by (cases "j = i"; cases "en_state e j") simp_all
qed

lemma tracks_new: "tracks (\<lambda>_. None) (\<lambda>_. []) (engine_new t)"
  by (simp add: tracks_def engine_new_def)

text \<open>One reading, accepted or suppressed, in either engine.\<close>

lemma tracks_accept:
  assumes "tracks_state b [] st" "accept_reading batch_ms now ts r st = (out, st')"
    and "batch_ms = 0 \<Longrightarrow> ba_buffer (ss_batcher st) = []"
  shows "tracks_state b (case out of Some ss \<Rightarrow> ss | None \<Rightarrow> []) st'"
  using assms
  by (auto simp: tracks_state_def accept_reading_def batcher_add_def sample_of_def Let_def split: if_splits)

lemma tracks_note [simp]: "tracks_state b out (note_good q now st) \<longleftrightarrow> tracks_state b out st"
  by (simp add: tracks_state_def note_good_def)

lemma tracks_eligible [simp]: "tracks_state b out (st\<lparr>ss_last_eligible := t\<rparr>) \<longleftrightarrow> tracks_state b out st"
  by (simp add: tracks_state_def)

lemma note_batcher [simp]: "ss_batcher (note_good q now st) = ss_batcher st"
  by (simp add: note_good_def)

lemma tracks_poll_reading:
  assumes "tracks_state b [] st" "poll_reading mode batch_ms now ts db r st h = (out, st', h')"
    and "batch_ms = 0 \<Longrightarrow> ba_buffer (ss_batcher st) = []"
  shows "tracks_state b (case out of Some ss \<Rightarrow> ss | None \<Rightarrow> []) st'"
  using assms tracks_accept [of b "note_good (rd_quality r) now st" batch_ms now ts r out st']
  by (auto simp: poll_reading_def Let_def split: if_splits prod.splits)

lemma tracks_push_reading:
  assumes "tracks_state b [] st" "push_reading mode sample_ms batch_ms now ts db r st h = (out, st', h')"
    and "batch_ms = 0 \<Longrightarrow> ba_buffer (ss_batcher st) = []"
  shows "tracks_state b (case out of Some ss \<Rightarrow> ss | None \<Rightarrow> []) st'"
  using assms
    tracks_accept [of b "(note_good (rd_quality r) now st)\<lparr>ss_last_eligible := Some now\<rparr>" batch_ms now ts r out st']
  by (auto simp: push_reading_def Let_def split: if_splits prod.splits)

lemma accept_unbatched:
  "accept_reading 0 now ts r st = (out, st') \<Longrightarrow> ss_batcher st' = ss_batcher st"
  by (auto simp: accept_reading_def batcher_add_def Let_def split: if_splits)

lemma poll_reading_unbatched:
  "poll_reading mode 0 now ts db r st h = (out, st', h') \<Longrightarrow> ss_batcher st' = ss_batcher st"
  by (auto simp: poll_reading_def Let_def split: if_splits prod.splits dest!: accept_unbatched)

lemma push_reading_unbatched:
  "push_reading mode sample_ms 0 now ts db r st h = (out, st', h') \<Longrightarrow> ss_batcher st' = ss_batcher st"
  by (auto simp: push_reading_def Let_def split: if_splits prod.splits dest!: accept_unbatched)

lemma unbatched_put:
  "unbatched e \<Longrightarrow> ss_batcher st = ss_batcher (entry_or_default e i) \<Longrightarrow> unbatched (put_state i st e)"
  by (auto simp: unbatched_def entry_or_default_def signal_state_default_def batcher_default_def split: option.splits if_splits)

lemma unbatched_entry: "unbatched e \<Longrightarrow> ba_buffer (ss_batcher (entry_or_default e i)) = []"
  by (auto simp: unbatched_def entry_or_default_def signal_state_default_def batcher_default_def split: option.splits)

lemma out_samples_now: "out_samples (publish_now i out) j = (if i = j then (case out of Some ss \<Rightarrow> ss | None \<Rightarrow> []) else [])"
  by (simp add: publish_now_def split: option.splits)

lemma out_samples_append [simp]: "out_samples (ps @ qs) i = out_samples ps i @ out_samples qs i"
  by (induction ps) auto

text \<open>A whole group or frame, whose signals are distinct.\<close>

lemma process_signals_ids:
  assumes "process_signals specs mode batch_ms readings now ts eh = (pubs, eh')"
  shows "pb_signal_id ` set pubs \<subseteq> sg_tag_path ` set specs"
  using assms
proof (induction specs arbitrary: eh pubs eh')
  case Nil
  then show ?case by (cases eh) simp
next
  case (Cons spec specs)
  obtain e h where eh: "eh = (e, h)" by (cases eh)
  show ?case
  proof (cases "by_id readings (sg_tag_path spec)")
    case None
    with Cons.prems eh have "process_signals specs mode batch_ms readings now ts (e, h) = (pubs, eh')" by simp
    from Cons.IH [OF this] show ?thesis by auto
  next
    case (Some r)
    obtain out st h1 where r: "poll_reading mode batch_ms now ts (sg_deadband spec) r
        (entry_or_default e (sg_tag_path spec)) h = (out, st, h1)" by (metis prod_cases3)
    obtain ps eh2 where p: "process_signals specs mode batch_ms readings now ts
        (put_state (sg_tag_path spec) st e, h1) = (ps, eh2)" by (metis surj_pair)
    have "pubs = publish_now (sg_tag_path spec) out @ ps"
      using Cons.prems eh Some r p by (auto split: prod.splits)
    with Cons.IH [OF p] show ?thesis by (auto simp: publish_now_def split: option.splits)
  qed
qed

lemma process_signals_step:
  assumes "by_id readings (sg_tag_path spec) = Some r"
    and "poll_reading mode batch_ms now ts (sg_deadband spec) r (entry_or_default e (sg_tag_path spec)) h = (out, st, h1)"
    and "process_signals specs mode batch_ms readings now ts (put_state (sg_tag_path spec) st e, h1) = (ps, e', h')"
  shows "process_signals (spec # specs) mode batch_ms readings now ts (e, h) =
    (publish_now (sg_tag_path spec) out @ ps, e', h')"
  using assms by simp

lemma tracks_process_signals:
  assumes "process_signals specs mode batch_ms readings now ts (e, h) = (pubs, e', h')"
    and "tracks bus out e" "\<And>i. i \<in> sg_tag_path ` set specs \<Longrightarrow> out i = []"
    and "distinct (map sg_tag_path specs)" "batch_ms = 0 \<Longrightarrow> unbatched e"
  shows "tracks bus (\<lambda>i. out i @ out_samples pubs i) e' \<and> (batch_ms = 0 \<longrightarrow> unbatched e') \<and>
    distinct (map pb_signal_id pubs)"
  using assms
proof (induction specs arbitrary: e h pubs e' h' out)
  case Nil
  then show ?case by simp
next
  case (Cons spec specs)
  let ?i = "sg_tag_path spec"
  show ?case
  proof (cases "by_id readings ?i")
    case None
    with Cons.prems(1) have p: "process_signals specs mode batch_ms readings now ts (e, h) = (pubs, e', h')"
      by simp
    show ?thesis by (rule Cons.IH [OF p Cons.prems(2)]) (use Cons.prems in auto)
  next
    case (Some r)
    obtain o1 st h1 where r: "poll_reading mode batch_ms now ts (sg_deadband spec) r
        (entry_or_default e ?i) h = (o1, st, h1)" by (metis prod_cases3)
    obtain ps e2 h2 where p: "process_signals specs mode batch_ms readings now ts
        (put_state ?i st e, h1) = (ps, e2, h2)" by (metis prod_cases3)
    have eq: "pubs = publish_now ?i o1 @ ps" "e' = e2" "h' = h2"
      using Cons.prems(1) process_signals_step [OF Some r p] by auto
    let ?o = "case o1 of Some ss \<Rightarrow> ss | None \<Rightarrow> []"
    have buf: "batch_ms = 0 \<Longrightarrow> ba_buffer (ss_batcher (entry_or_default e ?i)) = []"
      using Cons.prems(5) unbatched_entry by simp
    have t1: "tracks_state (bus ?i) ?o st"
      using tracks_poll_reading [OF _ r buf, of "bus ?i"] tracks_entry [OF Cons.prems(2), of ?i] Cons.prems(3) [of ?i]
      by simp
    have t2: "tracks bus (out(?i := ?o)) (put_state ?i st e)"
      using tracks_put [OF Cons.prems(2) t1, of ?i] by simp
    have u: "batch_ms = 0 \<Longrightarrow> unbatched (put_state ?i st e)"
      using Cons.prems(5) poll_reading_unbatched [of mode now ts "sg_deadband spec" r "entry_or_default e ?i" h o1 st h1] r
      by (intro unbatched_put) simp_all
    have d: "distinct (map sg_tag_path specs)" "?i \<notin> sg_tag_path ` set specs" using Cons.prems(4) by auto
    have o2: "(out(?i := ?o)) i = []" if "i \<in> sg_tag_path ` set specs" for i
      using Cons.prems(3) [of i] d(2) that by (cases "i = ?i") auto
    have ih: "tracks bus (\<lambda>i. (out(?i := ?o)) i @ out_samples ps i) e2 \<and> (batch_ms = 0 \<longrightarrow> unbatched e2) \<and>
        distinct (map pb_signal_id ps)"
      by (rule Cons.IH [OF p t2 o2 d(1) u])
    have ids: "?i \<notin> pb_signal_id ` set ps" using process_signals_ids [OF p] d(2) by auto
    have "(\<lambda>i. out i @ out_samples pubs i) = (\<lambda>i. (out(?i := ?o)) i @ out_samples ps i)"
      using Cons.prems(3) [of ?i] out_samples_notin [OF ids] by (auto simp: eq out_samples_now)
    moreover have "distinct (map pb_signal_id pubs)"
      using ih ids by (auto simp: eq publish_now_def split: option.splits)
    ultimately show ?thesis using ih by (simp add: eq)
  qed
qed

lemma tracks_process_frame:
  assumes "process_frame rs dbs mode sample_ms batch_ms now ts (e, h) = (pubs, e', h')"
    and "tracks bus out e" "\<And>i. i \<in> rd_signal_id ` set rs \<Longrightarrow> out i = []"
    and "distinct (map rd_signal_id rs)" "batch_ms = 0 \<Longrightarrow> unbatched e"
  shows "tracks bus (\<lambda>i. out i @ out_samples pubs i) e' \<and> (batch_ms = 0 \<longrightarrow> unbatched e') \<and>
    distinct (map pb_signal_id pubs) \<and> pb_signal_id ` set pubs \<subseteq> rd_signal_id ` set rs"
  using assms
proof (induction rs arbitrary: e h pubs e' h' out)
  case Nil
  then show ?case by simp
next
  case (Cons r rs)
  let ?i = "rd_signal_id r" and ?db = "case dbs (rd_signal_id r) of Some d \<Rightarrow> d | None \<Rightarrow> deadband_default"
  obtain o1 st h1 where r: "push_reading mode sample_ms batch_ms now ts ?db r
      (entry_or_default e ?i) h = (o1, st, h1)" by (metis prod_cases3)
  obtain ps e2 h2 where p: "process_frame rs dbs mode sample_ms batch_ms now ts
      (put_state ?i st e, h1) = (ps, e2, h2)" by (metis prod_cases3)
  have eq: "pubs = publish_now ?i o1 @ ps" "e' = e2" "h' = h2"
    using Cons.prems(1) r p by (auto simp: Let_def)
  let ?o = "case o1 of Some ss \<Rightarrow> ss | None \<Rightarrow> []"
  have buf: "batch_ms = 0 \<Longrightarrow> ba_buffer (ss_batcher (entry_or_default e ?i)) = []"
    using Cons.prems(5) unbatched_entry by simp
  have t1: "tracks_state (bus ?i) ?o st"
    using tracks_push_reading [OF _ r buf, of "bus ?i"] tracks_entry [OF Cons.prems(2), of ?i] Cons.prems(3) [of ?i]
    by simp
  have t2: "tracks bus (out(?i := ?o)) (put_state ?i st e)"
    using tracks_put [OF Cons.prems(2) t1, of ?i] by simp
  have u: "batch_ms = 0 \<Longrightarrow> unbatched (put_state ?i st e)"
    using Cons.prems(5) push_reading_unbatched [of mode sample_ms now ts ?db r "entry_or_default e ?i" h o1 st h1] r
    by (intro unbatched_put) simp_all
  have d: "distinct (map rd_signal_id rs)" "?i \<notin> rd_signal_id ` set rs" using Cons.prems(4) by auto
  have o2: "(out(?i := ?o)) i = []" if "i \<in> rd_signal_id ` set rs" for i
      using Cons.prems(3) [of i] d(2) that by (cases "i = ?i") auto
  have ih: "tracks bus (\<lambda>i. (out(?i := ?o)) i @ out_samples ps i) e2 \<and> (batch_ms = 0 \<longrightarrow> unbatched e2) \<and>
      distinct (map pb_signal_id ps) \<and> pb_signal_id ` set ps \<subseteq> rd_signal_id ` set rs"
    by (rule Cons.IH [OF p t2 o2 d(1) u])
  then have ids: "?i \<notin> pb_signal_id ` set ps" using d(2) by auto
  have "(\<lambda>i. out i @ out_samples pubs i) = (\<lambda>i. (out(?i := ?o)) i @ out_samples ps i)"
    using Cons.prems(3) [of ?i] out_samples_notin [OF ids] by (auto simp: eq out_samples_now)
  moreover have "distinct (map pb_signal_id pubs)" "pb_signal_id ` set pubs \<subseteq> rd_signal_id ` set (r # rs)"
    using ih ids by (auto simp: eq publish_now_def split: option.splits)
  ultimately show ?case using ih by (simp add: eq)
qed

text \<open>Flushing, settling, pausing and resuming.\<close>

definition published :: "json option \<Rightarrow> sample list \<Rightarrow> bool \<Rightarrow> json option" where
  "published bus ss sent = (if sent then (case last_good ss of Some v \<Rightarrow> Some v | None \<Rightarrow> bus) else bus)"

lemma tracks_settle:
  assumes "tracks bus out e" "out i \<noteq> []"
  shows "tracks (bus(i := published (bus i) (out i) sent)) (out(i := [])) (settle i sent e)"
proof -
  have "case en_state e i of None \<Rightarrow> bus i = None \<and> out i = [] | Some st \<Rightarrow> tracks_state (bus i) (out i) st"
    using assms(1) by (simp add: tracks_def)
  with assms(2) obtain st where st: "en_state e i = Some st" by (cases "en_state e i") simp_all
  have "tracks_state (bus i) (out i) st" using tracks_entry [OF assms(1), of i] st by (simp add: entry_or_default_def)
  then have "tracks_state (published (bus i) (out i) sent) [] (settle_state sent st)"
    using assms(2) by (auto simp: tracks_state_def settle_state_def published_def split: option.splits)
  from tracks_put [OF assms(1) this] show ?thesis by (simp add: settle_def st)
qed

lemma unbatched_settle: "unbatched e \<Longrightarrow> unbatched (settle i sent e)"
  by (auto simp: unbatched_def settle_def settle_state_def split: option.splits if_splits)

lemma take_due_state:
  assumes "tracks_state b [] st" "batcher_take_due now batch_ms (ss_batcher st) = (Some ss, bt)"
  shows "tracks_state b ss (st\<lparr>ss_batcher := bt\<rparr>) \<and> ss \<noteq> []"
  using assms by (auto simp: tracks_state_def batcher_take_due_def split: option.splits if_splits)

lemma tracks_take_due:
  assumes "take_due order batch_ms now e = (pubs, e')" "tracks bus out e" "\<And>i. i \<in> set order \<Longrightarrow> out i = []"
    and "distinct order"
  shows "tracks bus (\<lambda>i. out i @ out_samples pubs i) e' \<and> distinct (map pb_signal_id pubs) \<and>
    pb_signal_id ` set pubs \<subseteq> set order \<and> (\<forall>p \<in> set pubs. pb_samples p \<noteq> []) \<and> (unbatched e \<longrightarrow> unbatched e')"
  using assms
proof (induction order arbitrary: e out pubs e')
  case Nil
  then show ?case by simp
next
  case (Cons i order)
  have skip: ?case if "take_due order batch_ms now e = (pubs, e')"
    using Cons.IH [OF that Cons.prems(2)] Cons.prems(3,4) by fastforce
  show ?case
  proof (cases "en_state e i")
    case None
    with Cons.prems(1) skip show ?thesis by simp
  next
    case (Some st)
    show ?thesis
    proof (cases "fst (batcher_take_due now batch_ms (ss_batcher st))")
      case None
      with Cons.prems(1) Some skip show ?thesis by (auto split: prod.splits)
    next
      case (Some ss)
      then obtain bt where bt: "batcher_take_due now batch_ms (ss_batcher st) = (Some ss, bt)"
        by (metis prod.collapse)
      obtain ps e2 where p: "take_due order batch_ms now (put_state i (st\<lparr>ss_batcher := bt\<rparr>) e) = (ps, e2)"
        by (metis surj_pair)
      have eq: "pubs = \<lparr>pb_signal_id = i, pb_samples = ss\<rparr> # ps" "e' = e2"
        using Cons.prems(1) \<open>en_state e i = Some st\<close> bt p by auto
      have "tracks_state (bus i) [] st"
        using tracks_entry [OF Cons.prems(2), of i] \<open>en_state e i = Some st\<close> Cons.prems(3) [of i]
        by (simp add: entry_or_default_def)
      from take_due_state [OF this bt]
      have t: "tracks bus (out(i := ss)) (put_state i (st\<lparr>ss_batcher := bt\<rparr>) e)" and ne: "ss \<noteq> []"
        using tracks_put [OF Cons.prems(2), of "bus i" ss "st\<lparr>ss_batcher := bt\<rparr>" i] by auto
      have o2: "(out(i := ss)) j = []" if "j \<in> set order" for j
        using Cons.prems(3) [of j] Cons.prems(4) that by (cases "j = i") auto
      have u: "unbatched e \<Longrightarrow> False"
        using \<open>en_state e i = Some st\<close> bt by (auto simp: unbatched_def batcher_take_due_def split: option.splits if_splits)
      have d: "distinct order" using Cons.prems(4) by simp
      note ih = Cons.IH [OF p t o2 d]
      then have ids: "i \<notin> pb_signal_id ` set ps" using Cons.prems(4) by auto
      have "(\<lambda>j. out j @ out_samples pubs j) = (\<lambda>j. (out(i := ss)) j @ out_samples ps j)"
        using Cons.prems(3) [of i] out_samples_notin [OF ids] by (auto simp: eq)
      with ih ids ne u show ?thesis by (auto simp: eq)
    qed
  qed
qed

lemma tracks_discard:
  assumes "discard_open_batches order dropped e = (n, e')" "tracks bus (\<lambda>_. []) e"
  shows "tracks bus (\<lambda>_. []) e' \<and> (unbatched e \<longrightarrow> unbatched e') \<and>
    (\<forall>i \<in> set order. \<forall>st. en_state e' i = Some st \<longrightarrow> ba_buffer (ss_batcher st) = []) \<and>
    (\<forall>i. (\<exists>st. en_state e i = Some st \<and> ba_buffer (ss_batcher st) = []) \<longrightarrow>
         (\<forall>st. en_state e' i = Some st \<longrightarrow> ba_buffer (ss_batcher st) = [])) \<and> dom (en_state e') = dom (en_state e)"
  using assms
proof (induction order arbitrary: dropped e)
  case Nil
  then show ?case by auto
next
  case (Cons i order)
  show ?case
  proof (cases "en_state e i")
    case None
    with Cons.prems(1) have p: "discard_open_batches order dropped e = (n, e')" by simp
    note ih = Cons.IH [OF p Cons.prems(2)]
    then have "en_state e' i = None" using None by (metis domIff)
    with ih show ?thesis by auto
  next
    case (Some st)
    obtain k st' where k: "discard_state st = (k, st')" by (metis surj_pair)
    with Some Cons.prems(1) obtain d where
      p: "discard_open_batches order d (put_state i st' e) = (n, e')" by (auto split: if_splits)
    have "tracks_state (bus i) [] st" using tracks_entry [OF Cons.prems(2), of i] Some by (simp add: entry_or_default_def)
    then have s: "tracks_state (bus i) [] st'" "ba_buffer (ss_batcher st') = []"
      using k by (auto simp: discard_state_def batcher_discard_def tracks_state_def Let_def split: if_splits)
    have t: "tracks bus (\<lambda>_. []) (put_state i st' e)"
      using tracks_put [OF Cons.prems(2) s(1), of i] by (simp add: fun_upd_idem)
    have u: "unbatched e \<Longrightarrow> unbatched (put_state i st' e)" using s(2) by (auto simp: unbatched_def split: if_splits)
    have ih: "tracks bus (\<lambda>_. []) e'" "unbatched (put_state i st' e) \<longrightarrow> unbatched e'"
      "\<And>j st. j \<in> set order \<Longrightarrow> en_state e' j = Some st \<Longrightarrow> ba_buffer (ss_batcher st) = []"
      "\<And>j st. \<exists>st. en_state (put_state i st' e) j = Some st \<and> ba_buffer (ss_batcher st) = [] \<Longrightarrow>
         en_state e' j = Some st \<Longrightarrow> ba_buffer (ss_batcher st) = []"
      "dom (en_state e') = dom (en_state (put_state i st' e))"
      using Cons.IH [OF p t] by blast+
    have keep: "\<exists>st. en_state (put_state i st' e) j = Some st \<and> ba_buffer (ss_batcher st) = []"
      if "j = i \<or> (\<exists>st. en_state e j = Some st \<and> ba_buffer (ss_batcher st) = [])" for j
      using that s(2) by (cases "j = i") auto
    have "dom (en_state e') = dom (en_state e)"
      unfolding ih(5) using Some by (auto simp: dom_def)
    moreover have "\<forall>j. (\<exists>st. en_state e j = Some st \<and> ba_buffer (ss_batcher st) = []) \<longrightarrow>
        (\<forall>st. en_state e' j = Some st \<longrightarrow> ba_buffer (ss_batcher st) = [])"
      using ih(4) keep by blast
    moreover have "\<forall>j \<in> set (i # order). \<forall>st. en_state e' j = Some st \<longrightarrow> ba_buffer (ss_batcher st) = []"
      using ih(3) ih(4) [OF keep [of i]] by auto
    ultimately show ?thesis using ih(1,2) u by blast
  qed
qed

lemma tracks_rebase: "tracks bus out e \<Longrightarrow> tracks bus out (rebase_stale now e)"
proof (unfold tracks_def, rule allI)
  fix i
  assume "\<forall>i. case en_state e i of None \<Rightarrow> bus i = None \<and> out i = [] | Some st \<Rightarrow> tracks_state (bus i) (out i) st"
  then show "case en_state (rebase_stale now e) i of None \<Rightarrow> bus i = None \<and> out i = []
      | Some st \<Rightarrow> tracks_state (bus i) (out i) st"
    by (cases "en_state e i") (auto simp: rebase_stale_def tracks_state_def dest: spec [of _ i])
qed

lemma unbatched_rebase: "unbatched e \<Longrightarrow> unbatched (rebase_stale now e)"
  by (auto simp: unbatched_def rebase_stale_def)

section \<open>Properties\<close>

text \<open>Operations on one batch window: samples added, and looks at the clock.\<close>

datatype batch_op = OpAdd sample instant | OpTake instant

fun run_batch :: "u64 \<Rightarrow> batch_op list \<Rightarrow> batcher \<Rightarrow> sample list list \<times> batcher" where
  "run_batch batch_ms [] b = ([], b)"
| "run_batch batch_ms (op # ops) b =
     (let (out, b1) = (case op of OpAdd s now \<Rightarrow> batcher_add s now batch_ms b
                                | OpTake now \<Rightarrow> batcher_take_due now batch_ms b);
          (outs, b2) = run_batch batch_ms ops b1
      in ((case out of Some ss \<Rightarrow> [ss] | None \<Rightarrow> []) @ outs, b2))"

definition added :: "batch_op list \<Rightarrow> sample list" where
  "added ops = List.map_filter (\<lambda>op. case op of OpAdd s _ \<Rightarrow> Some s | OpTake _ \<Rightarrow> None) ops"

lemma added_simps [simp]:
  "added [] = []" "added (OpAdd s t # ops) = s # added ops" "added (OpTake t # ops) = added ops"
  by (simp_all add: added_def List.map_filter_def)

lemma run_batch_order:
  assumes "run_batch batch_ms ops b = (outs, b')" "batch_ms = 0 \<longrightarrow> ba_buffer b = []"
  shows "concat outs @ ba_buffer b' = ba_buffer b @ added ops \<and> [] \<notin> set outs"
  using assms
proof (induction ops arbitrary: b outs b')
  case Nil
  then show ?case by simp
next
  case (Cons op ops)
  obtain out b1 where step: "(case op of OpAdd s now \<Rightarrow> batcher_add s now batch_ms b
      | OpTake now \<Rightarrow> batcher_take_due now batch_ms b) = (out, b1)" by (metis surj_pair)
  obtain os b2 where rest: "run_batch batch_ms ops b1 = (os, b2)" by (metis surj_pair)
  have eq: "outs = (case out of Some ss \<Rightarrow> [ss] | None \<Rightarrow> []) @ os" "b' = b2"
    using Cons.prems(1) step rest by auto
  have one: "(case out of Some ss \<Rightarrow> ss | None \<Rightarrow> []) @ ba_buffer b1 =
      ba_buffer b @ (case op of OpAdd s _ \<Rightarrow> [s] | OpTake _ \<Rightarrow> []) \<and> out \<noteq> Some [] \<and> (batch_ms = 0 \<longrightarrow> ba_buffer b1 = [])"
    using step Cons.prems(2)
    by (auto simp: batcher_add_def batcher_take_due_def split: batch_op.splits if_splits option.splits)
  from Cons.IH [OF rest] one have "concat os @ ba_buffer b2 = ba_buffer b1 @ added ops" "[] \<notin> set os" by auto
  with one show ?case by (cases op; cases out) (auto simp: eq)
qed

text \<open>
  The batch window loses, repeats and reorders nothing: whatever the times of the samples and of the
  flushes, the published batches followed by the open window are exactly the samples added, in order.
\<close>

theorem batch_window_order:
  "run_batch batch_ms ops batcher_default = (outs, b) \<Longrightarrow> concat outs @ ba_buffer b = added ops \<and> [] \<notin> set outs"
  using run_batch_order [of batch_ms ops batcher_default outs b] by (simp add: batcher_default_def)

theorem batch_window_order_witness:
  "\<exists>s t b. run_batch 10 [OpAdd s 0, OpAdd t 5000000, OpTake 9000000, OpTake 10000000] batcher_default = ([[s, t]], b) \<and>
     concat [[s, t]] @ ba_buffer b = [s, t] \<and> s \<noteq> t"
proof -
  let ?s = "sample_of (JBool True) Good None None" and ?t = "sample_of (JBool False) Good None None"
  let ?ops = "[OpAdd ?s 0, OpAdd ?t 5000000, OpTake 9000000, OpTake 10000000]"
  have "run_batch 10 ?ops batcher_default = ([[?s, ?t]], batcher_default)"
    by (simp add: batcher_default_def batcher_add_def batcher_take_due_def saturating_duration_since_def from_millis_def)
  with batch_window_order [OF this] show ?thesis
    by (intro exI [of _ ?s] exI [of _ ?t] exI [of _ batcher_default]) (simp add: sample_of_def)
qed


end
