(* ===== verification/Metrics.thy ===== *)
theory Metrics
  imports Device "HOL-Library.List_Lexorder" "HOL-Library.Product_Lexorder"
begin

text \<open>
  The operational metrics of one device (\<^verbatim>\<open>metrics.rs\<close>): the definition schema of the families, the
  counter state with its recording operations, and the emission, which drains the intervals. A counter
  is a pair of \<^verbatim>\<open>f64\<close> values, the total since the start and the interval since the last emission. A
  \<^verbatim>\<open>BTreeMap\<close> is its list of entries in key order, and a map of measures is the list of its insertions.
  The metric service itself is outside; what it is given is the list of emitted combinations.
\<close>

section \<open>The definition schema\<close>

definition HEALTH :: string where "HEALTH = ''southbound_health''"
definition CONNECTION :: string where "CONNECTION = ''EtherNetIpConnection''"
definition INVENTORY :: string where "INVENTORY = ''EtherNetIpInventory''"
definition POLL :: string where "POLL = ''EtherNetIpPoll''"
definition PUBLISH :: string where "PUBLISH = ''EtherNetIpPublish''"
definition COMMAND :: string where "COMMAND = ''EtherNetIpCommand''"
definition IO :: string where "IO = ''EtherNetIpIo''"

definition RESULT_SUCCESS :: string where "RESULT_SUCCESS = ''success''"
definition RESULT_ERROR :: string where "RESULT_ERROR = ''error''"
definition RESULTS :: "string list" where "RESULTS = [RESULT_SUCCESS, RESULT_ERROR]"

definition COMMAND_VERBS :: "string list" where
  "COMMAND_VERBS = [''sb/status'', ''sb/read'', ''sb/write'', ''sb/signals'', ''sb/browse'', ''sb/pause'', ''sb/resume'',
     ''reconnect'', ''repoll'']"

definition UNIT_COUNT :: string where "UNIT_COUNT = ''Count''"
definition UNIT_MS :: string where "UNIT_MS = ''Milliseconds''"

record measure_def =
  me_name :: string
  me_unit :: string
  me_res :: u32

record family_def =
  fd_name :: string
  fd_dimensions :: "string list"
  fd_measures :: "measure_def list"

definition msr :: "string \<Rightarrow> string \<Rightarrow> u32 \<Rightarrow> measure_def" where
  "msr name unit res = \<lparr>me_name = name, me_unit = unit, me_res = res\<rparr>"

definition pair_def :: "string \<Rightarrow> measure_def list" where
  "pair_def prefix = [msr (prefix @ ''Total'') UNIT_COUNT 60, msr (prefix @ ''Interval'') UNIT_COUNT 60]"

definition pair_defs :: "string list \<Rightarrow> measure_def list" where
  "pair_defs ps = concat (map pair_def ps)"

definition family_defs :: "family_def list" where
  "family_defs =
     [\<lparr>fd_name = HEALTH, fd_dimensions = [''instance''],
        fd_measures = [msr ''connectionState'' UNIT_COUNT 1, msr ''signalsSubscribed'' UNIT_COUNT 1,
          msr ''pollLatencyMs'' UNIT_MS 1, msr ''publishLatencyMs'' UNIT_MS 1, msr ''readErrors'' UNIT_COUNT 60,
          msr ''writeErrors'' UNIT_COUNT 60, msr ''staleSignals'' UNIT_COUNT 60, msr ''reconnects'' UNIT_COUNT 60]\<rparr>,
      \<lparr>fd_name = CONNECTION, fd_dimensions = [''instance'', ''connectionMode''],
        fd_measures = [msr ''sessionConnected'' UNIT_COUNT 1] @
          pair_defs [''connectAttempts'', ''connectFailures'', ''connectionDrops'', ''reconnects'', ''tlsHandshakeFailures'',
            ''certReloads'', ''estEnrollments'', ''estFailures''] @
          [msr ''certExpiryDays'' UNIT_COUNT 60, msr ''connectLatencyMs'' UNIT_MS 60, msr ''connectedDurationMs'' UNIT_MS 60]\<rparr>,
      \<lparr>fd_name = INVENTORY, fd_dimensions = [''instance'', ''pollGroup''],
        fd_measures = [msr ''configuredSignals'' UNIT_COUNT 60, msr ''arraySignals'' UNIT_COUNT 60,
          msr ''writableSignals'' UNIT_COUNT 60, msr ''configuredPollIntervalMs'' UNIT_MS 60,
          msr ''requestsPerCycle'' UNIT_COUNT 60]\<rparr>,
      \<lparr>fd_name = POLL, fd_dimensions = [''instance'', ''pollGroup'', ''result''],
        fd_measures = pair_def ''pollCycles'' @ [msr ''pollDurationMs'' UNIT_MS 60] @
          pair_defs [''tagReads'', ''tagReadErrors'', ''samplesGood'', ''samplesBad'', ''samplesUncertain'', ''samplesChanged'',
            ''samplesSuppressed'', ''pollOverruns'']\<rparr>,
      \<lparr>fd_name = PUBLISH, fd_dimensions = [''instance'', ''publishMode''],
        fd_measures = pair_defs [''dataMessagesPublished'', ''samplesPublished'', ''publishFailures'', ''batchFlushes''] @
          [msr ''batchSize'' UNIT_COUNT 60, msr ''publishLatencyMs'' UNIT_MS 60]\<rparr>,
      \<lparr>fd_name = COMMAND, fd_dimensions = [''instance'', ''verb'', ''result''],
        fd_measures = pair_defs [''commandRequests'', ''commandErrors''] @ [msr ''commandLatencyMs'' UNIT_MS 60] @
          pair_defs [''readSignals'', ''writeSignals'', ''writeFailures'', ''browsedTags'', ''pauseRequests'', ''resumeRequests'',
            ''reconnectRequests'', ''repollRequests'']\<rparr>,
      \<lparr>fd_name = IO, fd_dimensions = [''instance''],
        fd_measures = [msr ''ioConnectionState'' UNIT_COUNT 1] @
          pair_defs [''forwardOpens'', ''forwardOpenFailures'', ''framesConsumed'', ''framesProduced'', ''staleFramesDropped'',
            ''sequenceGaps'', ''sizeMismatchDropped'', ''malformedFrames'', ''ioTimeouts'', ''produceOverruns'', ''sendErrors'',
            ''recvErrors'', ''sourceMismatchDatagrams'', ''refusedRedirects''] @
          [msr ''interFrameMs'' UNIT_MS 1, msr ''runMode'' UNIT_COUNT 1]\<rparr>]"

definition family_def_of :: "string \<Rightarrow> family_def option" where
  "family_def_of name = find (\<lambda>f. fd_name f = name) family_defs"

section \<open>Counter state\<close>

type_synonym measures = "(string \<times> f64) list"

record pair =
  pr_total :: f64
  pr_interval :: f64

definition pair_default :: pair where
  "pair_default = \<lparr>pr_total = f64_zero, pr_interval = f64_zero\<rparr>"

definition pair_add :: "f64 \<Rightarrow> pair \<Rightarrow> pair" where
  "pair_add v p = \<lparr>pr_total = f64_add (pr_total p) v, pr_interval = f64_add (pr_interval p) v\<rparr>"

definition pair_reset :: "pair \<Rightarrow> pair" where
  "pair_reset p = p\<lparr>pr_interval := f64_zero\<rparr>"

definition pair_out :: "string \<Rightarrow> pair \<Rightarrow> measures" where
  "pair_out prefix p = [(prefix @ ''Total'', pr_total p), (prefix @ ''Interval'', pr_interval p)]"

definition f64_of_u64 :: "u64 \<Rightarrow> f64" where
  "f64_of_u64 n = f64_of_int (uint n)"

definition f64_of_bool :: "bool \<Rightarrow> f64" where
  "f64_of_bool b = f64_of_int (of_bool b)"

text \<open>\<^verbatim>\<open>as_secs_f64() * 1000.0\<close>.\<close>

definition secs_f64_ms :: "duration \<Rightarrow> f64" where
  "secs_f64_ms t =
     f64_mul (f64_add (f64_of_int (int (t div 1000000000)))
       (f64_div (f64_of_int (int (t mod 1000000000))) (f64_of_int 1000000000))) (f64_of_int 1000)"

record metric_conn_counters =
  co_session_connected :: bool
  co_ever_connected :: bool
  co_connect_attempts :: pair
  co_connect_failures :: pair
  co_connection_drops :: pair
  co_reconnects :: pair
  co_tls_handshake_failures :: pair
  co_cert_reloads :: pair
  co_est_enrollments :: pair
  co_est_failures :: pair
  co_cert_expiry_days :: "f64 option"
  co_connect_latency_ms :: f64
  co_connected_accrued_ms :: f64
  co_connected_since :: "instant option"

definition accrue :: "instant \<Rightarrow> metric_conn_counters \<Rightarrow> metric_conn_counters" where
  "accrue now c =
     (case co_connected_since c of
        Some since \<Rightarrow>
          c\<lparr>co_connected_accrued_ms := f64_add (co_connected_accrued_ms c) (secs_f64_ms (saturating_duration_since now since)),
            co_connected_since := Some now\<rparr>
      | None \<Rightarrow> c)"

definition conn_drain :: "instant \<Rightarrow> metric_conn_counters \<Rightarrow> measures \<times> metric_conn_counters" where
  "conn_drain now c0 =
     (let c = accrue now c0 in
      ([(''sessionConnected'', f64_of_bool (co_session_connected c))] @
       pair_out ''connectAttempts'' (co_connect_attempts c) @ pair_out ''connectFailures'' (co_connect_failures c) @
       pair_out ''connectionDrops'' (co_connection_drops c) @ pair_out ''reconnects'' (co_reconnects c) @
       pair_out ''tlsHandshakeFailures'' (co_tls_handshake_failures c) @ pair_out ''certReloads'' (co_cert_reloads c) @
       pair_out ''estEnrollments'' (co_est_enrollments c) @ pair_out ''estFailures'' (co_est_failures c) @
       (case co_cert_expiry_days c of Some days \<Rightarrow> [(''certExpiryDays'', days)] | None \<Rightarrow> []) @
       [(''connectLatencyMs'', co_connect_latency_ms c), (''connectedDurationMs'', co_connected_accrued_ms c)],
       c\<lparr>co_connect_attempts := pair_reset (co_connect_attempts c), co_connect_failures := pair_reset (co_connect_failures c),
         co_connection_drops := pair_reset (co_connection_drops c), co_reconnects := pair_reset (co_reconnects c),
         co_tls_handshake_failures := pair_reset (co_tls_handshake_failures c),
         co_cert_reloads := pair_reset (co_cert_reloads c), co_est_enrollments := pair_reset (co_est_enrollments c),
         co_est_failures := pair_reset (co_est_failures c), co_connected_accrued_ms := f64_zero\<rparr>))"

record poll_counters =
  pc_poll_cycles :: pair
  pc_poll_duration_ms :: f64
  pc_tag_reads :: pair
  pc_tag_read_errors :: pair
  pc_samples_good :: pair
  pc_samples_bad :: pair
  pc_samples_uncertain :: pair
  pc_samples_changed :: pair
  pc_samples_suppressed :: pair
  pc_poll_overruns :: pair

definition poll_drain :: "poll_counters \<Rightarrow> measures \<times> poll_counters" where
  "poll_drain c =
     (pair_out ''pollCycles'' (pc_poll_cycles c) @ [(''pollDurationMs'', pc_poll_duration_ms c)] @
      pair_out ''tagReads'' (pc_tag_reads c) @ pair_out ''tagReadErrors'' (pc_tag_read_errors c) @
      pair_out ''samplesGood'' (pc_samples_good c) @ pair_out ''samplesBad'' (pc_samples_bad c) @
      pair_out ''samplesUncertain'' (pc_samples_uncertain c) @ pair_out ''samplesChanged'' (pc_samples_changed c) @
      pair_out ''samplesSuppressed'' (pc_samples_suppressed c) @ pair_out ''pollOverruns'' (pc_poll_overruns c),
      \<lparr>pc_poll_cycles = pair_reset (pc_poll_cycles c), pc_poll_duration_ms = f64_zero,
       pc_tag_reads = pair_reset (pc_tag_reads c), pc_tag_read_errors = pair_reset (pc_tag_read_errors c),
       pc_samples_good = pair_reset (pc_samples_good c), pc_samples_bad = pair_reset (pc_samples_bad c),
       pc_samples_uncertain = pair_reset (pc_samples_uncertain c), pc_samples_changed = pair_reset (pc_samples_changed c),
       pc_samples_suppressed = pair_reset (pc_samples_suppressed c), pc_poll_overruns = pair_reset (pc_poll_overruns c)\<rparr>)"

record pub_counters =
  pu_data_messages :: pair
  pu_samples :: pair
  pu_failures :: pair
  pu_batch_flushes :: pair
  pu_batch_size :: f64
  pu_publish_latency_ms :: f64

definition pub_drain :: "pub_counters \<Rightarrow> measures \<times> pub_counters" where
  "pub_drain c =
     (pair_out ''dataMessagesPublished'' (pu_data_messages c) @ pair_out ''samplesPublished'' (pu_samples c) @
      pair_out ''publishFailures'' (pu_failures c) @ pair_out ''batchFlushes'' (pu_batch_flushes c) @
      [(''batchSize'', pu_batch_size c), (''publishLatencyMs'', pu_publish_latency_ms c)],
      c\<lparr>pu_data_messages := pair_reset (pu_data_messages c), pu_samples := pair_reset (pu_samples c),
        pu_failures := pair_reset (pu_failures c), pu_batch_flushes := pair_reset (pu_batch_flushes c),
        pu_publish_latency_ms := f64_zero\<rparr>)"

record cmd_counters =
  cm_command_requests :: pair
  cm_command_errors :: pair
  cm_command_latency_ms :: f64
  cm_read_signals :: pair
  cm_write_signals :: pair
  cm_write_failures :: pair
  cm_browsed_tags :: pair
  cm_pause_requests :: pair
  cm_resume_requests :: pair
  cm_reconnect_requests :: pair
  cm_repoll_requests :: pair

definition cmd_drain :: "cmd_counters \<Rightarrow> measures \<times> cmd_counters" where
  "cmd_drain c =
     (pair_out ''commandRequests'' (cm_command_requests c) @ pair_out ''commandErrors'' (cm_command_errors c) @
      [(''commandLatencyMs'', cm_command_latency_ms c)] @
      pair_out ''readSignals'' (cm_read_signals c) @ pair_out ''writeSignals'' (cm_write_signals c) @
      pair_out ''writeFailures'' (cm_write_failures c) @ pair_out ''browsedTags'' (cm_browsed_tags c) @
      pair_out ''pauseRequests'' (cm_pause_requests c) @ pair_out ''resumeRequests'' (cm_resume_requests c) @
      pair_out ''reconnectRequests'' (cm_reconnect_requests c) @ pair_out ''repollRequests'' (cm_repoll_requests c),
      \<lparr>cm_command_requests = pair_reset (cm_command_requests c), cm_command_errors = pair_reset (cm_command_errors c),
       cm_command_latency_ms = f64_zero, cm_read_signals = pair_reset (cm_read_signals c),
       cm_write_signals = pair_reset (cm_write_signals c), cm_write_failures = pair_reset (cm_write_failures c),
       cm_browsed_tags = pair_reset (cm_browsed_tags c), cm_pause_requests = pair_reset (cm_pause_requests c),
       cm_resume_requests = pair_reset (cm_resume_requests c), cm_reconnect_requests = pair_reset (cm_reconnect_requests c),
       cm_repoll_requests = pair_reset (cm_repoll_requests c)\<rparr>)"

text \<open>The counters of the class 1 stack, cumulative since the Forward Open.\<close>

record io_link_stats =
  ls_frames_produced :: u64
  ls_stale_frames :: u64
  ls_size_mismatch :: u64
  ls_sequence_gaps :: u64
  ls_malformed_frames :: u64
  ls_produce_overruns :: u64
  ls_send_errors :: u64
  ls_recv_errors :: u64
  ls_source_mismatch_datagrams :: u64
  ls_refused_redirects :: u64

record io_counters =
  io_connection_state :: bool
  io_forward_opens :: pair
  io_forward_open_failures :: pair
  io_frames_consumed :: pair
  io_frames_produced :: pair
  io_stale_frames_dropped :: pair
  io_sequence_gaps :: pair
  io_size_mismatch_dropped :: pair
  io_malformed_frames :: pair
  io_timeouts :: pair
  io_produce_overruns :: pair
  io_send_errors :: pair
  io_recv_errors :: pair
  io_source_mismatch_datagrams :: pair
  io_refused_redirects :: pair
  io_inter_frame_ms :: f64
  io_run_mode :: bool
  io_last_seq :: "u16 option"
  io_last_frame_at :: "instant option"
  io_last_stats_frames_produced :: u64
  io_last_stats_stale :: u64
  io_last_stats_size_mismatch :: u64
  io_last_stats_malformed :: u64
  io_last_stats_produce_overruns :: u64
  io_last_stats_send_errors :: u64
  io_last_stats_recv_errors :: u64
  io_last_stats_source_mismatch :: u64
  io_last_stats_refused_redirects :: u64
  io_o2t_api_ms :: u32
  io_t2o_api_ms :: u32

definition io_drain :: "io_counters \<Rightarrow> measures \<times> io_counters" where
  "io_drain c =
     ([(''ioConnectionState'', f64_of_bool (io_connection_state c))] @
      pair_out ''forwardOpens'' (io_forward_opens c) @ pair_out ''forwardOpenFailures'' (io_forward_open_failures c) @
      pair_out ''framesConsumed'' (io_frames_consumed c) @ pair_out ''framesProduced'' (io_frames_produced c) @
      pair_out ''staleFramesDropped'' (io_stale_frames_dropped c) @ pair_out ''sequenceGaps'' (io_sequence_gaps c) @
      pair_out ''sizeMismatchDropped'' (io_size_mismatch_dropped c) @ pair_out ''malformedFrames'' (io_malformed_frames c) @
      pair_out ''ioTimeouts'' (io_timeouts c) @ pair_out ''produceOverruns'' (io_produce_overruns c) @
      pair_out ''sendErrors'' (io_send_errors c) @ pair_out ''recvErrors'' (io_recv_errors c) @
      pair_out ''sourceMismatchDatagrams'' (io_source_mismatch_datagrams c) @
      pair_out ''refusedRedirects'' (io_refused_redirects c) @
      [(''interFrameMs'', io_inter_frame_ms c), (''runMode'', f64_of_bool (io_run_mode c))],
      c\<lparr>io_forward_opens := pair_reset (io_forward_opens c), io_forward_open_failures := pair_reset (io_forward_open_failures c),
        io_frames_consumed := pair_reset (io_frames_consumed c), io_frames_produced := pair_reset (io_frames_produced c),
        io_stale_frames_dropped := pair_reset (io_stale_frames_dropped c), io_sequence_gaps := pair_reset (io_sequence_gaps c),
        io_size_mismatch_dropped := pair_reset (io_size_mismatch_dropped c),
        io_malformed_frames := pair_reset (io_malformed_frames c), io_timeouts := pair_reset (io_timeouts c),
        io_produce_overruns := pair_reset (io_produce_overruns c), io_send_errors := pair_reset (io_send_errors c),
        io_recv_errors := pair_reset (io_recv_errors c),
        io_source_mismatch_datagrams := pair_reset (io_source_mismatch_datagrams c),
        io_refused_redirects := pair_reset (io_refused_redirects c)\<rparr>)"

definition end_connection :: "io_counters \<Rightarrow> io_counters" where
  "end_connection c =
     c\<lparr>io_connection_state := False, io_last_seq := None, io_last_frame_at := None, io_last_stats_frames_produced := 0,
       io_last_stats_stale := 0, io_last_stats_size_mismatch := 0, io_last_stats_malformed := 0,
       io_last_stats_produce_overruns := 0, io_last_stats_send_errors := 0, io_last_stats_recv_errors := 0,
       io_last_stats_source_mismatch := 0, io_last_stats_refused_redirects := 0\<rparr>"

definition conn_default :: metric_conn_counters where
  "conn_default =
     \<lparr>co_session_connected = False, co_ever_connected = False, co_connect_attempts = pair_default,
      co_connect_failures = pair_default, co_connection_drops = pair_default, co_reconnects = pair_default,
      co_tls_handshake_failures = pair_default, co_cert_reloads = pair_default, co_est_enrollments = pair_default,
      co_est_failures = pair_default, co_cert_expiry_days = None, co_connect_latency_ms = f64_zero,
      co_connected_accrued_ms = f64_zero, co_connected_since = None\<rparr>"

definition poll_default :: poll_counters where
  "poll_default =
     \<lparr>pc_poll_cycles = pair_default, pc_poll_duration_ms = f64_zero, pc_tag_reads = pair_default,
      pc_tag_read_errors = pair_default, pc_samples_good = pair_default, pc_samples_bad = pair_default,
      pc_samples_uncertain = pair_default, pc_samples_changed = pair_default, pc_samples_suppressed = pair_default,
      pc_poll_overruns = pair_default\<rparr>"

definition pub_default :: pub_counters where
  "pub_default =
     \<lparr>pu_data_messages = pair_default, pu_samples = pair_default, pu_failures = pair_default,
      pu_batch_flushes = pair_default, pu_batch_size = f64_zero, pu_publish_latency_ms = f64_zero\<rparr>"

definition cmd_default :: cmd_counters where
  "cmd_default =
     \<lparr>cm_command_requests = pair_default, cm_command_errors = pair_default, cm_command_latency_ms = f64_zero,
      cm_read_signals = pair_default, cm_write_signals = pair_default, cm_write_failures = pair_default,
      cm_browsed_tags = pair_default, cm_pause_requests = pair_default, cm_resume_requests = pair_default,
      cm_reconnect_requests = pair_default, cm_repoll_requests = pair_default\<rparr>"

definition io_default :: io_counters where
  "io_default =
     \<lparr>io_connection_state = False, io_forward_opens = pair_default, io_forward_open_failures = pair_default,
      io_frames_consumed = pair_default, io_frames_produced = pair_default, io_stale_frames_dropped = pair_default,
      io_sequence_gaps = pair_default, io_size_mismatch_dropped = pair_default, io_malformed_frames = pair_default,
      io_timeouts = pair_default, io_produce_overruns = pair_default, io_send_errors = pair_default,
      io_recv_errors = pair_default, io_source_mismatch_datagrams = pair_default, io_refused_redirects = pair_default,
      io_inter_frame_ms = f64_zero, io_run_mode = False, io_last_seq = None, io_last_frame_at = None,
      io_last_stats_frames_produced = 0, io_last_stats_stale = 0, io_last_stats_size_mismatch = 0,
      io_last_stats_malformed = 0, io_last_stats_produce_overruns = 0, io_last_stats_send_errors = 0,
      io_last_stats_recv_errors = 0, io_last_stats_source_mismatch = 0, io_last_stats_refused_redirects = 0,
      io_o2t_api_ms = 0, io_t2o_api_ms = 0\<rparr>"

section \<open>Ordered maps\<close>

text \<open>\<^verbatim>\<open>entry(k).or_default()\<close>, updated through \<open>f\<close>.\<close>

fun bt_upsert :: "'k::linorder \<Rightarrow> 'v \<Rightarrow> ('v \<Rightarrow> 'v) \<Rightarrow> ('k \<times> 'v) list \<Rightarrow> ('k \<times> 'v) list" where
  "bt_upsert k d f [] = [(k, f d)]"
| "bt_upsert k d f ((l, v) # m) =
     (if k < l then (k, f d) # (l, v) # m
      else if k = l then (l, f v) # m
      else (l, v) # bt_upsert k d f m)"

lemma bt_upsert_keys: "fst ` set (bt_upsert k d f m) = insert k (fst ` set m)"
proof (induction m)
  case (Cons kv m)
  obtain l v where "kv = (l, v)" by fastforce
  with Cons show ?case by (simp add: insert_commute)
qed simp

lemma bt_upsert_sorted: "sorted_wrt (<) (map fst m) \<Longrightarrow> sorted_wrt (<) (map fst (bt_upsert k d f m))"
proof (induction m)
  case (Cons kv m)
  obtain l v where kv: "kv = (l, v)" by fastforce
  have l: "\<forall>x \<in> fst ` set m. l < x" using Cons.prems kv by simp
  show ?case
  proof (cases "k < l")
    case True
    with l Cons.prems kv show ?thesis by (auto dest: less_trans)
  next
    case False
    with l have "k = l \<or> (\<forall>x \<in> fst ` set (bt_upsert k d f m). l < x)" by (auto simp: bt_upsert_keys)
    with False Cons kv show ?thesis by auto
  qed
qed simp

lemma map_of_bt_upsert:
  assumes "sorted_wrt (<) (map fst m)"
  shows "map_of (bt_upsert k d f m) = (map_of m)(k \<mapsto> f (case map_of m k of Some v \<Rightarrow> v | None \<Rightarrow> d))"
  using assms
proof (induction m)
  case (Cons kv m)
  obtain l v where kv: "kv = (l, v)" by fastforce
  have "k < l \<Longrightarrow> map_of m k = None" using Cons.prems kv by (fastforce simp: map_of_eq_None_iff)
  with Cons kv show ?case by (auto simp: fun_eq_iff)
qed simp

section \<open>The emitter\<close>

record inventory_row =
  iv_group :: rstr
  iv_configured_signals :: f64
  iv_array_signals :: f64
  iv_writable_signals :: f64
  iv_poll_interval_ms :: f64
  iv_requests_per_cycle :: f64

record device_metrics =
  dm_device :: device_config
  dm_is_push :: bool
  dm_publish_modes :: "string list"
  dm_inventory :: "inventory_row list"
  dm_signals_total :: f64
  dm_produced_run :: bool
  dm_conn :: metric_conn_counters
  dm_poll :: "((rstr \<times> rstr) \<times> poll_counters) list"
  dm_publish :: "(rstr \<times> pub_counters) list"
  dm_command :: "((rstr \<times> rstr) \<times> cmd_counters) list"
  dm_io :: io_counters

definition push_publish_mode :: "device_config \<Rightarrow> global_config \<Rightarrow> publish_mode" where
  "push_publish_mode device global =
     unwrap_or (or_else (df_publish_mode (dc_defaults device)) (df_publish_mode (gc_defaults global))) OnChange"

definition metric_publish_modes :: "device_config \<Rightarrow> global_config \<Rightarrow> string list" where
  "metric_publish_modes device global =
     (if dc_mode device = Push then [publish_mode_str (push_publish_mode device global)]
      else
        let toks = foldl (\<lambda>acc g. let tok = publish_mode_str (effective_publish_mode device g global) in
              if tok \<in> set acc then acc else acc @ [tok]) [] (dc_poll_groups device)
        in if toks = [] then [publish_mode_str OnChange] else toks)"

definition f64_of_nat :: "nat \<Rightarrow> f64" where
  "f64_of_nat n = f64_of_int (int n)"

definition inventory_row_of :: "device_config \<Rightarrow> global_config \<Rightarrow> poll_group \<Rightarrow> inventory_row" where
  "inventory_row_of device global g =
     \<lparr>iv_group = unwrap_or (pg_id g) (ascii ''group''),
      iv_configured_signals = f64_of_nat (length (pg_signals g)),
      iv_array_signals = f64_of_nat (length (filter (\<lambda>s. sg_array_count s \<noteq> None) (pg_signals g))),
      iv_writable_signals = f64_of_nat (length (filter (\<lambda>s. permits (dc_writes device) (sg_tag_path s)) (pg_signals g))),
      iv_poll_interval_ms = f64_of_u64 (effective_poll_ms device g global),
      iv_requests_per_cycle = f64_of_nat (length (pg_signals g))\<rparr>"

definition poll_keys :: "inventory_row list \<Rightarrow> (rstr \<times> rstr) list" where
  "poll_keys rows = concat (map (\<lambda>row. map (\<lambda>r. (iv_group row, ascii r)) RESULTS) rows)"

definition command_keys :: "(rstr \<times> rstr) list" where
  "command_keys = concat (map (\<lambda>verb. map (\<lambda>r. (ascii verb, ascii r)) RESULTS) COMMAND_VERBS)"

definition bt_of :: "'v \<Rightarrow> 'k::linorder list \<Rightarrow> ('k \<times> 'v) list" where
  "bt_of d ks = foldl (\<lambda>m k. bt_upsert k d id m) [] ks"

definition metric_signals_total :: "device_config \<Rightarrow> nat" where
  "metric_signals_total device =
     (if dc_mode device = Push
      then (case dc_io device of
              None \<Rightarrow> 0
            | Some io \<Rightarrow> length (ii_signals (ic_input io)) + (case ic_output io of None \<Rightarrow> 0 | Some out \<Rightarrow> length (io_signals out)))
      else length (dc_signals device))"

definition device_metrics_new :: "device_config \<Rightarrow> global_config \<Rightarrow> device_metrics" where
  "device_metrics_new device global =
     (let modes = metric_publish_modes device global; inv = map (inventory_row_of device global) (dc_poll_groups device) in
      \<lparr>dm_device = device, dm_is_push = (dc_mode device = Push), dm_publish_modes = modes, dm_inventory = inv,
       dm_signals_total = f64_of_nat (metric_signals_total device),
       dm_produced_run = (case Option.bind (dc_io device) ic_output of None \<Rightarrow> True | Some out \<Rightarrow> io_run out),
       dm_conn = conn_default, dm_poll = bt_of poll_default (poll_keys inv),
       dm_publish = bt_of pub_default (map ascii modes), dm_command = bt_of cmd_default command_keys, dm_io = io_default\<rparr>)"

section \<open>Recording\<close>

definition on_connect_attempt :: "device_metrics \<Rightarrow> device_metrics" where
  "on_connect_attempt dm = dm\<lparr>dm_conn := (dm_conn dm)\<lparr>co_connect_attempts := pair_add f64_one (co_connect_attempts (dm_conn dm))\<rparr>\<rparr>"

definition on_connected :: "u64 \<Rightarrow> instant \<Rightarrow> device_metrics \<Rightarrow> device_metrics" where
  "on_connected latency_ms now dm =
     (let c = (dm_conn dm)\<lparr>co_session_connected := True, co_connect_latency_ms := f64_of_u64 latency_ms,
            co_connected_since := Some now\<rparr>;
          c1 = (if co_ever_connected c then c\<lparr>co_reconnects := pair_add f64_one (co_reconnects c)\<rparr> else c)
      in dm\<lparr>dm_conn := c1\<lparr>co_ever_connected := True\<rparr>\<rparr>)"

definition on_connect_failure :: "device_metrics \<Rightarrow> device_metrics" where
  "on_connect_failure dm = dm\<lparr>dm_conn := (dm_conn dm)\<lparr>co_connect_failures := pair_add f64_one (co_connect_failures (dm_conn dm))\<rparr>\<rparr>"

definition on_tls_handshake_failure :: "device_metrics \<Rightarrow> device_metrics" where
  "on_tls_handshake_failure dm =
     dm\<lparr>dm_conn := (dm_conn dm)\<lparr>co_tls_handshake_failures := pair_add f64_one (co_tls_handshake_failures (dm_conn dm))\<rparr>\<rparr>"

definition on_cert_reload :: "device_metrics \<Rightarrow> device_metrics" where
  "on_cert_reload dm = dm\<lparr>dm_conn := (dm_conn dm)\<lparr>co_cert_reloads := pair_add f64_one (co_cert_reloads (dm_conn dm))\<rparr>\<rparr>"

definition set_cert_expiry_days :: "int \<Rightarrow> device_metrics \<Rightarrow> device_metrics" where
  "set_cert_expiry_days days dm = dm\<lparr>dm_conn := (dm_conn dm)\<lparr>co_cert_expiry_days := Some (f64_of_int days)\<rparr>\<rparr>"

definition on_est_enrollment :: "bool \<Rightarrow> device_metrics \<Rightarrow> device_metrics" where
  "on_est_enrollment success dm =
     dm\<lparr>dm_conn :=
       (if success then (dm_conn dm)\<lparr>co_est_enrollments := pair_add f64_one (co_est_enrollments (dm_conn dm))\<rparr>
        else (dm_conn dm)\<lparr>co_est_failures := pair_add f64_one (co_est_failures (dm_conn dm))\<rparr>)\<rparr>"

definition on_connection_dropped :: "instant \<Rightarrow> device_metrics \<Rightarrow> device_metrics" where
  "on_connection_dropped now dm =
     (let c = accrue now (dm_conn dm) in
      dm\<lparr>dm_conn := c\<lparr>co_connected_since := None, co_session_connected := False,
                       co_connection_drops := pair_add f64_one (co_connection_drops c)\<rparr>\<rparr>)"

definition count_poll_cycle ::
    "u64 \<Rightarrow> u64 \<Rightarrow> bool \<Rightarrow> u64 \<Rightarrow> u64 \<Rightarrow> u64 \<Rightarrow> u64 \<Rightarrow> u64 \<Rightarrow> poll_counters \<Rightarrow> poll_counters" where
  "count_poll_cycle duration_ms tag_reads overran good bad uncertain changed suppressed c =
     \<lparr>pc_poll_cycles = pair_add f64_one (pc_poll_cycles c),
      pc_poll_duration_ms = f64_add (pc_poll_duration_ms c) (f64_of_u64 duration_ms),
      pc_tag_reads = pair_add (f64_of_u64 tag_reads) (pc_tag_reads c),
      pc_tag_read_errors = pair_add (f64_of_u64 bad) (pc_tag_read_errors c),
      pc_samples_good = pair_add (f64_of_u64 good) (pc_samples_good c),
      pc_samples_bad = pair_add (f64_of_u64 bad) (pc_samples_bad c),
      pc_samples_uncertain = pair_add (f64_of_u64 uncertain) (pc_samples_uncertain c),
      pc_samples_changed = pair_add (f64_of_u64 changed) (pc_samples_changed c),
      pc_samples_suppressed = pair_add (f64_of_u64 suppressed) (pc_samples_suppressed c),
      pc_poll_overruns = (if overran then pair_add f64_one (pc_poll_overruns c) else pc_poll_overruns c)\<rparr>"

definition record_poll_cycle ::
    "rstr \<Rightarrow> string \<Rightarrow> u64 \<Rightarrow> u64 \<Rightarrow> bool \<Rightarrow> u64 \<Rightarrow> u64 \<Rightarrow> u64 \<Rightarrow> u64 \<Rightarrow> u64 \<Rightarrow> device_metrics \<Rightarrow> device_metrics" where
  "record_poll_cycle grp result duration_ms tag_reads overran good bad uncertain changed suppressed dm =
     dm\<lparr>dm_poll := bt_upsert (grp, ascii result) poll_default
       (count_poll_cycle duration_ms tag_reads overran good bad uncertain changed suppressed) (dm_poll dm)\<rparr>"

definition count_publish :: "u64 \<Rightarrow> bool \<Rightarrow> u64 \<Rightarrow> bool \<Rightarrow> pub_counters \<Rightarrow> pub_counters" where
  "count_publish samples from_batch latency_ms success c =
     (let c1 = c\<lparr>pu_data_messages := pair_add f64_one (pu_data_messages c)\<rparr>;
          c2 = (if success
                then c1\<lparr>pu_samples := pair_add (f64_of_u64 samples) (pu_samples c1),
                        pu_publish_latency_ms := f64_add (pu_publish_latency_ms c1) (f64_of_u64 latency_ms)\<rparr>
                else c1\<lparr>pu_failures := pair_add f64_one (pu_failures c1)\<rparr>)
      in if from_batch
         then c2\<lparr>pu_batch_flushes := pair_add f64_one (pu_batch_flushes c2), pu_batch_size := f64_of_u64 samples\<rparr>
         else c2)"

definition record_publish :: "string \<Rightarrow> u64 \<Rightarrow> bool \<Rightarrow> u64 \<Rightarrow> bool \<Rightarrow> device_metrics \<Rightarrow> device_metrics" where
  "record_publish mode samples from_batch latency_ms success dm =
     dm\<lparr>dm_publish := bt_upsert (ascii mode) pub_default (count_publish samples from_batch latency_ms success) (dm_publish dm)\<rparr>"

record command_tally =
  ct_read_signals :: u64
  ct_write_signals :: u64
  ct_write_failures :: u64
  ct_browsed_tags :: u64

definition count_command :: "string \<Rightarrow> bool \<Rightarrow> u64 \<Rightarrow> command_tally \<Rightarrow> cmd_counters \<Rightarrow> cmd_counters" where
  "count_command verb success latency_ms tally c =
     (let bump = (\<lambda>v p. if verb = v then pair_add f64_one p else p) in
      \<lparr>cm_command_requests = pair_add f64_one (cm_command_requests c),
       cm_command_errors = (if success then cm_command_errors c else pair_add f64_one (cm_command_errors c)),
       cm_command_latency_ms = f64_add (cm_command_latency_ms c) (f64_of_u64 latency_ms),
       cm_read_signals = pair_add (f64_of_u64 (ct_read_signals tally)) (cm_read_signals c),
       cm_write_signals = pair_add (f64_of_u64 (ct_write_signals tally)) (cm_write_signals c),
       cm_write_failures = pair_add (f64_of_u64 (ct_write_failures tally)) (cm_write_failures c),
       cm_browsed_tags = pair_add (f64_of_u64 (ct_browsed_tags tally)) (cm_browsed_tags c),
       cm_pause_requests = bump ''sb/pause'' (cm_pause_requests c),
       cm_resume_requests = bump ''sb/resume'' (cm_resume_requests c),
       cm_reconnect_requests = bump ''reconnect'' (cm_reconnect_requests c),
       cm_repoll_requests = bump ''repoll'' (cm_repoll_requests c)\<rparr>)"

definition record_command :: "string \<Rightarrow> bool \<Rightarrow> u64 \<Rightarrow> command_tally \<Rightarrow> device_metrics \<Rightarrow> device_metrics" where
  "record_command verb success latency_ms tally dm =
     dm\<lparr>dm_command := bt_upsert (ascii verb, ascii (if success then RESULT_SUCCESS else RESULT_ERROR)) cmd_default
       (count_command verb success latency_ms tally) (dm_command dm)\<rparr>"

definition on_forward_open :: "bool \<Rightarrow> io_counters \<Rightarrow> io_counters" where
  "on_forward_open success io =
     (if success then io\<lparr>io_forward_opens := pair_add f64_one (io_forward_opens io)\<rparr>
      else io\<lparr>io_forward_open_failures := pair_add f64_one (io_forward_open_failures io)\<rparr>)"

definition on_io_up :: "u32 \<Rightarrow> u32 \<Rightarrow> io_counters \<Rightarrow> io_counters" where
  "on_io_up o2t t2o io = io\<lparr>io_connection_state := True, io_o2t_api_ms := o2t, io_t2o_api_ms := t2o\<rparr>"

definition record_frame_consumed :: "u16 \<Rightarrow> instant \<Rightarrow> bool \<Rightarrow> io_counters \<Rightarrow> io_counters" where
  "record_frame_consumed seq received_at run_mode io =
     (let io1 = io\<lparr>io_frames_consumed := pair_add f64_one (io_frames_consumed io), io_run_mode := run_mode\<rparr>;
          io2 = (case io_last_seq io1 of
                   Some prev \<Rightarrow>
                     (let gap = seq - prev in
                      if gap > 1 then io1\<lparr>io_sequence_gaps := pair_add (f64_of_int (uint (gap - 1))) (io_sequence_gaps io1)\<rparr>
                      else io1)
                 | None \<Rightarrow> io1)\<lparr>io_last_seq := Some seq\<rparr>;
          io3 = (case io_last_frame_at io2 of
                   Some prev \<Rightarrow> io2\<lparr>io_inter_frame_ms := secs_f64_ms (saturating_duration_since received_at prev)\<rparr>
                 | None \<Rightarrow> io2)
      in io3\<lparr>io_last_frame_at := Some received_at\<rparr>)"

text \<open>One cumulative counter folded into its pair: the delta against the last reading.\<close>

definition feed_delta :: "u64 \<Rightarrow> u64 \<Rightarrow> u64" where
  "feed_delta prev cur = (if cur \<ge> prev then cur - prev else cur)"

definition feed :: "pair \<Rightarrow> u64 \<Rightarrow> u64 \<Rightarrow> pair" where
  "feed p prev cur = pair_add (f64_of_u64 (feed_delta prev cur)) p"

definition record_io_stats :: "io_link_stats \<Rightarrow> io_counters \<Rightarrow> bool \<times> io_counters" where
  "record_io_stats s io =
     (0 < feed_delta (io_last_stats_refused_redirects io) (ls_refused_redirects s),
      io\<lparr>io_frames_produced := feed (io_frames_produced io) (io_last_stats_frames_produced io) (ls_frames_produced s),
         io_last_stats_frames_produced := ls_frames_produced s,
         io_stale_frames_dropped := feed (io_stale_frames_dropped io) (io_last_stats_stale io) (ls_stale_frames s),
         io_last_stats_stale := ls_stale_frames s,
         io_size_mismatch_dropped := feed (io_size_mismatch_dropped io) (io_last_stats_size_mismatch io) (ls_size_mismatch s),
         io_last_stats_size_mismatch := ls_size_mismatch s,
         io_malformed_frames := feed (io_malformed_frames io) (io_last_stats_malformed io) (ls_malformed_frames s),
         io_last_stats_malformed := ls_malformed_frames s,
         io_produce_overruns := feed (io_produce_overruns io) (io_last_stats_produce_overruns io) (ls_produce_overruns s),
         io_last_stats_produce_overruns := ls_produce_overruns s,
         io_send_errors := feed (io_send_errors io) (io_last_stats_send_errors io) (ls_send_errors s),
         io_last_stats_send_errors := ls_send_errors s,
         io_recv_errors := feed (io_recv_errors io) (io_last_stats_recv_errors io) (ls_recv_errors s),
         io_last_stats_recv_errors := ls_recv_errors s,
         io_source_mismatch_datagrams := feed (io_source_mismatch_datagrams io) (io_last_stats_source_mismatch io)
           (ls_source_mismatch_datagrams s),
         io_last_stats_source_mismatch := ls_source_mismatch_datagrams s,
         io_refused_redirects := feed (io_refused_redirects io) (io_last_stats_refused_redirects io) (ls_refused_redirects s),
         io_last_stats_refused_redirects := ls_refused_redirects s\<rparr>)"

definition on_io_lost :: "io_counters \<Rightarrow> io_counters" where
  "on_io_lost io = (end_connection io)\<lparr>io_timeouts := pair_add f64_one (io_timeouts io)\<rparr>"

definition on_io_link_replaced :: "io_counters \<Rightarrow> io_counters" where
  "on_io_link_replaced io = end_connection io"

section \<open>Emission\<close>

text \<open>One emitted combination: family, dimensions, values, and whether it is flushed at once.\<close>

record combo =
  em_name :: string
  em_dims :: "(string \<times> rstr) list"
  em_values :: measures
  em_now :: bool

text \<open>The interval counters of the health record are swapped to zero by an emission.\<close>

definition drain_health :: "health \<Rightarrow> health" where
  "drain_health h = h\<lparr>h_read_errors := 0, h_write_errors := 0, h_reconnects := 0\<rparr>"

definition emit_health :: "bool \<Rightarrow> device_metrics \<Rightarrow> health \<Rightarrow> combo \<times> health" where
  "emit_health now dm h =
     (\<lparr>em_name = HEALTH, em_dims = [(''instance'', dc_id (dm_device dm))],
       em_values =
         [(''connectionState'', f64_of_u64 (h_connection_state h)),
          (''signalsSubscribed'', if h_connection_state h = 1 then dm_signals_total dm else f64_zero),
          (''pollLatencyMs'', f64_of_u64 (h_poll_latency_ms h)), (''publishLatencyMs'', f64_of_u64 (h_publish_latency_ms h)),
          (''readErrors'', f64_of_u64 (h_read_errors h)), (''writeErrors'', f64_of_u64 (h_write_errors h)),
          (''staleSignals'', f64_of_u64 (h_stale_signals h)), (''reconnects'', f64_of_u64 (h_reconnects h))],
       em_now = now\<rparr>,
      drain_health h)"

definition emit_connection :: "bool \<Rightarrow> instant \<Rightarrow> device_metrics \<Rightarrow> combo \<times> device_metrics" where
  "emit_connection now t dm =
     (let (values, c) = conn_drain t (dm_conn dm) in
      (\<lparr>em_name = CONNECTION,
        em_dims = [(''instance'', dc_id (dm_device dm)), (''connectionMode'', ascii (connection_mode (dc_connection (dm_device dm))))],
        em_values = values, em_now = now\<rparr>,
       dm\<lparr>dm_conn := c\<rparr>))"

definition emit_inventory :: "device_metrics \<Rightarrow> combo list" where
  "emit_inventory dm =
     map (\<lambda>row.
       \<lparr>em_name = INVENTORY, em_dims = [(''instance'', dc_id (dm_device dm)), (''pollGroup'', iv_group row)],
        em_values = [(''configuredSignals'', iv_configured_signals row), (''arraySignals'', iv_array_signals row),
          (''writableSignals'', iv_writable_signals row), (''configuredPollIntervalMs'', iv_poll_interval_ms row),
          (''requestsPerCycle'', iv_requests_per_cycle row)],
        em_now = False\<rparr>) (dm_inventory dm)"

definition emit_poll :: "device_metrics \<Rightarrow> combo list \<times> device_metrics" where
  "emit_poll dm =
     (map (\<lambda>((g, r), c).
        \<lparr>em_name = POLL, em_dims = [(''instance'', dc_id (dm_device dm)), (''pollGroup'', g), (''result'', r)],
         em_values = fst (poll_drain c), em_now = False\<rparr>) (dm_poll dm),
      dm\<lparr>dm_poll := map (\<lambda>(k, c). (k, snd (poll_drain c))) (dm_poll dm)\<rparr>)"

definition emit_publish :: "device_metrics \<Rightarrow> combo list \<times> device_metrics" where
  "emit_publish dm =
     (map (\<lambda>(m, c).
        \<lparr>em_name = PUBLISH, em_dims = [(''instance'', dc_id (dm_device dm)), (''publishMode'', m)],
         em_values = fst (pub_drain c), em_now = False\<rparr>) (dm_publish dm),
      dm\<lparr>dm_publish := map (\<lambda>(k, c). (k, snd (pub_drain c))) (dm_publish dm)\<rparr>)"

definition emit_command :: "device_metrics \<Rightarrow> combo list \<times> device_metrics" where
  "emit_command dm =
     (map (\<lambda>((verb, r), c).
        \<lparr>em_name = COMMAND, em_dims = [(''instance'', dc_id (dm_device dm)), (''verb'', verb), (''result'', r)],
         em_values = fst (cmd_drain c), em_now = False\<rparr>) (dm_command dm),
      dm\<lparr>dm_command := map (\<lambda>(k, c). (k, snd (cmd_drain c))) (dm_command dm)\<rparr>)"

definition emit_io :: "bool \<Rightarrow> device_metrics \<Rightarrow> combo \<times> device_metrics" where
  "emit_io now dm =
     (let (values, c) = io_drain (dm_io dm) in
      (\<lparr>em_name = IO, em_dims = [(''instance'', dc_id (dm_device dm))], em_values = values, em_now = now\<rparr>,
       dm\<lparr>dm_io := c\<rparr>))"

definition emit_periodic :: "instant \<Rightarrow> device_metrics \<times> health \<Rightarrow> combo list \<times> device_metrics \<times> health" where
  "emit_periodic t dmh =
     (let (dm, h) = dmh;
          (c1, h1) = emit_health False dm h;
          (c2, dm2) = emit_connection False t dm;
          (cs3, dm3) = emit_publish dm2;
          (cs4, dm4) = emit_command dm3
      in if dm_is_push dm4 then
           let (c5, dm5) = emit_io False dm4 in ([c1, c2] @ cs3 @ cs4 @ [c5], dm5, h1)
         else
           let cs5 = emit_inventory dm4; (cs6, dm6) = emit_poll dm4 in ([c1, c2] @ cs3 @ cs4 @ cs5 @ cs6, dm6, h1))"

definition emit_now :: "instant \<Rightarrow> device_metrics \<times> health \<Rightarrow> combo list \<times> device_metrics \<times> health" where
  "emit_now t dmh =
     (let (dm, h) = dmh;
          (c1, h1) = emit_health True dm h;
          (c2, dm2) = emit_connection True t dm
      in if dm_is_push dm2 then let (c3, dm3) = emit_io True dm2 in ([c1, c2, c3], dm3, h1)
         else ([c1, c2], dm2, h1))"

text \<open>The combinations registered at startup.\<close>

definition define_all :: "device_metrics \<Rightarrow> (string \<times> (string \<times> rstr) list) list" where
  "define_all dm =
     (let inst = (''instance'', dc_id (dm_device dm)) in
      [(HEALTH, [inst]), (CONNECTION, [inst, (''connectionMode'', ascii (connection_mode (dc_connection (dm_device dm))))])] @
      map (\<lambda>mode. (PUBLISH, [inst, (''publishMode'', ascii mode)])) (dm_publish_modes dm) @
      concat (map (\<lambda>verb. map (\<lambda>r. (COMMAND, [inst, (''verb'', ascii verb), (''result'', ascii r)])) RESULTS) COMMAND_VERBS) @
      (if dm_is_push dm then [(IO, [inst])]
       else concat (map (\<lambda>row.
         (INVENTORY, [inst, (''pollGroup'', iv_group row)]) #
         map (\<lambda>r. (POLL, [inst, (''pollGroup'', iv_group row), (''result'', ascii r)])) RESULTS) (dm_inventory dm))))"

section \<open>The status views\<close>

definition json_of_f64 :: "f64 \<Rightarrow> json" where
  "json_of_f64 f = (case number_from_f64 f of Some n \<Rightarrow> JNumber n | None \<Rightarrow> JNull)"

definition pair_view :: "pair \<Rightarrow> json" where
  "pair_view p = JObject [json_field ''interval'' (json_of_f64 (pr_interval p)), json_field ''total'' (json_of_f64 (pr_total p))]"

definition sum_pairs :: "pair list \<Rightarrow> pair" where
  "sum_pairs ps =
     foldl (\<lambda>acc p. \<lparr>pr_total = f64_add (pr_total acc) (pr_total p), pr_interval = f64_add (pr_interval acc) (pr_interval p)\<rparr>)
       pair_default ps"

definition counters_view :: "device_metrics \<Rightarrow> json" where
  "counters_view dm =
     (let (read, read_errors) =
        (if dm_is_push dm then (io_frames_consumed (dm_io dm), io_timeouts (dm_io dm))
         else (sum_pairs (map (pc_tag_reads \<circ> snd) (dm_poll dm)), sum_pairs (map (pc_tag_read_errors \<circ> snd) (dm_poll dm))))
      in JObject [json_field ''read'' (pair_view read),
                  json_field ''write'' (pair_view (sum_pairs (map (cm_write_signals \<circ> snd) (dm_command dm)))),
                  json_field ''readErrors'' (pair_view read_errors)])"

definition io_view :: "device_metrics \<Rightarrow> json" where
  "io_view dm =
     (let io = dm_io dm in
      JObject [json_field ''o2tApiMs'' (json_of_u64 (ucast (io_o2t_api_ms io))),
        json_field ''t2oApiMs'' (json_of_u64 (ucast (io_t2o_api_ms io))),
        json_field ''run'' (JBool (dm_produced_run dm)), json_field ''peerRun'' (JBool (io_run_mode io)),
        json_field ''framesConsumed'' (pair_view (io_frames_consumed io)),
        json_field ''staleDropped'' (pair_view (io_stale_frames_dropped io)),
        json_field ''sequenceGaps'' (pair_view (io_sequence_gaps io)),
        json_field ''sendErrors'' (pair_view (io_send_errors io)), json_field ''recvErrors'' (pair_view (io_recv_errors io)),
        json_field ''sourceMismatchDatagrams'' (pair_view (io_source_mismatch_datagrams io)),
        json_field ''refusedRedirects'' (pair_view (io_refused_redirects io))])"

definition json_of_string_option :: "rstr option \<Rightarrow> json" where
  "json_of_string_option m = (case m of Some t \<Rightarrow> JString t | None \<Rightarrow> JNull)"

definition identity_json :: "seam_identity \<Rightarrow> json" where
  "identity_json d =
     JObject [json_field ''vendorId'' (json_of_u64 (ucast (di_vendor_id d))),
       json_field ''vendorName'' (json_of_string_option (di_vendor_name d)),
       json_field ''deviceType'' (json_of_u64 (ucast (di_device_type d))),
       json_field ''deviceTypeName'' (json_of_string_option (di_device_type_name d)),
       json_field ''productCode'' (json_of_u64 (ucast (di_product_code d))),
       json_field ''revision'' (JString (identity_revision d)),
       json_field ''serialNumber'' (JString (ascii (''0x'' @ hex_pad 8 (unat (di_serial_number d))))),
       json_field ''productName'' (JString (di_product_name d))]"

definition identity_view :: "health \<Rightarrow> json" where
  "identity_view h = (case h_identity h of Some d \<Rightarrow> identity_json d | None \<Rightarrow> JNull)"

definition dialect_view :: "health \<Rightarrow> json" where
  "dialect_view h = JObject [json_field ''tagListService'' (JString (ascii (dialect_fact_str (h_tag_list_dialect h))))]"

section \<open>The schema is what is emitted\<close>

definition conforms :: "combo \<Rightarrow> bool" where
  "conforms c =
     (case family_def_of (em_name c) of
        None \<Rightarrow> False
      | Some fd \<Rightarrow>
          map fst (em_dims c) = fd_dimensions fd \<and>
          (map fst (em_values c) = map me_name (fd_measures fd) \<or>
           map fst (em_values c) = filter (\<lambda>n. n \<noteq> ''certExpiryDays'') (map me_name (fd_measures fd))))"

lemmas family_names = HEALTH_def CONNECTION_def INVENTORY_def POLL_def PUBLISH_def COMMAND_def IO_def

lemma family_lookup:
  "family_def_of HEALTH = Some (family_defs ! 0)" "family_def_of CONNECTION = Some (family_defs ! 1)"
  "family_def_of INVENTORY = Some (family_defs ! 2)" "family_def_of POLL = Some (family_defs ! 3)"
  "family_def_of PUBLISH = Some (family_defs ! 4)" "family_def_of COMMAND = Some (family_defs ! 5)"
  "family_def_of IO = Some (family_defs ! 6)"
  by (simp_all add: family_def_of_def family_defs_def) (simp_all add: family_names)

text \<open>The names of a pair are the same in the schema and in what is drained, and none is the expiry gauge.\<close>

lemma pair_names: "map fst (pair_out p x) = map me_name (pair_def p)"
  by (simp add: pair_out_def pair_def_def msr_def)

lemma pair_defs_simps: "pair_defs [] = []" "pair_defs (p # ps) = pair_def p @ pair_defs ps"
  by (simp_all add: pair_defs_def)

lemma pair_names_kept: "filter (\<lambda>n. n \<noteq> ''certExpiryDays'') (map me_name (pair_def p)) = map me_name (pair_def p)"
proof -
  have "q \<noteq> ''certExpiryDays''" if "List.last q = CHR ''l''" for q :: string using that by auto
  then show ?thesis by (simp add: pair_def_def msr_def)
qed

lemma conformsI:
  "family_def_of (em_name c) = Some fd \<Longrightarrow> map fst (em_dims c) = fd_dimensions fd \<Longrightarrow>
   map fst (em_values c) = map me_name (fd_measures fd) \<or>
     map fst (em_values c) = filter (\<lambda>n. n \<noteq> ''certExpiryDays'') (map me_name (fd_measures fd)) \<Longrightarrow> conforms c"
  by (simp add: conforms_def)

lemmas schema_simps = family_lookup family_defs_def pair_names pair_defs_simps msr_def

lemma conforms_health: "conforms (fst (emit_health now dm h))"
  by (rule conformsI [of _ "family_defs ! 0"]) (simp_all add: emit_health_def schema_simps)

lemma conforms_connection: "conforms (fst (emit_connection now t dm))"
proof (rule conformsI [of _ "family_defs ! 1"])
  show "map fst (em_values (fst (emit_connection now t dm))) = map me_name (fd_measures (family_defs ! 1)) \<or>
      map fst (em_values (fst (emit_connection now t dm))) =
        filter (\<lambda>n. n \<noteq> ''certExpiryDays'') (map me_name (fd_measures (family_defs ! 1)))"
  proof (cases "co_cert_expiry_days (accrue t (dm_conn dm))")
    case None
    have "map fst (em_values (fst (emit_connection now t dm))) =
        filter (\<lambda>n. n \<noteq> ''certExpiryDays'') (map me_name (fd_measures (family_defs ! 1)))"
      by (simp only: family_defs_def nth_Cons_0 nth_Cons_Suc One_nat_def family_def.simps pair_defs_simps map_append
          filter_append pair_names_kept) (simp add: emit_connection_def conn_drain_def Let_def None pair_names msr_def)
    then show ?thesis ..
  next
    case (Some days)
    then have "map fst (em_values (fst (emit_connection now t dm))) = map me_name (fd_measures (family_defs ! 1))"
      by (simp add: emit_connection_def conn_drain_def Let_def schema_simps)
    then show ?thesis ..
  qed
qed (simp_all add: emit_connection_def conn_drain_def Let_def schema_simps)

lemma conforms_io: "conforms (fst (emit_io now dm))"
  by (rule conformsI [of _ "family_defs ! 6"]) (simp_all add: emit_io_def io_drain_def schema_simps)

lemma conforms_inventory: "list_all conforms (emit_inventory dm)"
proof (clarsimp simp: emit_inventory_def list_all_iff)
  fix row
  show "conforms \<lparr>em_name = INVENTORY, em_dims = [(''instance'', dc_id (dm_device dm)), (''pollGroup'', iv_group row)],
      em_values = [(''configuredSignals'', iv_configured_signals row), (''arraySignals'', iv_array_signals row),
        (''writableSignals'', iv_writable_signals row), (''configuredPollIntervalMs'', iv_poll_interval_ms row),
        (''requestsPerCycle'', iv_requests_per_cycle row)], em_now = False\<rparr>"
    by (rule conformsI [of _ "family_defs ! 2"]) (simp_all add: schema_simps)
qed

lemma conforms_poll: "list_all conforms (fst (emit_poll dm))"
  unfolding emit_poll_def list_all_iff
  by (clarsimp, rule conformsI [of _ "family_defs ! 3"]) (simp_all add: poll_drain_def schema_simps)

lemma conforms_publish: "list_all conforms (fst (emit_publish dm))"
  unfolding emit_publish_def list_all_iff
  by (clarsimp, rule conformsI [of _ "family_defs ! 4"]) (simp_all add: pub_drain_def schema_simps)

lemma conforms_command: "list_all conforms (fst (emit_command dm))"
  unfolding emit_command_def list_all_iff
  by (clarsimp, rule conformsI [of _ "family_defs ! 5"]) (simp_all add: cmd_drain_def schema_simps)

text \<open>
  C38. Whatever the counters hold, every combination that is emitted, periodically or on a transition, belongs
  to a declared family, carries exactly its dimension keys and exactly its measures in their order; only
  the expiry gauge may be missing.
\<close>

theorem emitted_combos_conform:
  "list_all conforms (fst (emit_periodic t dmh)) \<and> list_all conforms (fst (emit_now t dmh))"
proof -
  obtain dm h where d: "dmh = (dm, h)" by fastforce
  obtain c1 h1 where e1: "emit_health False dm h = (c1, h1)" by fastforce
  obtain c2 dm2 where e2: "emit_connection False t dm = (c2, dm2)" by fastforce
  obtain cs3 dm3 where e3: "emit_publish dm2 = (cs3, dm3)" by fastforce
  obtain cs4 dm4 where e4: "emit_command dm3 = (cs4, dm4)" by fastforce
  obtain c5 dm5 where e5: "emit_io False dm4 = (c5, dm5)" by fastforce
  obtain cs6 dm6 where e6: "emit_poll dm4 = (cs6, dm6)" by fastforce
  have "conforms c1" "conforms c2" "list_all conforms cs3" "list_all conforms cs4" "conforms c5" "list_all conforms cs6"
    using conforms_health [of False dm h] conforms_connection [of False t dm] conforms_publish [of dm2]
      conforms_command [of dm3] conforms_io [of False dm4] conforms_poll [of dm4] e1 e2 e3 e4 e5 e6 by simp_all
  then have "list_all conforms (fst (emit_periodic t dmh))"
    by (simp add: emit_periodic_def d e1 e2 e3 e4 e5 e6 conforms_inventory)
  moreover have "list_all conforms (fst (emit_now t dmh))"
    using conforms_health [of True dm h] conforms_connection [of True t dm] conforms_io [of True]
    by (simp add: emit_now_def d Let_def case_prod_beta)
  ultimately show ?thesis by blast
qed

section \<open>Totals and intervals\<close>

lemma f64_add_exact:
  assumes "a + b \<le> 2 ^ 53"
  shows "f64_add (f64_of_nat a) (f64_of_nat b) = f64_of_nat (a + b)"
proof -
  have e: "f64_of_nat a = Finite False (of_nat a)" "f64_of_nat b = Finite False (of_nat b)"
    "f64_of_nat (a + b) = Finite False (of_nat (a + b))"
    using f64_of_nat_exact [of a] f64_of_nat_exact [of b] f64_of_nat_exact [OF assms] assms by (simp_all add: f64_of_nat_def)
  show ?thesis
  proof (cases "a + b = 0")
    case True
    with e show ?thesis by simp
  next
    case False
    have "f64_add (f64_of_nat a) (f64_of_nat b) = f64_of_rat (of_nat (a + b))"
      using False unfolding e by (auto simp: Let_def)
    also have "\<dots> = f64_of_nat (a + b)" by (simp add: f64_of_nat_def f64_of_int_def)
    finally show ?thesis .
  qed
qed

datatype pair_op = PairAdd nat | PairDrain

text \<open>A counter's history: the intervals it emitted, and where it stands.\<close>

fun pair_run :: "pair_op list \<Rightarrow> pair \<Rightarrow> f64 list \<times> pair" where
  "pair_run [] p = ([], p)"
| "pair_run (PairAdd n # ops) p = pair_run ops (pair_add (f64_of_nat n) p)"
| "pair_run (PairDrain # ops) p = (let (out, q) = pair_run ops (pair_reset p) in (pr_interval p # out, q))"

fun added_total :: "pair_op list \<Rightarrow> nat" where
  "added_total [] = 0"
| "added_total (PairAdd n # ops) = n + added_total ops"
| "added_total (PairDrain # ops) = added_total ops"

lemma pair_run_from:
  assumes "pair_run ops p = (out, q)" "pr_total p = f64_of_nat T" "pr_interval p = f64_of_nat I" "I \<le> T"
    and "T + added_total ops \<le> 2 ^ 53"
  shows "\<exists>ns n. out = map f64_of_nat ns \<and> pr_interval q = f64_of_nat n \<and> pr_total q = f64_of_nat (T + added_total ops) \<and>
    sum_list ns + n = I + added_total ops"
  using assms
proof (induction ops arbitrary: p T I out rule: added_total.induct)
  case 1
  then show ?case by (auto intro: exI [of _ "[]"])
next
  case (2 n ops)
  have "\<exists>ns k. out = map f64_of_nat ns \<and> pr_interval q = f64_of_nat k \<and> pr_total q = f64_of_nat (T + n + added_total ops) \<and>
    sum_list ns + k = I + n + added_total ops"
    by (rule "2.IH" [of "pair_add (f64_of_nat n) p"]) (use "2.prems" in \<open>auto simp: pair_add_def f64_add_exact\<close>)
  then show ?case by (simp add: add.assoc)
next
  case (3 ops)
  obtain out' where o: "pair_run ops (pair_reset p) = (out', q)" "out = pr_interval p # out'"
    using "3.prems"(1) by (auto split: prod.splits)
  have z: "f64_zero = f64_of_nat 0" using f64_of_nat_exact [of 0] by (simp add: f64_of_nat_def f64_zero_def)
  have "\<exists>ns k. out' = map f64_of_nat ns \<and> pr_interval q = f64_of_nat k \<and> pr_total q = f64_of_nat (T + added_total ops) \<and>
    sum_list ns + k = 0 + added_total ops"
    by (rule "3.IH" [OF o(1)]) (use "3.prems" z in \<open>auto simp: pair_reset_def\<close>)
  then obtain ns k where h: "out' = map f64_of_nat ns" "pr_interval q = f64_of_nat k"
    "pr_total q = f64_of_nat (T + added_total ops)" "sum_list ns + k = added_total ops" by auto
  show ?case
    by (rule exI [of _ "I # ns"], rule exI [of _ k]) (use h o(2) "3.prems"(3) in auto)
qed



section \<open>The counters of the stack, folded in\<close>

fun stats_run :: "io_link_stats list \<Rightarrow> io_counters \<Rightarrow> bool list \<times> io_counters" where
  "stats_run [] io = ([], io)"
| "stats_run (s # ss) io =
     (let (b, io1) = record_io_stats s io; (bs, io2) = stats_run ss io1 in (b # bs, io2))"

lemma stats_run_flat:
  assumes "stats_run ss io = (bs, io')" "\<forall>s \<in> set ss. ls_refused_redirects s = io_last_stats_refused_redirects io"
  shows "bs = replicate (length ss) False"
  using assms
proof (induction ss arbitrary: io bs)
  case (Cons s ss)
  obtain b io1 where r: "record_io_stats s io = (b, io1)" by fastforce
  obtain bs1 where q: "stats_run ss io1 = (bs1, io')" "bs = b # bs1" using Cons.prems(1) r by (auto split: prod.splits)
  have "b = False" "io_last_stats_refused_redirects io1 = io_last_stats_refused_redirects io"
    using r Cons.prems(2) by (auto simp: record_io_stats_def feed_delta_def)
  with Cons.IH [OF q(1)] Cons.prems(2) q(2) show ?case by simp
qed simp

text \<open>
  A refused redirect is reported once per connection: over the snapshots of one class 1 connection, whose
  counter rises from 0 to 1 and stays, exactly the first snapshot that shows it reports, whichever way the
  connection before it ended.
\<close>

theorem redirect_reported_once:
  assumes "io0 = on_io_lost io \<or> io0 = on_io_link_replaced io"
    and "\<forall>s \<in> set before. ls_refused_redirects s = 0" "\<forall>s \<in> set after. ls_refused_redirects s = 1" "after \<noteq> []"
  shows "fst (stats_run (before @ after) io0) = replicate (length before) False @ True # replicate (length after - 1) False"
proof -
  have app: "fst (stats_run (xs @ ys) c) = fst (stats_run xs c) @ fst (stats_run ys (snd (stats_run xs c)))" for xs ys c
    by (induction xs arbitrary: c) (auto simp: Let_def split_def)
  have keep: "\<forall>s \<in> set xs. ls_refused_redirects s = 0 \<Longrightarrow> io_last_stats_refused_redirects c = 0 \<Longrightarrow>
      io_last_stats_refused_redirects (snd (stats_run xs c)) = 0" for xs c
    by (induction xs arbitrary: c) (auto simp: record_io_stats_def Let_def split_def)
  have z: "io_last_stats_refused_redirects io0 = 0"
    using assms(1) by (auto simp: on_io_lost_def on_io_link_replaced_def end_connection_def)
  let ?c = "snd (stats_run before io0)"
  obtain a rest where a: "after = a # rest" using assms(4) by (cases after) auto
  obtain b c1 where r: "record_io_stats a ?c = (b, c1)" by fastforce
  have b: "b" "io_last_stats_refused_redirects c1 = 1"
    using r keep [OF assms(2) z] assms(3) a by (auto simp: record_io_stats_def feed_delta_def)
  obtain bs c2 where t: "stats_run rest c1 = (bs, c2)" by fastforce
  have "bs = replicate (length rest) False" by (rule stats_run_flat [OF t]) (use assms(3) a b in auto)
  moreover have "fst (stats_run before io0) = replicate (length before) False"
    by (rule stats_run_flat [of before io0 _ ?c]) (use assms(2) z in auto)
  ultimately show ?thesis using app a r t b(1) by (simp add: split_def)
qed

definition example_stats :: "u64 \<Rightarrow> io_link_stats" where
  "example_stats r = \<lparr>ls_frames_produced = 5, ls_stale_frames = 0, ls_size_mismatch = 0, ls_sequence_gaps = 0,
     ls_malformed_frames = 0, ls_produce_overruns = 0, ls_send_errors = 0, ls_recv_errors = 0,
     ls_source_mismatch_datagrams = 0, ls_refused_redirects = r\<rparr>"

theorem redirect_reported_once_witness:
  "fst (stats_run ([example_stats 0] @ [example_stats 1, example_stats 1]) (on_io_link_replaced io_default)) = [False, True, False]"
  using redirect_reported_once [of "on_io_link_replaced io_default" io_default "[example_stats 0]" "[example_stats 1, example_stats 1]"]
  by (simp add: example_stats_def)

end
