(* ===== verification/Delivery.thy ===== *)
theory Delivery
  imports Publish Metrics
begin

text \<open>
  What the two engine loops share: their observable effects, in order, and the loop that publishes what an
  engine handed out and settles each signal with the outcome. The publish routine is an interface with two
  laws, which the poll loop and the push loop each provide; that the baselines follow the bus is shown here
  once.
\<close>

section \<open>Effects\<close>

datatype effect =
    Published rstr "sample list" bool
  | ReadGroup "rstr list"
  | Replied reply_to reply
  | Evented event
  | MetricPublish string nat bool u64 bool
  | MetricPollCycle rstr bool u64 u64 bool u64 u64 u64 u64 u64
  | MetricsEmitted
  | SessionClosed
  | Rebased "(rstr \<times> json) list"

text \<open>\<open>Rebased\<close> marks the point at which a resume takes the current snapshot as the baselines.\<close>

type_synonym sink_result = "(rstr + unit) \<times> duration"

definition as_millis_u64 :: "duration \<Rightarrow> u64" where
  "as_millis_u64 t = (if t div 1000000 < 2 ^ 64 then of_nat (t div 1000000) else - 1)"

text \<open>Publishing the samples of one signal: the counters on either outcome, and whether they reached the bus.\<close>

definition publish_result ::
    "rstr \<Rightarrow> sample list \<Rightarrow> string \<Rightarrow> bool \<Rightarrow> sink_result \<Rightarrow> health \<Rightarrow> bool \<times> effect list \<times> health" where
  "publish_result i samples mode from_batch res h =
     (let n = length samples; ms = as_millis_u64 (snd res) in
      case fst res of
        Inr _ \<Rightarrow>
          (True, [Published i samples True, MetricPublish mode n from_batch ms True],
           h\<lparr>h_signals_published := h_signals_published h + of_nat n, h_publish_latency_ms := ms\<rparr>)
      | Inl _ \<Rightarrow>
          (False, [Published i samples False, MetricPublish mode n from_batch ms False], h))"

text \<open>The loop over what an engine handed out: publish, then settle, one by one; \<open>k\<close> numbers the publishes of a step.\<close>

fun deliver_with ::
    "(nat \<Rightarrow> rstr \<Rightarrow> sample list \<Rightarrow> health \<Rightarrow> bool \<times> effect list \<times> health) \<Rightarrow> nat \<Rightarrow> publish list \<Rightarrow> engine \<times> health \<Rightarrow>
     effect list \<times> engine \<times> health" where
  "deliver_with pub k [] (e, h) = ([], e, h)"
| "deliver_with pub k (p # ps) (e, h) =
     (let (sent, effs, h1) = pub k (pb_signal_id p) (pb_samples p) h;
          (rest, e2, h2) = deliver_with pub (Suc k) ps (settle (pb_signal_id p) sent e, h1)
      in (effs @ rest, e2, h2))"

section \<open>What reached the bus\<close>

text \<open>The samples of a signal whose publish was confirmed.\<close>

definition confirmed :: "effect list \<Rightarrow> rstr \<Rightarrow> sample list" where
  "confirmed hist i = concat (map (\<lambda>x. case x of Published j ss True \<Rightarrow> if j = i then ss else [] | _ \<Rightarrow> []) hist)"

definition bus :: "effect list \<Rightarrow> rstr \<Rightarrow> json option" where
  "bus hist i = last_good (confirmed hist i)"

fun is_publish :: "effect \<Rightarrow> bool" where
  "is_publish (Published _ _ _) = True"
| "is_publish _ = False"

fun is_rebase :: "effect \<Rightarrow> bool" where
  "is_rebase (Rebased _) = True"
| "is_rebase _ = False"

fun is_delivery :: "effect \<Rightarrow> bool" where
  "is_delivery (Published _ _ _) = True"
| "is_delivery (MetricPublish _ _ _ _ _) = True"
| "is_delivery _ = False"

fun is_cycle :: "effect \<Rightarrow> bool" where
  "is_cycle (MetricPollCycle _ _ _ _ _ _ _ _ _ _) = True"
| "is_cycle _ = False"

lemma delivery_calm: "list_all is_delivery effs \<Longrightarrow> list_all (\<lambda>x. \<not> is_rebase x) effs"
proof -
  have "is_delivery x \<Longrightarrow> \<not> is_rebase x" for x by (cases x) auto
  then show "list_all is_delivery effs \<Longrightarrow> list_all (\<lambda>x. \<not> is_rebase x) effs" by (auto simp: list_all_iff)
qed

lemma confirmed_simps [simp]:
  "confirmed [] i = []"
  "confirmed (xs @ ys) i = confirmed xs i @ confirmed ys i"
  "confirmed (Published j ss sent # xs) i = (if sent \<and> j = i then ss else []) @ confirmed xs i"
  by (auto simp: confirmed_def split: bool.splits)

lemma confirmed_skip [simp]: "\<not> is_publish x \<Longrightarrow> confirmed (x # xs) i = confirmed xs i"
  by (cases x) (simp_all add: confirmed_def)

lemma confirmed_none: "list_all (\<lambda>x. \<not> is_publish x) xs \<Longrightarrow> confirmed xs i = []"
  by (induction xs) auto

text \<open>What a baseline map becomes when the confirmed publishes of \<open>effs\<close> are taken into account.\<close>

definition advance :: "(rstr \<Rightarrow> json option) \<Rightarrow> effect list \<Rightarrow> rstr \<Rightarrow> json option" where
  "advance base effs i = published (base i) (confirmed effs i) True"

lemma advance_append: "advance base (xs @ ys) = advance (advance base xs) ys"
  by (auto simp: advance_def published_def last_good_append fun_eq_iff split: option.splits)

lemma advance_quiet: "list_all (\<lambda>x. \<not> is_publish x) xs \<Longrightarrow> advance base xs = base"
  by (auto simp: advance_def published_def confirmed_none fun_eq_iff)

lemma bus_advance: "bus (hist @ effs) = advance (bus hist) effs"
  by (auto simp: bus_def advance_def published_def last_good_append fun_eq_iff)

lemma bus_append: "bus (hist @ effs) i = published (bus hist i) (confirmed effs i) True"
  by (simp add: bus_def published_def last_good_append)

lemma bus_skip: "confirmed effs = (\<lambda>_. []) \<Longrightarrow> bus (hist @ effs) = bus hist"
  by (auto simp: bus_append published_def)

lemma confirmed_quiet: "list_all (\<lambda>x. \<not> is_publish x) effs \<Longrightarrow> confirmed effs = (\<lambda>_. [])"
  by (auto simp: confirmed_none)

lemma bus_quiet: "list_all (\<lambda>x. \<not> is_publish x) effs \<Longrightarrow> bus (hist @ effs) = bus hist"
  by (simp add: bus_skip confirmed_quiet)

lemma out_samples_drop: "i \<notin> pb_signal_id ` set ps \<Longrightarrow> pb_signal_id p = i \<Longrightarrow> (out_samples (p # ps))(i := []) = out_samples ps"
  by (auto simp: out_samples_notin)

lemma publish_result_effects:
  "publish_result i ss mode fb res h = (sent, effs, h') \<Longrightarrow>
   confirmed effs j = (if sent \<and> j = i then ss else []) \<and> sent = (\<exists>u. fst res = Inr u) \<and> h_paused h' = h_paused h \<and>
   list_all is_delivery effs"
  by (auto simp: publish_result_def Let_def split: sum.splits)

section \<open>The interface of a publish routine\<close>

text \<open>
  What a loop relies on: the bus gains the samples of the one signal exactly when the routine reports that
  they were sent, nothing else is done, and the pause flag is left alone.
\<close>

locale publisher =
  fixes pub :: "nat \<Rightarrow> rstr \<Rightarrow> sample list \<Rightarrow> health \<Rightarrow> bool \<times> effect list \<times> health"
  assumes pub_confirms: "pub k i ss h = (sent, effs, h') \<Longrightarrow> confirmed effs j = (if sent \<and> j = i then ss else [])"
    and pub_pause: "pub k i ss h = (sent, effs, h') \<Longrightarrow> h_paused h' = h_paused h"
    and pub_only: "pub k i ss h = (sent, effs, h') \<Longrightarrow> list_all is_delivery effs"
begin

lemma deliver_only: "deliver_with pub k pubs (e, h) = (effs, e', h') \<Longrightarrow> list_all is_delivery effs"
proof (induction pubs arbitrary: e h k effs e' h')
  case (Cons p ps)
  obtain sent effs1 h1 where p: "pub k (pb_signal_id p) (pb_samples p) h = (sent, effs1, h1)" by (metis prod_cases3)
  obtain rest e2 h2 where r: "deliver_with pub (Suc k) ps (settle (pb_signal_id p) sent e, h1) = (rest, e2, h2)"
    by (metis prod_cases3)
  have "effs = effs1 @ rest" using Cons.prems p r by (auto simp: Let_def)
  with pub_only [OF p] Cons.IH [OF r] show ?case by simp
qed simp

lemma deliver_tracks:
  assumes "deliver_with pub k pubs (e, h) = (effs, e', h')"
    and "tracks base (out_samples pubs) e" "distinct (map pb_signal_id pubs)" "\<forall>p \<in> set pubs. pb_samples p \<noteq> []"
  shows "tracks (advance base effs) (\<lambda>_. []) e' \<and> (unbatched e \<longrightarrow> unbatched e') \<and> h_paused h' = h_paused h"
  using assms
proof (induction pubs arbitrary: base e h k effs e' h')
  case Nil
  have "out_samples [] = (\<lambda>_. [])" "advance base [] = base" by (auto simp: advance_quiet)
  with Nil show ?case by simp
next
  case (Cons p ps)
  let ?i = "pb_signal_id p"
  obtain sent effs1 h1 where p: "pub k ?i (pb_samples p) h = (sent, effs1, h1)" by (metis prod_cases3)
  obtain rest e2 h2 where r: "deliver_with pub (Suc k) ps (settle ?i sent e, h1) = (rest, e2, h2)" by (metis prod_cases3)
  have eq: "effs = effs1 @ rest" "e' = e2" "h' = h2" using Cons.prems(1) p r by (auto simp: Let_def)
  have ni: "?i \<notin> pb_signal_id ` set ps" using Cons.prems(3) by simp
  then have out: "out_samples (p # ps) ?i = pb_samples p" by (simp add: out_samples_notin)
  have "advance base effs1 = base(?i := published (base ?i) (pb_samples p) sent)"
    using pub_confirms [OF p] by (auto simp: advance_def published_def)
  then have t: "tracks (advance base effs1) (out_samples ps) (settle ?i sent e)"
    using tracks_settle [OF Cons.prems(2), of ?i sent] Cons.prems(4)
    unfolding out_samples_drop [OF ni refl] out by simp
  have "distinct (map pb_signal_id ps)" "\<forall>p \<in> set ps. pb_samples p \<noteq> []" using Cons.prems(3,4) by auto
  from Cons.IH [OF r t this] pub_pause [OF p] unbatched_settle [of e ?i sent] show ?case by (simp add: eq advance_append)
qed

lemma deliver_confirms_all:
  assumes "deliver_with pub k pubs (e, h) = (effs, e', h')"
    and "\<And>p k h. p \<in> set pubs \<Longrightarrow> fst (pub k (pb_signal_id p) (pb_samples p) h)"
  shows "confirmed effs i = out_samples pubs i"
  using assms
proof (induction pubs arbitrary: e h k effs e' h')
  case (Cons p ps)
  let ?i = "pb_signal_id p"
  obtain sent effs1 h1 where p: "pub k ?i (pb_samples p) h = (sent, effs1, h1)" by (metis prod_cases3)
  obtain rest e2 h2 where r: "deliver_with pub (Suc k) ps (settle ?i sent e, h1) = (rest, e2, h2)" by (metis prod_cases3)
  have eq: "effs = effs1 @ rest" using Cons.prems(1) p r by (auto simp: Let_def)
  have "sent" using Cons.prems(2) [of p k h] p by simp
  then show ?case using pub_confirms [OF p, of i] Cons.IH [OF r] Cons.prems(2) by (auto simp: eq)
qed simp

end

text \<open>What an engine hands out carries samples.\<close>

lemma accept_out: "accept_reading batch_ms now ts r st = (out, st') \<Longrightarrow>
    out = (if batch_ms = 0 then Some [sample_of (rd_value r) (rd_quality r) (rd_quality_raw r) (Some ts)] else None)"
  by (auto simp: accept_reading_def batcher_add_def Let_def split: if_splits)

lemma poll_reading_out:
  "poll_reading mode batch_ms now ts db r st h = (out, st', h') \<Longrightarrow> out \<noteq> Some [] \<and> h_paused h' = h_paused h"
  by (auto simp: poll_reading_def Let_def count_poll_quality_def count_changed_def count_suppressed_def
      split: if_splits prod.splits quality.splits dest!: accept_out)

lemma push_reading_out:
  "push_reading mode sample_ms batch_ms now ts db r st h = (out, st', h') \<Longrightarrow> out \<noteq> Some [] \<and> h_paused h' = h_paused h"
  by (auto simp: push_reading_def Let_def count_push_quality_def count_changed_def count_suppressed_def
      split: if_splits prod.splits quality.splits dest!: accept_out)

end
