(* ===== verification/Poll_Driver.thy ===== *)
theory Poll_Driver
  imports Delivery Step_System
begin

text \<open>
  The poll loop (\<^verbatim>\<open>poll_driver.rs\<close>): one iteration of the select loop as a step on the driver's state.
  What the loop awaits is an input: which arm of the select woke, the answers of the device, the
  outcome and latency of each publish, the clock and the order in which the hash map of signals is
  walked. What the loop does is logged as effects, in order.
\<close>

section \<open>State, inputs, effects\<close>

record driver =
  dr_engine :: engine
  dr_deadlines :: "instant list"
  dr_since_health :: instant
  dr_since_keepalive :: instant
  dr_paused :: bool
  dr_health :: health

datatype poll_exit = LinkLost | Reconnect reply_to | Stopped

record step_env =
  ev_now :: instant
  ev_now2 :: "nat \<Rightarrow> instant"
  ev_server_ts :: "nat \<Rightarrow> rstr"
  ev_elapsed :: duration
  ev_order :: "rstr list"
  ev_read :: "nat \<Rightarrow> device_error + reading list"
  ev_write :: "device_error + unit"
  ev_probe :: "device_error + unit"
  ev_browse :: "device_error + browse_page"
  ev_sink :: "nat \<Rightarrow> sink_result"

datatype wake = WkCancel | WkControl "device_control option" | WkTick

section \<open>Resolved settings\<close>

definition intervals :: "device_config \<Rightarrow> global_config \<Rightarrow> duration list" where
  "intervals cfg global = map (\<lambda>g. from_millis (unat (max (effective_poll_ms cfg g global) 1))) (dc_poll_groups cfg)"

definition modes :: "device_config \<Rightarrow> global_config \<Rightarrow> publish_mode list" where
  "modes cfg global = map (\<lambda>g. effective_publish_mode cfg g global) (dc_poll_groups cfg)"

definition mode_of :: "device_config \<Rightarrow> global_config \<Rightarrow> rstr \<Rightarrow> string option" where
  "mode_of cfg global =
     map_of (rev (concat (map (\<lambda>g. map (\<lambda>s. (sg_tag_path s, publish_mode_str (effective_publish_mode cfg g global)))
       (pg_signals g)) (dc_poll_groups cfg))))"

definition metrics_interval :: "global_config \<Rightarrow> duration" where
  "metrics_interval global = unat (max (gc_metrics_interval_secs global) 1) * 1000000000"

definition keepalive_interval :: "global_config \<Rightarrow> duration" where
  "keepalive_interval global = from_millis (unat (max (ht_keepalive_probe_interval_ms (gc_health_thresholds global)) 1))"

definition driver_init :: "device_config \<Rightarrow> global_config \<Rightarrow> instant \<Rightarrow> health \<Rightarrow> driver" where
  "driver_init cfg global start h =
     \<lparr>dr_engine = engine_new start, dr_deadlines = map (\<lambda>d. start + d) (intervals cfg global),
      dr_since_health = start, dr_since_keepalive = start, dr_paused = h_paused h, dr_health = h\<rparr>"

text \<open>The instant the loop sleeps until.\<close>

definition next_wake :: "device_config \<Rightarrow> global_config \<Rightarrow> rstr list \<Rightarrow> driver \<Rightarrow> instant" where
  "next_wake cfg global order d =
     (let w = dr_since_health d + metrics_interval global in
      if dr_paused d then min w (dr_since_keepalive d + keepalive_interval global)
      else
        let w1 = min w (Min (set (dr_deadlines d))) in
        case next_batch_deadline order (effective_batch_ms cfg global) (dr_engine d) of
          Some t \<Rightarrow> min w1 t
        | None \<Rightarrow> w1)"

section \<open>Publishing\<close>

definition publish_samples ::
    "signal_spec \<Rightarrow> sample list \<Rightarrow> string \<Rightarrow> bool \<Rightarrow> sink_result \<Rightarrow> health \<Rightarrow> bool \<times> effect list \<times> health" where
  "publish_samples spec samples mode from_batch res h = publish_result (sg_tag_path spec) samples mode from_batch res h"

definition publish_by_id ::
    "device_config \<Rightarrow> rstr \<Rightarrow> sample list \<Rightarrow> string \<Rightarrow> bool \<Rightarrow> sink_result \<Rightarrow> health \<Rightarrow> bool \<times> effect list \<times> health" where
  "publish_by_id cfg i samples mode from_batch res h =
     (case find_signal cfg i of
        None \<Rightarrow> (False, [], h)
      | Some spec \<Rightarrow> publish_samples spec samples mode from_batch res h)"

text \<open>What the engine handed out is published under the mode of its signal's group.\<close>

definition poll_publish ::
    "device_config \<Rightarrow> global_config \<Rightarrow> string \<Rightarrow> bool \<Rightarrow> (nat \<Rightarrow> sink_result) \<Rightarrow> nat \<Rightarrow> rstr \<Rightarrow> sample list \<Rightarrow> health \<Rightarrow>
     bool \<times> effect list \<times> health" where
  "poll_publish cfg global fallback from_batch sink k i samples h =
     publish_by_id cfg i samples (unwrap_or (mode_of cfg global i) fallback) from_batch (sink k) h"

definition deliver_all ::
    "device_config \<Rightarrow> global_config \<Rightarrow> string \<Rightarrow> bool \<Rightarrow> (nat \<Rightarrow> sink_result) \<Rightarrow> nat \<Rightarrow> publish list \<Rightarrow> engine \<times> health \<Rightarrow>
     effect list \<times> engine \<times> health" where
  "deliver_all cfg global fallback from_batch sink = deliver_with (poll_publish cfg global fallback from_batch sink)"

section \<open>One group, all groups\<close>

definition sample_snapshot :: "health \<Rightarrow> u64 list" where
  "sample_snapshot h = [h_samples_good h, h_samples_bad h, h_samples_uncertain h, h_samples_changed h, h_samples_suppressed h]"

definition delta_since :: "u64 list \<Rightarrow> u64 list \<Rightarrow> u64 list" where
  "delta_since after before = map2 (-) after before"

definition group_label :: "poll_group \<Rightarrow> rstr" where
  "group_label g = unwrap_or (pg_id g) (ascii ''group'')"

definition bump_read_errors :: "health \<Rightarrow> health" where
  "bump_read_errors h = h\<lparr>h_read_errors := h_read_errors h + 1\<rparr>"

text \<open>The service of one due group: read, gate, publish, account. \<open>k\<close> counts the publishes of the step so far.\<close>

definition poll_one ::
    "device_config \<Rightarrow> global_config \<Rightarrow> step_env \<Rightarrow> nat \<Rightarrow> nat \<Rightarrow> engine \<times> health \<Rightarrow>
     effect list \<times> (engine \<times> health) \<times> poll_exit option" where
  "poll_one cfg global env k idx eh =
     (let (e, h) = eh; g = dc_poll_groups cfg ! idx; mode = modes cfg global ! idx;
          interval = intervals cfg global ! idx; tags = of_nat (length (pg_signals g));
          reads = [ReadGroup (map sg_tag_path (pg_signals g))]
      in case ev_read env 0 of
           Inl _ \<Rightarrow>
             (reads @ [MetricPollCycle (group_label g) False 0 tags False 0 0 0 0 0, SessionClosed],
              (e, bump_read_errors h), Some LinkLost)
         | Inr readings \<Rightarrow>
             let h1 = record_observed readings h;
                 ms = as_millis_u64 (ev_elapsed env);
                 h2 = record_cycle (ev_elapsed env) interval (h1\<lparr>h_poll_latency_ms := ms\<rparr>);
                 (pubs, e3, h3) = process_group g mode (effective_batch_ms cfg global) readings (ev_now2 env 0)
                   (ev_server_ts env 0) (e, h2);
                 (effs, e4, h4) = deliver_all cfg global (publish_mode_str mode) False (ev_sink env) k pubs (e3, h3);
                 dl = delta_since (sample_snapshot h4) (sample_snapshot h)
             in (reads @ effs @
                   [MetricPollCycle (group_label g) True ms tags (cycle_overran (ev_elapsed env) interval)
                      (dl ! 0) (dl ! 1) (dl ! 2) (dl ! 3) (dl ! 4)],
                 (e4, h4), None))"

fun repoll_groups ::
    "device_config \<Rightarrow> global_config \<Rightarrow> step_env \<Rightarrow> nat \<Rightarrow> nat \<Rightarrow> poll_group list \<Rightarrow> u64 \<Rightarrow> engine \<times> health \<Rightarrow>
     effect list \<times> (engine \<times> health) \<times> (rstr + u64)" where
  "repoll_groups cfg global env k idx [] polled eh = ([], eh, Inr polled)"
| "repoll_groups cfg global env k idx (g # gs) polled (e, h) =
     (case ev_read env idx of
        Inl err \<Rightarrow> ([ReadGroup (map sg_tag_path (pg_signals g))], (e, h), Inl (device_error_display err))
      | Inr readings \<Rightarrow>
          let mode = modes cfg global ! idx;
              h1 = record_observed readings h;
              (pubs, e2, h2) = process_group g mode (effective_batch_ms cfg global) readings (ev_now2 env idx)
                (ev_server_ts env idx) (e, h1);
              (effs, e3, h3) = deliver_all cfg global (publish_mode_str mode) False (ev_sink env) k pubs (e2, h2);
              (rest, eh4, res) = repoll_groups cfg global env (k + length pubs) (Suc idx) gs
                (polled + of_nat (length (pg_signals g))) (e3, h3)
          in (ReadGroup (map sg_tag_path (pg_signals g)) # effs @ rest, eh4, res))"

section \<open>The control arm\<close>

definition with_eh :: "driver \<Rightarrow> engine \<times> health \<Rightarrow> driver" where
  "with_eh d eh = d\<lparr>dr_engine := fst eh, dr_health := snd eh\<rparr>"

definition poll_control ::
    "device_config \<Rightarrow> global_config \<Rightarrow> step_env \<Rightarrow> device_control \<Rightarrow> driver \<Rightarrow> effect list \<times> driver \<times> poll_exit option" where
  "poll_control cfg global env ctl d =
     (let h = dr_health d in
      case ctl of
        CtlWrite sig v r \<Rightarrow>
          (case ev_write env of
             Inr _ \<Rightarrow> ([Replied r (RepWrite (Inr ()))], d, None)
           | Inl err \<Rightarrow>
               ([Replied r (RepWrite (Inl (device_error_display err)))],
                d\<lparr>dr_health := h\<lparr>h_write_errors := h_write_errors h + 1\<rparr>\<rparr>, None))
      | CtlReadNow specs r \<Rightarrow>
          (case ev_read env 0 of
             Inr readings \<Rightarrow>
               ([ReadGroup (map sg_tag_path specs), Replied r (RepReadings (Inr readings))],
                d\<lparr>dr_health := record_observed readings h\<rparr>, None)
           | Inl err \<Rightarrow>
               ([ReadGroup (map sg_tag_path specs), Replied r (RepReadings (Inl (device_error_display err))), SessionClosed],
                d\<lparr>dr_health := bump_read_errors h\<rparr>, Some LinkLost))
      | CtlPause who r \<Rightarrow>
          (let (changed, evs, h1) = apply_pause cfg True who h;
               h2 = (if changed then drain_health h1 else h1);
               (dropped, e1) = discard_open_batches (ev_order env) 0 (dr_engine d)
           in ((if changed then [MetricsEmitted] else []) @ map Evented evs @ [Replied r (RepChanged changed)],
               d\<lparr>dr_health := h2, dr_engine := e1, dr_paused := True\<rparr>, None))
      | CtlResume r \<Rightarrow>
          (let (changed, evs, h1) = apply_pause cfg False None h;
               h2 = (if changed then drain_health h1 else h1);
               d1 = (if changed
                     then d\<lparr>dr_engine := rebase_stale (ev_now env) (dr_engine d),
                            dr_deadlines := map (\<lambda>i. ev_now2 env 0 + i) (intervals cfg global)\<rparr>
                     else d)
           in ((if changed then [MetricsEmitted] else []) @ map Evented evs @ [Replied r (RepChanged changed)],
               d1\<lparr>dr_health := h2, dr_paused := False\<rparr>, None))
      | CtlReconnect r \<Rightarrow> ([SessionClosed], d, Some (Reconnect r))
      | CtlRepoll r \<Rightarrow>
          (if dr_paused d
           then ([Replied r (RepRepoll (Inl (ascii ''instance is paused - resume first'')))], d, None)
           else
             let (effs, eh, res) = repoll_groups cfg global env 0 0 (dc_poll_groups cfg) 0 (dr_engine d, h) in
             case res of
               Inr count \<Rightarrow> (effs @ [Replied r (RepRepoll (Inr count))], with_eh d eh, None)
             | Inl err \<Rightarrow> (effs @ [Replied r (RepRepoll (Inl err)), SessionClosed], with_eh d eh, Some LinkLost))
      | CtlBrowse cursor mx r \<Rightarrow>
          (case ev_browse env of
             Inr page \<Rightarrow> ([Replied r (RepBrowse (Inr page))], d, None)
           | Inl (Unsupported t) \<Rightarrow> ([Replied r (RepBrowse (Inl BrowseUnsupported))], d, None)
           | Inl err \<Rightarrow> ([Replied r (RepBrowse (Inl (BrowseFailed (device_error_display err))))], d, None))
      | CtlSnapshot r \<Rightarrow> ([Replied r (RepSnapshot None)], d, None)
      | CtlWriteOutput f v r \<Rightarrow> ([Replied r (RepWrite (Inl (ascii ''not a push instance'')))], d, None))"

section \<open>The timer arm\<close>

definition keep_min :: "instant list \<Rightarrow> nat option \<Rightarrow> nat \<Rightarrow> nat option" where
  "keep_min ds best i = (case best of None \<Rightarrow> Some i | Some b \<Rightarrow> if ds ! i < ds ! b then Some i else Some b)"

text \<open>The earliest due group, the first of equals.\<close>

definition earliest_due :: "instant \<Rightarrow> instant list \<Rightarrow> nat option" where
  "earliest_due now ds = foldl (keep_min ds) None (filter (\<lambda>i. ds ! i \<le> now) [0..<length ds])"

definition rearm :: "instant \<Rightarrow> duration list \<Rightarrow> nat \<Rightarrow> instant list \<Rightarrow> instant list" where
  "rearm now ivs idx ds = ds[idx := max (ds ! idx + ivs ! idx) now]"

text \<open>What a wake-up does while paused: the keepalive probe.\<close>

definition tick_paused :: "global_config \<Rightarrow> step_env \<Rightarrow> driver \<Rightarrow> effect list \<times> driver \<times> poll_exit option" where
  "tick_paused global env d =
     (if saturating_duration_since (ev_now env) (dr_since_keepalive d) \<ge> keepalive_interval global then
        let d1 = d\<lparr>dr_since_keepalive := ev_now env\<rparr> in
        case ev_probe env of
          Inl _ \<Rightarrow> ([SessionClosed], d1\<lparr>dr_health := bump_read_errors (dr_health d)\<rparr>, Some LinkLost)
        | Inr _ \<Rightarrow> ([], d1\<lparr>dr_health := set_link Online (dr_health d)\<rparr>, None)
      else ([], d, None))"

text \<open>And while running: the flush of the windows that closed, then the earliest due group.\<close>

definition tick_running ::
    "device_config \<Rightarrow> global_config \<Rightarrow> step_env \<Rightarrow> driver \<Rightarrow> effect list \<times> driver \<times> poll_exit option" where
  "tick_running cfg global env d =
     (let (pubs, e1) = take_due (ev_order env) (effective_batch_ms cfg global) (ev_now env) (dr_engine d);
          (effs, e2, h2) = deliver_all cfg global (publish_mode_str OnChange) True (ev_sink env) 0 pubs (e1, dr_health d)
      in case earliest_due (ev_now env) (dr_deadlines d) of
           None \<Rightarrow> (effs, with_eh d (e2, h2), None)
         | Some idx \<Rightarrow>
             let d1 = d\<lparr>dr_deadlines := rearm (ev_now env) (intervals cfg global) idx (dr_deadlines d)\<rparr>;
                 (effs2, eh, exit) = poll_one cfg global env (length pubs) idx (e2, h2)
             in (effs @ effs2, with_eh d1 eh, exit))"

definition emit_metrics :: "device_config \<Rightarrow> global_config \<Rightarrow> step_env \<Rightarrow> driver \<Rightarrow> effect list \<times> driver" where
  "emit_metrics cfg global env d =
     (if saturating_duration_since (ev_now env) (dr_since_health d) \<ge> metrics_interval global then
        let stale = (if dr_paused d then 0
              else engine_count_stale (map sg_tag_path (dc_signals cfg))
                (ht_stale_signal_secs (gc_health_thresholds global)) (ev_now env) (dr_engine d))
        in ([MetricsEmitted], d\<lparr>dr_health := drain_health ((dr_health d)\<lparr>h_stale_signals := of_nat stale\<rparr>), dr_since_health := ev_now env\<rparr>)
      else ([], d))"

definition poll_tick :: "device_config \<Rightarrow> global_config \<Rightarrow> step_env \<Rightarrow> driver \<Rightarrow> effect list \<times> driver \<times> poll_exit option" where
  "poll_tick cfg global env d =
     (case (if dr_paused d then tick_paused global env d else tick_running cfg global env d) of
        (effs, d1, Some exit) \<Rightarrow> (effs, d1, Some exit)
      | (effs, d1, None) \<Rightarrow> let (effs2, d2) = emit_metrics cfg global env d1 in (effs @ effs2, d2, None))"

text \<open>One iteration of the loop.\<close>

definition poll_step ::
    "device_config \<Rightarrow> global_config \<Rightarrow> wake \<times> step_env \<Rightarrow> driver \<Rightarrow> effect list \<times> driver \<times> poll_exit option" where
  "poll_step cfg global inp d =
     (case inp of (wk, env) \<Rightarrow>
      case wk of
        WkCancel \<Rightarrow> ([SessionClosed], d, Some Stopped)
      | WkControl None \<Rightarrow> ([SessionClosed], d, Some Stopped)
      | WkControl (Some ctl) \<Rightarrow> poll_control cfg global env ctl d
      | WkTick \<Rightarrow> poll_tick cfg global env d)"

text \<open>The loop, over the inputs of its iterations.\<close>

fun poll_until_disconnected ::
    "device_config \<Rightarrow> global_config \<Rightarrow> (wake \<times> step_env) list \<Rightarrow> driver \<Rightarrow> effect list \<times> driver \<times> poll_exit option" where
  "poll_until_disconnected cfg global [] d = ([], d, None)"
| "poll_until_disconnected cfg global (inp # inps) d =
     (case poll_step cfg global inp d of
        (effs, d1, Some exit) \<Rightarrow> (effs, d1, Some exit)
      | (effs, d1, None) \<Rightarrow>
          let (rest, d2, exit) = poll_until_disconnected cfg global inps d1 in (effs @ rest, d2, exit))"

section \<open>The publish routine of the loop\<close>

lemma find_signal_tag: "find_signal cfg i = Some spec \<Longrightarrow> sg_tag_path spec = i"
  by (auto simp: find_signal_def find_Some_iff)

lemma publish_by_id_effects:
  assumes "publish_by_id cfg i ss mode fb res h = (sent, effs, h')"
  shows "confirmed effs j = (if sent \<and> j = i then ss else [])" "h_paused h' = h_paused h"
    "list_all is_delivery effs" "find_signal cfg i \<noteq> None \<Longrightarrow> sent = (\<exists>u. fst res = Inr u)"
  using assms find_signal_tag [of cfg i] publish_result_effects [of i ss mode fb res h sent effs h' j]
  by (auto simp: publish_by_id_def publish_samples_def split: option.splits)

interpretation poll_pub: publisher "poll_publish cfg global fallback from_batch sink"
  for cfg global fallback from_batch sink
  by unfold_locales (simp_all only: poll_publish_def publish_by_id_effects)

lemma deliver_all_sent:
  assumes "deliver_all cfg global fb b sink k pubs (e, h) = (effs, e', h')"
    and "\<And>n. \<exists>u. fst (sink n) = Inr u" "\<And>p. p \<in> set pubs \<Longrightarrow> find_signal cfg (pb_signal_id p) \<noteq> None"
  shows "confirmed effs i = out_samples pubs i"
proof (rule poll_pub.deliver_confirms_all [OF assms(1) [unfolded deliver_all_def]])
  fix p k h
  assume p: "p \<in> set pubs"
  obtain sent effs h' where "poll_publish cfg global fb b sink k (pb_signal_id p) (pb_samples p) h = (sent, effs, h')"
    by (metis prod_cases3)
  with publish_by_id_effects(4) assms(2,3) p show "fst (poll_publish cfg global fb b sink k (pb_signal_id p) (pb_samples p) h)"
    by (metis fst_conv poll_publish_def)
qed

text \<open>The publishes of a group carry samples, and leave the pause flag alone.\<close>

lemma process_signals_out:
  assumes "process_signals specs mode batch_ms readings now ts (e, h) = (pubs, e', h')"
  shows "(\<forall>p \<in> set pubs. pb_samples p \<noteq> []) \<and> h_paused h' = h_paused h"
  using assms
proof (induction specs arbitrary: e h pubs e' h')
  case (Cons spec specs)
  show ?case
  proof (cases "by_id readings (sg_tag_path spec)")
    case None
    with Cons show ?thesis by simp
  next
    case (Some r)
    obtain o1 st h1 where r: "poll_reading mode batch_ms now ts (sg_deadband spec) r
        (entry_or_default e (sg_tag_path spec)) h = (o1, st, h1)" by (metis prod_cases3)
    obtain ps e2 h2 where p: "process_signals specs mode batch_ms readings now ts
        (put_state (sg_tag_path spec) st e, h1) = (ps, e2, h2)" by (metis prod_cases3)
    have eq: "pubs = publish_now (sg_tag_path spec) o1 @ ps" "e' = e2" "h' = h2"
      using Cons.prems process_signals_step [OF Some r p] by auto
    have p': "process_signals specs mode batch_ms readings now ts (put_state (sg_tag_path spec) st e, h1) = (ps, e', h')"
      using p eq by simp
    from Cons.IH [OF p'] poll_reading_out [OF r] show ?thesis
      by (auto simp: eq publish_now_def split: option.splits)
  qed
qed simp

section \<open>The invariant of the loop\<close>

text \<open>
  Between two iterations the baselines track the bus, windows are empty when batching is off, the
  driver's pause flag is the shared one, and a paused instance holds no open window.
\<close>

definition engine_inv :: "device_config \<Rightarrow> global_config \<Rightarrow> effect list \<Rightarrow> engine \<Rightarrow> bool" where
  "engine_inv cfg global hist e \<longleftrightarrow>
     tracks (bus hist) (\<lambda>_. []) e \<and> (effective_batch_ms cfg global = 0 \<longrightarrow> unbatched e)"

definition loop_inv :: "device_config \<Rightarrow> global_config \<Rightarrow> effect list \<Rightarrow> driver \<Rightarrow> bool" where
  "loop_inv cfg global hist d \<longleftrightarrow>
     engine_inv cfg global hist (dr_engine d) \<and> h_paused (dr_health d) = dr_paused d \<and>
     (dr_paused d \<longrightarrow> unbatched (dr_engine d)) \<and> length (dr_deadlines d) = length (dc_poll_groups cfg)"

definition wf_order :: "step_env \<Rightarrow> driver \<Rightarrow> bool" where
  "wf_order env d \<longleftrightarrow> distinct (ev_order env) \<and> set (ev_order env) = dom (en_state (dr_engine d))"

lemma group_distinct: "wf_poll cfg \<Longrightarrow> g \<in> set (dc_poll_groups cfg) \<Longrightarrow> distinct (map sg_tag_path (pg_signals g))"
  unfolding wf_poll_def dc_signals_def map_concat by (auto simp: distinct_concat_iff)

text \<open>A group processed and delivered.\<close>

lemma group_inv:
  assumes "engine_inv cfg global hist e" "distinct (map sg_tag_path (pg_signals g))"
    and "process_group g mode (effective_batch_ms cfg global) readings now ts (e, h) = (pubs, e1, h1)"
    and "deliver_all cfg global fb b sink k pubs (e1, h1) = (effs, e2, h2)"
  shows "engine_inv cfg global (hist @ effs) e2 \<and> h_paused h2 = h_paused h"
proof -
  have t: "tracks (bus hist) (out_samples pubs) e1" "effective_batch_ms cfg global = 0 \<longrightarrow> unbatched e1"
    "distinct (map pb_signal_id pubs)"
    using tracks_process_signals [OF assms(3) [unfolded process_group_def], of "bus hist" "\<lambda>_. []"] assms(1,2)
    by (auto simp: engine_inv_def)
  have ne: "\<forall>p \<in> set pubs. pb_samples p \<noteq> []" "h_paused h1 = h_paused h"
    using process_signals_out [OF assms(3) [unfolded process_group_def]] by auto
  from poll_pub.deliver_tracks [OF assms(4) [unfolded deliver_all_def] t(1,3) ne(1)] t(2) ne(2) show ?thesis by (simp add: engine_inv_def bus_advance)
qed

lemma engine_inv_quiet:
  assumes "engine_inv cfg global (hist @ effs) e" "list_all (\<lambda>x. \<not> is_publish x) pre" "list_all (\<lambda>x. \<not> is_publish x) post"
  shows "engine_inv cfg global (hist @ pre @ effs @ post) e"
proof -
  have "bus (hist @ pre @ effs @ post) = bus (hist @ effs)"
    using confirmed_quiet [OF assms(2)] confirmed_quiet [OF assms(3)] by (auto simp: bus_def)
  with assms(1) show ?thesis by (simp add: engine_inv_def)
qed

lemma flush_inv:
  assumes "engine_inv cfg global hist e" "distinct order"
    and "take_due order (effective_batch_ms cfg global) now e = (pubs, e1)"
    and "deliver_all cfg global fb b sink k pubs (e1, h) = (effs, e2, h2)"
  shows "engine_inv cfg global (hist @ effs) e2 \<and> h_paused h2 = h_paused h"
proof -
  have t: "tracks (bus hist) (out_samples pubs) e1" "distinct (map pb_signal_id pubs)"
    "\<forall>p \<in> set pubs. pb_samples p \<noteq> []" "unbatched e \<longrightarrow> unbatched e1"
    using tracks_take_due [OF assms(3), of "bus hist" "\<lambda>_. []"] assms(1,2) by (auto simp: engine_inv_def)
  from poll_pub.deliver_tracks [OF assms(4) [unfolded deliver_all_def] t(1-3)] t(4) assms(1) show ?thesis by (auto simp: engine_inv_def bus_advance)
qed

lemma record_keeps_pause [simp]:
  "h_paused (record_observed rs h) = h_paused h" "h_paused (record_cycle a b h) = h_paused h"
  "h_paused (bump_read_errors h) = h_paused h" "h_paused (set_link l h) = h_paused h"
  "h_paused (drain_health h) = h_paused h"
  by (simp_all add: drain_health_def record_observed_def record_cycle_def bump_read_errors_def set_link_def Let_def)

text \<open>A group whose read succeeded.\<close>

lemma poll_one_ok:
  assumes "poll_one cfg global env k idx (e, h) = (effs, (e', h'), ex)" "ev_read env 0 = Inr readings"
  obtains h2 pubs e3 h3 effs1 m where
    "process_group (dc_poll_groups cfg ! idx) (modes cfg global ! idx) (effective_batch_ms cfg global) readings
       (ev_now2 env 0) (ev_server_ts env 0) (e, h2) = (pubs, e3, h3)"
    "deliver_all cfg global (publish_mode_str (modes cfg global ! idx)) False (ev_sink env) k pubs (e3, h3) = (effs1, e', h')"
    "effs = [ReadGroup (map sg_tag_path (pg_signals (dc_poll_groups cfg ! idx)))] @ effs1 @ [m]"
    "\<not> is_publish m" "ex = None" "h_paused h2 = h_paused h" "is_cycle m"
proof -
  let ?g = "dc_poll_groups cfg ! idx" and ?m = "modes cfg global ! idx"
  let ?h2 = "record_cycle (ev_elapsed env) (intervals cfg global ! idx)
      ((record_observed readings h)\<lparr>h_poll_latency_ms := as_millis_u64 (ev_elapsed env)\<rparr>)"
  obtain pubs e3 h3 where p: "process_group ?g ?m (effective_batch_ms cfg global) readings (ev_now2 env 0)
      (ev_server_ts env 0) (e, ?h2) = (pubs, e3, h3)" by (metis prod_cases3)
  obtain effs1 e4 h4 where dl: "deliver_all cfg global (publish_mode_str ?m) False (ev_sink env) k pubs (e3, h3) = (effs1, e4, h4)"
    by (metis prod_cases3)
  obtain dl where run: "poll_one cfg global env k idx (e, h) =
      ([ReadGroup (map sg_tag_path (pg_signals ?g))] @ effs1 @ [MetricPollCycle (group_label ?g) True
          (as_millis_u64 (ev_elapsed env)) (of_nat (length (pg_signals ?g)))
          (cycle_overran (ev_elapsed env) (intervals cfg global ! idx)) (dl ! 0) (dl ! 1) (dl ! 2) (dl ! 3) (dl ! 4)],
       (e4, h4), None)"
    by (rule that) (simp only: poll_one_def Let_def assms(2) p dl sum.case prod.case)
  define m where "m = MetricPollCycle (group_label ?g) True (as_millis_u64 (ev_elapsed env)) (of_nat (length (pg_signals ?g)))
      (cycle_overran (ev_elapsed env) (intervals cfg global ! idx)) (dl ! 0) (dl ! 1) (dl ! 2) (dl ! 3) (dl ! 4)"
  have eq: "effs = [ReadGroup (map sg_tag_path (pg_signals ?g))] @ effs1 @ [m]" "\<not> is_publish m"
    "e' = e4" "h' = h4" "ex = None"
    using assms(1) [unfolded run, folded m_def] unfolding prod.inject m_def by (simp_all only: is_publish.simps simp_thms)
  have dl': "deliver_all cfg global (publish_mode_str ?m) False (ev_sink env) k pubs (e3, h3) = (effs1, e', h')"
    using dl eq(3,4) by simp
  show ?thesis by (rule that [OF p dl' eq(1,2,5)]) (simp_all add: m_def)
qed

lemma poll_one_inv:
  assumes "engine_inv cfg global hist e" "wf_poll cfg" "idx < length (dc_poll_groups cfg)"
    and "poll_one cfg global env k idx (e, h) = (effs, (e', h'), ex)"
  shows "engine_inv cfg global (hist @ effs) e' \<and> h_paused h' = h_paused h"
proof (cases "ev_read env 0")
  case (Inl err)
  with assms(1,4) show ?thesis
    by (auto simp: poll_one_def engine_inv_def bus_quiet Let_def)
next
  case (Inr readings)
  have d: "distinct (map sg_tag_path (pg_signals (dc_poll_groups cfg ! idx)))" using assms(2,3) by (simp add: group_distinct)
  from assms(4) Inr show ?thesis
  proof (rule poll_one_ok)
    fix h2 pubs e3 h3 effs1 m
    assume p: "process_group (dc_poll_groups cfg ! idx) (modes cfg global ! idx) (effective_batch_ms cfg global) readings
        (ev_now2 env 0) (ev_server_ts env 0) (e, h2) = (pubs, e3, h3)"
      and dl: "deliver_all cfg global (publish_mode_str (modes cfg global ! idx)) False (ev_sink env) k pubs (e3, h3) = (effs1, e', h')"
      and eq: "effs = [ReadGroup (map sg_tag_path (pg_signals (dc_poll_groups cfg ! idx)))] @ effs1 @ [m]"
      and m: "\<not> is_publish m" "h_paused h2 = h_paused h"
    from group_inv [OF assms(1) d p dl] m show ?thesis
      using engine_inv_quiet [of cfg global hist effs1 e' "[ReadGroup (map sg_tag_path (pg_signals (dc_poll_groups cfg ! idx)))]" "[m]"]
      by (simp add: eq)
  qed
qed

lemma repoll_inv:
  assumes "engine_inv cfg global hist e" "\<And>g. g \<in> set gs \<Longrightarrow> distinct (map sg_tag_path (pg_signals g))"
    and "repoll_groups cfg global env k idx gs polled (e, h) = (effs, (e', h'), res)"
  shows "engine_inv cfg global (hist @ effs) e' \<and> h_paused h' = h_paused h"
  using assms
proof (induction gs arbitrary: hist e h k idx polled effs)
  case (Cons g gs)
  show ?case
  proof (cases "ev_read env idx")
    case (Inl err)
    with Cons.prems show ?thesis by (auto simp: engine_inv_def bus_quiet)
  next
    case (Inr readings)
    let ?m = "modes cfg global ! idx"
    obtain pubs e2 h2 where p: "process_group g ?m (effective_batch_ms cfg global) readings (ev_now2 env idx)
        (ev_server_ts env idx) (e, record_observed readings h) = (pubs, e2, h2)" by (metis prod_cases3)
    obtain effs1 e3 h3 where dl: "deliver_all cfg global (publish_mode_str ?m) False (ev_sink env) k pubs (e2, h2) = (effs1, e3, h3)"
      by (metis prod_cases3)
    obtain rest e4 h4 res' where r: "repoll_groups cfg global env (k + length pubs) (Suc idx) gs
        (polled + of_nat (length (pg_signals g))) (e3, h3) = (rest, (e4, h4), res')" by (metis prod_cases3 surj_pair)
    have eq: "effs = [ReadGroup (map sg_tag_path (pg_signals g))] @ effs1 @ rest" "e' = e4" "h' = h4" "res = res'"
      using Cons.prems(3) Inr p dl r by (auto simp: Let_def)
    have g: "engine_inv cfg global (hist @ effs1) e3 \<and> h_paused h3 = h_paused h"
      using group_inv [OF Cons.prems(1) _ p dl] Cons.prems(2) by simp
    then have g': "engine_inv cfg global (hist @ [ReadGroup (map sg_tag_path (pg_signals g))] @ effs1) e3"
      using engine_inv_quiet [of cfg global hist effs1 e3 "[ReadGroup (map sg_tag_path (pg_signals g))]" "[]"] by simp
    have r': "repoll_groups cfg global env (k + length pubs) (Suc idx) gs
        (polled + of_nat (length (pg_signals g))) (e3, h3) = (rest, (e', h'), res)" using r eq by simp
    from Cons.IH [OF g' _ r'] Cons.prems(2) g show ?thesis by (simp add: eq(1))
  qed
qed simp

text \<open>Each arm of the select keeps the invariant.\<close>

lemma earliest_due_Some:
  assumes "earliest_due now ds = Some i"
  shows "i < length ds \<and> ds ! i \<le> now \<and> (\<forall>j < length ds. ds ! j \<le> now \<longrightarrow> ds ! i \<le> ds ! j)"
proof -
  have fold: "foldl (keep_min ds) b xs = Some i \<Longrightarrow> i \<in> set xs \<union> set_option b \<and> (\<forall>j \<in> set xs \<union> set_option b. ds ! i \<le> ds ! j)"
    for b xs
  proof (induction xs arbitrary: b)
    case (Cons x xs)
    from Cons.IH [OF Cons.prems [simplified]] show ?case
      by (cases b) (auto simp: keep_min_def split: if_splits)
  qed auto
  from fold [OF assms [unfolded earliest_due_def]] show ?thesis by auto
qed

lemma earliest_due_None: "earliest_due now ds = None \<longleftrightarrow> (\<forall>j < length ds. now < ds ! j)"
proof -
  have "foldl (keep_min ds) b xs = None \<longleftrightarrow> b = None \<and> xs = []" for b xs
    by (induction xs arbitrary: b) (auto simp: keep_min_def split: option.splits)
  then show ?thesis by (auto simp: earliest_due_def filter_empty_conv not_le)
qed

lemma tick_inv:
  assumes "loop_inv cfg global hist d" "wf_poll cfg" "wf_order env d" "poll_tick cfg global env d = (effs, d', ex)"
  shows "loop_inv cfg global (hist @ effs) d'"
proof -
  have step: "loop_inv cfg global (hist @ effs1) d1"
    if s: "(if dr_paused d then tick_paused global env d else tick_running cfg global env d) = (effs1, d1, ex1)" for effs1 d1 ex1
  proof (cases "dr_paused d")
    case True
    then show ?thesis
      using s assms(1) by (auto simp: tick_paused_def loop_inv_def Let_def bus_quiet engine_inv_def split: if_splits sum.splits)
  next
    case False
    obtain pubs e1 where t: "take_due (ev_order env) (effective_batch_ms cfg global) (ev_now env) (dr_engine d) = (pubs, e1)"
      by (metis surj_pair)
    obtain effs2 e2 h2 where dl: "deliver_all cfg global (publish_mode_str OnChange) True (ev_sink env) 0 pubs (e1, dr_health d) =
        (effs2, e2, h2)" by (metis prod_cases3)
    have f: "engine_inv cfg global (hist @ effs2) e2 \<and> h_paused h2 = h_paused (dr_health d)"
      using flush_inv [OF _ _ t dl, of hist] assms(1,3) by (simp add: loop_inv_def wf_order_def)
    show ?thesis
    proof (cases "earliest_due (ev_now env) (dr_deadlines d)")
      case None
      with s f False t dl assms(1) show ?thesis by (auto simp: tick_running_def loop_inv_def with_eh_def)
    next
      case (Some idx)
      obtain effs3 e3 h3 ex3 where p: "poll_one cfg global env (length pubs) idx (e2, h2) = (effs3, (e3, h3), ex3)"
        by (metis prod_cases3 surj_pair)
      have idx: "idx < length (dc_poll_groups cfg)"
        using earliest_due_Some [OF Some] assms(1) by (simp add: loop_inv_def)
      from poll_one_inv [OF _ assms(2) idx p, of "hist @ effs2"] f s False t dl Some p assms(1)
      show ?thesis by (auto simp: tick_running_def loop_inv_def with_eh_def rearm_def)
    qed
  qed
  have emit: "loop_inv cfg global (hist @ effs1 @ effs2) d2"
    if "emit_metrics cfg global env d1 = (effs2, d2)" "loop_inv cfg global (hist @ effs1) d1" for effs1 effs2 d1 d2
    using that bus_quiet [of "[MetricsEmitted]" "hist @ effs1"]
    by (auto simp: emit_metrics_def loop_inv_def engine_inv_def Let_def split: if_splits)
  show ?thesis
    using assms(4) step emit by (auto simp: poll_tick_def split: prod.splits option.splits)
qed

lemma control_inv:
  assumes "loop_inv cfg global hist d" "wf_poll cfg" "wf_order env d" "poll_control cfg global env ctl d = (effs, d', ex)"
  shows "loop_inv cfg global (hist @ effs) d'"
proof -
  have same: "loop_inv cfg global (hist @ effs2) d2" if "list_all (\<lambda>x. \<not> is_publish x) effs2" "dr_engine d2 = dr_engine d"
    "h_paused (dr_health d2) = h_paused (dr_health d)" "dr_paused d2 = dr_paused d" "dr_deadlines d2 = dr_deadlines d"
    for effs2 d2 using that assms(1) by (simp add: loop_inv_def engine_inv_def bus_quiet)
  show ?thesis
  proof (cases ctl)
    case (CtlPause who r)
    obtain n e1 where dsc: "discard_open_batches (ev_order env) 0 (dr_engine d) = (n, e1)" by (metis surj_pair)
    have "tracks (bus hist) (\<lambda>_. []) (dr_engine d)" using assms(1) by (simp add: loop_inv_def engine_inv_def)
    note td = tracks_discard [OF dsc this]
    have t: "tracks (bus hist) (\<lambda>_. []) e1" "unbatched e1"
    proof -
      show "tracks (bus hist) (\<lambda>_. []) e1" using td by (rule conjunct1)
      have "dom (en_state e1) = set (ev_order env)" using td assms(3) by (simp add: wf_order_def)
      moreover have "\<forall>i \<in> set (ev_order env). \<forall>st. en_state e1 i = Some st \<longrightarrow> ba_buffer (ss_batcher st) = []"
        using td by blast
      ultimately show "unbatched e1" unfolding unbatched_def by (metis domI)
    qed
    have q: "list_all (\<lambda>x. \<not> is_publish x) effs"
      using assms(4) CtlPause dsc by (auto simp: poll_control_def apply_pause_def Let_def list_all_iff split: if_splits)
    from t q assms(1,4) CtlPause dsc show ?thesis
      by (auto simp: poll_control_def apply_pause_def Let_def loop_inv_def engine_inv_def bus_quiet split: if_splits)
  next
    case (CtlResume r)
    have q: "list_all (\<lambda>x. \<not> is_publish x) effs"
      using assms(4) CtlResume by (auto simp: poll_control_def apply_pause_def Let_def list_all_iff split: if_splits)
    from q assms(1,4) CtlResume tracks_rebase unbatched_rebase show ?thesis
      by (auto simp: poll_control_def apply_pause_def Let_def loop_inv_def engine_inv_def bus_quiet intervals_def split: if_splits)
  next
    case (CtlRepoll r)
    show ?thesis
    proof (cases "dr_paused d")
      case True
      with assms(4) CtlRepoll show ?thesis by (intro same) (auto simp: poll_control_def)
    next
      case False
      obtain effs1 e' h' res where rp: "repoll_groups cfg global env 0 0 (dc_poll_groups cfg) 0 (dr_engine d, dr_health d) =
          (effs1, (e', h'), res)" by (metis prod_cases3 surj_pair)
      have i: "engine_inv cfg global (hist @ effs1) e' \<and> h_paused h' = h_paused (dr_health d)"
        using repoll_inv [OF _ _ rp, of hist] assms(1,2) group_distinct by (simp add: loop_inv_def)
      obtain post where post: "effs = effs1 @ post" "list_all (\<lambda>x. \<not> is_publish x) post" "d' = with_eh d (e', h')"
        using assms(4) CtlRepoll False rp by (auto simp: poll_control_def Let_def split: sum.splits)
      with i engine_inv_quiet [of cfg global hist effs1 e' "[]" post] assms(1) False show ?thesis
        by (simp add: loop_inv_def with_eh_def)
    qed
  qed (use assms(4) in \<open>auto intro!: same simp: poll_control_def Let_def split: sum.splits device_error.splits\<close>)
qed

section \<open>Reachable states\<close>

text \<open>A state of the loop with the history of its effects; an exit ends it.\<close>

type_synonym loop_state = "effect list \<times> driver \<times> poll_exit option"

inductive loop_step :: "device_config \<Rightarrow> global_config \<Rightarrow> loop_state \<Rightarrow> wake \<times> step_env \<Rightarrow> loop_state \<Rightarrow> bool"
  for cfg global where
  loop_stepI: "wf_order (snd inp) d \<Longrightarrow> poll_step cfg global inp d = (effs, d', ex) \<Longrightarrow>
    loop_step cfg global (hist, d, None) inp (hist @ effs, d', ex)"

inductive_cases loop_stepE: "loop_step cfg global s inp s'"

definition loop_init :: "device_config \<Rightarrow> global_config \<Rightarrow> loop_state \<Rightarrow> bool" where
  "loop_init cfg global s \<longleftrightarrow> (\<exists>start h. s = ([], driver_init cfg global start h, None))"

lemma step_inv:
  assumes "loop_inv cfg global hist d" "wf_poll cfg" "wf_order (snd inp) d" "poll_step cfg global inp d = (effs, d', ex)"
  shows "loop_inv cfg global (hist @ effs) d'"
proof -
  obtain wk env where inp: "inp = (wk, env)" by (metis surj_pair)
  have stop: ?thesis if "effs = [SessionClosed]" "d' = d"
    using that assms(1) by (simp add: loop_inv_def engine_inv_def bus_quiet)
  show ?thesis
  proof (cases wk)
    case (WkControl m)
    show ?thesis
    proof (cases m)
      case None
      with WkControl assms(4) inp show ?thesis by (intro stop) (auto simp: poll_step_def)
    next
      case (Some ctl)
      with WkControl assms(4) inp have "poll_control cfg global env ctl d = (effs, d', ex)" by (simp add: poll_step_def)
      from control_inv [OF assms(1,2) _ this] assms(3) inp show ?thesis by simp
    qed
  next
    case WkTick
    with assms(4) inp have "poll_tick cfg global env d = (effs, d', ex)" by (simp add: poll_step_def)
    from tick_inv [OF assms(1,2) _ this] assms(3) inp show ?thesis by simp
  qed (use assms(4) inp stop in \<open>auto simp: poll_step_def\<close>)
qed

definition loop_ok :: "device_config \<Rightarrow> global_config \<Rightarrow> loop_state \<Rightarrow> bool" where
  "loop_ok cfg global s \<longleftrightarrow> wf_poll cfg \<longrightarrow> loop_inv cfg global (fst s) (fst (snd s))"

interpretation poll_loop: invariant_system "loop_init cfg global" "loop_step cfg global" "loop_ok cfg global"
  for cfg global
proof
  fix s
  assume "loop_init cfg global s"
  then show "loop_ok cfg global s"
    using tracks_new
    by (auto simp: loop_init_def loop_ok_def loop_inv_def engine_inv_def driver_init_def intervals_def bus_def fun_eq_iff
        unbatched_def engine_new_def tracks_def)
next
  fix s inp s'
  assume "loop_ok cfg global s" "loop_step cfg global s inp s'"
  then show "loop_ok cfg global s'" by (auto simp: loop_ok_def elim!: loop_stepE intro: step_inv)
qed

section \<open>Fairness of the schedule\<close>

fun served :: "duration list \<Rightarrow> instant list \<Rightarrow> instant list \<Rightarrow> nat list" where
  "served ivs [] ds = []"
| "served ivs (now # nows) ds =
     (case earliest_due now ds of
        None \<Rightarrow> served ivs nows ds
      | Some i \<Rightarrow> i # served ivs nows (rearm now ivs i ds))"

definition credit :: "instant \<Rightarrow> instant \<Rightarrow> nat" where
  "credit t x = (if x < t then 2 else if x = t then 1 else 0)"

definition potential :: "nat \<Rightarrow> instant list \<Rightarrow> nat" where
  "potential j ds = (\<Sum>i \<in> {..<length ds} - {j}. credit (ds ! j) (ds ! i))"

lemma length_rearm [simp]: "length (rearm now ivs i ds) = length ds"
  by (simp add: rearm_def)

lemma potential_decreases:
  assumes "earliest_due now ds = Some i" "i \<noteq> j" "j < length ds" "ds ! j \<le> now" "0 < ivs ! i"
  shows "potential j (rearm now ivs i ds) < potential j ds \<and> rearm now ivs i ds ! j = ds ! j"
proof -
  have i: "i < length ds" "ds ! i \<le> ds ! j" using earliest_due_Some [OF assms(1)] assms(3,4) by auto
  have keep: "rearm now ivs i ds ! k = ds ! k" if "k \<noteq> i" for k using that by (simp add: rearm_def)
  have at: "rearm now ivs i ds ! i = max (ds ! i + ivs ! i) now" using i by (simp add: rearm_def)
  let ?S = "{..<length ds} - {j}"
  have less: "credit (ds ! j) (rearm now ivs i ds ! i) < credit (ds ! j) (ds ! i)"
    using i(2) assms(4,5) by (auto simp: at credit_def)
  have "(\<Sum>k \<in> ?S. credit (ds ! j) (rearm now ivs i ds ! k)) < (\<Sum>k \<in> ?S. credit (ds ! j) (ds ! k))"
  proof (rule sum_strict_mono_ex1)
    show "\<forall>k \<in> ?S. credit (ds ! j) (rearm now ivs i ds ! k) \<le> credit (ds ! j) (ds ! k)"
      using less keep by (metis order_refl less_imp_le)
    show "\<exists>k \<in> ?S. credit (ds ! j) (rearm now ivs i ds ! k) < credit (ds ! j) (ds ! k)"
      using less i(1) assms(2) by auto
  qed simp
  with keep [of j] assms(2) show ?thesis by (simp add: potential_def)
qed

lemma potential_bound: "j < length ds \<Longrightarrow> potential j ds \<le> 2 * (length ds - 1)"
proof -
  assume j: "j < length ds"
  have "potential j ds \<le> (\<Sum>i \<in> {..<length ds} - {j}. 2)"
    unfolding potential_def by (rule sum_mono) (simp add: credit_def)
  with j show ?thesis by simp
qed

lemma served_fair:
  assumes "j < length ds" "\<forall>now \<in> set nows. ds ! j \<le> now" "potential j ds < length nows"
    and "\<And>i. i < length ds \<Longrightarrow> 0 < ivs ! i"
  shows "j \<in> set (served ivs nows ds)"
  using assms
proof (induction nows arbitrary: ds)
  case (Cons now nows)
  have "earliest_due now ds \<noteq> None" using Cons.prems(1,2) by (auto simp: earliest_due_None not_less)
  then obtain i where i: "earliest_due now ds = Some i" by auto
  show ?case
  proof (cases "i = j")
    case False
    have "0 < ivs ! i" using earliest_due_Some [OF i] Cons.prems(4) by simp
    note dec = potential_decreases [OF i False Cons.prems(1) _ this]
    have "j \<in> set (served ivs nows (rearm now ivs i ds))"
      by (rule Cons.IH) (use Cons.prems dec in auto)
    then show ?thesis by (simp add: i)
  qed (simp add: i)
qed simp

section \<open>What the loop guarantees\<close>

lemma intervals_positive: "i < length (dc_poll_groups cfg) \<Longrightarrow> 0 < intervals cfg global ! i"
proof -
  have "0 < unat (max x (1 :: u64))" for x
  proof -
    have "(1 :: u64) \<le> max x 1" by simp
    then show ?thesis unfolding word_le_nat_alt by simp
  qed
  then show "i < length (dc_poll_groups cfg) \<Longrightarrow> 0 < intervals cfg global ! i"
    by (simp add: intervals_def from_millis_def)
qed

lemma poll_one_reads:
  assumes "poll_one cfg global env k idx eh = (effs, eh', ex)"
  shows "ReadGroup (map sg_tag_path (pg_signals (dc_poll_groups cfg ! idx))) \<in> set effs"
proof (cases "ev_read env 0")
  case (Inl err)
  with assms show ?thesis by (cases eh) (auto simp: poll_one_def Let_def)
next
  case (Inr readings)
  obtain e h e' h' where eh: "eh = (e, h)" "eh' = (e', h')" by (metis surj_pair)
  show ?thesis by (rule poll_one_ok [OF assms [unfolded eh] Inr]) simp
qed

lemma emit_metrics_keeps:
  assumes "emit_metrics cfg global env d = (effs, d')"
  shows "dr_paused d' = dr_paused d \<and> dr_deadlines d' = dr_deadlines d \<and> set effs \<subseteq> {MetricsEmitted}"
  using assms by (auto simp: emit_metrics_def Let_def split: if_splits)

lemma tick_running_schedule:
  assumes "\<not> dr_paused d" "poll_tick cfg global env d = (effs, d', None)"
  shows "\<not> dr_paused d' \<and>
    (case earliest_due (ev_now env) (dr_deadlines d) of
       None \<Rightarrow> dr_deadlines d' = dr_deadlines d
     | Some i \<Rightarrow> dr_deadlines d' = rearm (ev_now env) (intervals cfg global) i (dr_deadlines d) \<and>
         ReadGroup (map sg_tag_path (pg_signals (dc_poll_groups cfg ! i))) \<in> set effs)"
proof -
  obtain effs1 d1 effs2 where t: "tick_running cfg global env d = (effs1, d1, None)"
    "emit_metrics cfg global env d1 = (effs2, d')" "effs = effs1 @ effs2"
    using assms by (auto simp: poll_tick_def split: prod.splits option.splits)
  obtain pubs e1 where td: "take_due (ev_order env) (effective_batch_ms cfg global) (ev_now env) (dr_engine d) = (pubs, e1)"
    by (metis surj_pair)
  obtain effs3 e2 h2 where dl: "deliver_all cfg global (publish_mode_str OnChange) True (ev_sink env) 0 pubs (e1, dr_health d) =
      (effs3, e2, h2)" by (metis prod_cases3)
  note em = emit_metrics_keeps [OF t(2)]
  show ?thesis
  proof (cases "earliest_due (ev_now env) (dr_deadlines d)")
    case None
    with t(1) td dl em assms(1) show ?thesis by (auto simp: tick_running_def with_eh_def)
  next
    case (Some i)
    obtain effs4 eh ex where p: "poll_one cfg global env (length pubs) i (e2, h2) = (effs4, eh, ex)" by (metis prod_cases3)
    from poll_one_reads [OF p] t(1,3) td dl em assms(1) Some p show ?thesis
      by (auto simp: tick_running_def with_eh_def)
  qed
qed

lemma run_serves:
  assumes "poll_until_disconnected cfg global (map (\<lambda>env. (WkTick, env)) envs) d = (effs, d', None)" "\<not> dr_paused d"
    and "i \<in> set (served (intervals cfg global) (map ev_now envs) (dr_deadlines d))"
  shows "ReadGroup (map sg_tag_path (pg_signals (dc_poll_groups cfg ! i))) \<in> set effs"
  using assms
proof (induction envs arbitrary: d effs)
  case (Cons env envs)
  obtain effs1 d1 rest where s: "poll_tick cfg global env d = (effs1, d1, None)"
    "poll_until_disconnected cfg global (map (\<lambda>env. (WkTick, env)) envs) d1 = (rest, d', None)" "effs = effs1 @ rest"
    using Cons.prems(1) by (auto simp: poll_step_def split: prod.splits option.splits)
  note t = tick_running_schedule [OF Cons.prems(2) s(1)]
  from Cons.prems(3) t Cons.IH [OF s(2)] show ?case
    by (auto simp: s(3) split: option.splits)
qed simp

lemma served_in_time:
  assumes "length (dr_deadlines d) = length (dc_poll_groups cfg)" "\<not> dr_paused d" "j < length (dc_poll_groups cfg)"
    and "\<forall>env \<in> set envs. dr_deadlines d ! j \<le> ev_now env" "2 * length (dc_poll_groups cfg) \<le> length envs + 1"
    and "poll_until_disconnected cfg global (map (\<lambda>env. (WkTick, env)) envs) d = (effs, d', None)"
  shows "ReadGroup (map sg_tag_path (pg_signals (dc_poll_groups cfg ! j))) \<in> set effs"
proof (rule run_serves [OF assms(6,2)], rule served_fair)
  show "j < length (dr_deadlines d)" using assms(1,3) by simp
  then show "potential j (dr_deadlines d) < length (map ev_now envs)"
    using potential_bound [of j "dr_deadlines d"] assms(1,5) by simp
qed (use assms intervals_positive in auto)

text \<open>A paused instance: what its steps do until a resume.\<close>

definition is_resume :: "wake \<Rightarrow> bool" where
  "is_resume wk = (case wk of WkControl (Some (CtlResume _)) \<Rightarrow> True | _ \<Rightarrow> False)"

lemma paused_step:
  assumes "dr_paused d" "\<not> is_resume (fst inp)" "poll_step cfg global inp d = (effs, d', ex)"
  shows "dr_paused d' \<and> list_all (\<lambda>x. \<not> is_publish x) effs \<and>
    (fst inp = WkTick \<longrightarrow> set effs \<subseteq> {SessionClosed, MetricsEmitted})"
proof -
  obtain wk env where inp: "inp = (wk, env)" by (metis surj_pair)
  show ?thesis
  proof (cases wk)
    case WkCancel
    with assms inp show ?thesis by (auto simp: poll_step_def)
  next
    case (WkControl m)
    have c: "dr_paused d' \<and> list_all (\<lambda>x. \<not> is_publish x) effs"
      if "m = Some ctl" "poll_control cfg global env ctl d = (effs, d', ex)" for ctl
      using that assms(1,2) inp WkControl
      by (cases ctl) (auto simp: is_resume_def poll_control_def Let_def list_all_iff
          split: sum.splits device_error.splits prod.splits if_splits)
    show ?thesis
    proof (cases m)
      case None
      with assms inp WkControl show ?thesis by (auto simp: poll_step_def)
    next
      case (Some ctl)
      with c [OF Some] assms(3) inp WkControl show ?thesis by (simp add: poll_step_def)
    qed
  next
    case WkTick
    obtain effs1 d1 ex1 where t: "tick_paused global env d = (effs1, d1, ex1)" by (metis prod_cases3)
    then have q: "dr_paused d1" "set effs1 \<subseteq> {SessionClosed}"
      using assms(1) by (auto simp: tick_paused_def Let_def split: if_splits sum.splits)
    have "dr_paused d' \<and> set effs \<subseteq> {SessionClosed, MetricsEmitted}"
      using assms(1,3) inp WkTick t q emit_metrics_keeps [of cfg global env d1]
      by (cases ex1) (auto simp: poll_step_def poll_tick_def split: prod.splits)
    then show ?thesis by (auto simp: list_all_iff)
  qed
qed

lemma paused_run:
  assumes "poll_until_disconnected cfg global inps d = (effs, d', ex)" "dr_paused d"
    and "\<forall>inp \<in> set inps. \<not> is_resume (fst inp)"
  shows "dr_paused d' \<and> list_all (\<lambda>x. \<not> is_publish x) effs"
  using assms
proof (induction inps arbitrary: d effs d' ex)
  case (Cons inp inps)
  obtain effs1 d1 ex1 where s: "poll_step cfg global inp d = (effs1, d1, ex1)" by (metis prod_cases3)
  obtain rest d2 ex2 where r: "poll_until_disconnected cfg global inps d1 = (rest, d2, ex2)" by (metis prod_cases3)
  have p: "dr_paused d1 \<and> list_all (\<lambda>x. \<not> is_publish x) effs1"
    using paused_step [OF Cons.prems(2) _ s] Cons.prems(3) by simp
  show ?case
  proof (cases ex1)
    case None
    have "dr_paused d2 \<and> list_all (\<lambda>x. \<not> is_publish x) rest" by (rule Cons.IH [OF r]) (use p Cons.prems(3) in auto)
    with None p Cons.prems(1) s r show ?thesis by auto
  next
    case (Some x)
    with p Cons.prems(1) s show ?thesis by auto
  qed
qed simp

text \<open>A poll of a group with batching off: each good reading against what the bus shows.\<close>

lemma poll_reading_now:
  assumes "poll_reading mode 0 now ts db r st h = (out, st', h')"
  shows "out = (if gate_passes st (rd_value r) (rd_quality r) mode db
    then Some [sample_of (rd_value r) (rd_quality r) (rd_quality_raw r) (Some ts)] else None)"
proof -
  have "gate_passes (note_good q now st) = gate_passes st" for q
    by (intro ext) (simp add: gate_passes_def note_good_def)
  with assms show ?thesis
    by (auto simp: poll_reading_def Let_def split: prod.splits if_splits dest!: accept_out)
qed

lemma process_signals_now:
  assumes "process_signals specs mode 0 readings now ts (e, h) = (pubs, e', h')"
    and "distinct (map sg_tag_path specs)" "spec \<in> set specs" "by_id readings (sg_tag_path spec) = Some r"
  shows "out_samples pubs (sg_tag_path spec) =
    (if gate_passes (entry_or_default e (sg_tag_path spec)) (rd_value r) (rd_quality r) mode (sg_deadband spec)
     then [sample_of (rd_value r) (rd_quality r) (rd_quality_raw r) (Some ts)] else [])"
  using assms
proof (induction specs arbitrary: e h pubs)
  case (Cons s specs)
  show ?case
  proof (cases "by_id readings (sg_tag_path s)")
    case None
    with Cons show ?thesis by auto
  next
    case (Some r1)
    obtain o1 st h1 where r: "poll_reading mode 0 now ts (sg_deadband s) r1 (entry_or_default e (sg_tag_path s)) h = (o1, st, h1)"
      by (metis prod_cases3)
    obtain ps e2 h2 where p: "process_signals specs mode 0 readings now ts (put_state (sg_tag_path s) st e, h1) = (ps, e2, h2)"
      by (metis prod_cases3)
    have eq: "pubs = publish_now (sg_tag_path s) o1 @ ps" "e' = e2" "h' = h2"
      using Cons.prems(1) process_signals_step [OF Some r p] by auto
    have p': "process_signals specs mode 0 readings now ts (put_state (sg_tag_path s) st e, h1) = (ps, e', h')"
      using p eq by simp
    show ?thesis
    proof (cases "spec = s")
      case True
      have "out_samples ps (sg_tag_path s) = []"
        using process_signals_ids [OF p'] Cons.prems(2) by (intro out_samples_notin) auto
      then show ?thesis using True poll_reading_now [OF r] Some Cons.prems(4) by (auto simp: eq(1) out_samples_now)
    next
      case False
      with Cons.prems(3) have ne1: "spec \<in> set specs" by simp
      then have "sg_tag_path spec \<in> sg_tag_path ` set specs" by (rule imageI)
      moreover have "sg_tag_path s \<notin> sg_tag_path ` set specs" using Cons.prems(2) by simp
      ultimately have ne2: "sg_tag_path spec \<noteq> sg_tag_path s" by metis
      from Cons.IH [OF p' _ ne1 Cons.prems(4)] Cons.prems(2) ne2 show ?thesis
        by (simp add: eq(1) out_samples_now entry_or_default_def put_state_def)
    qed
  qed
qed simp

lemma take_due_unbatched: "unbatched e \<Longrightarrow> take_due order batch_ms now e = ([], e)"
proof (induction order)
  case (Cons i order)
  have "batcher_take_due now batch_ms (ss_batcher st) = (None, ss_batcher st)" if "en_state e i = Some st" for st
    using Cons.prems that by (auto simp: unbatched_def batcher_take_due_def split: option.splits)
  with Cons show ?case by (auto split: option.splits)
qed simp

lemma tracks_gate:
  assumes "tracks (bus hist) (\<lambda>_. []) e" "unbatched e"
  shows "gate_passes (entry_or_default e i) v q mode db = should_publish (bus hist i) v q mode db"
proof -
  have "tracks_state (bus hist i) [] (entry_or_default e i)" using tracks_entry [OF assms(1), of i] .
  moreover have "ba_buffer (ss_batcher (entry_or_default e i)) = []" using unbatched_entry [OF assms(2)] .
  ultimately have "ss_committed (entry_or_default e i) = bus hist i" "ss_pending (entry_or_default e i) = None"
    by (simp_all add: tracks_state_def)
  then show ?thesis by (simp add: gate_passes_def should_publish_def)
qed

lemma find_group_signal:
  assumes "g \<in> set (dc_poll_groups cfg)" "spec \<in> set (pg_signals g)"
  shows "find_signal cfg (sg_tag_path spec) \<noteq> None"
  using assms by (auto simp: find_signal_def find_None_iff dc_signals_def)

lemma poll_one_bus:
  assumes "engine_inv cfg global hist e" "effective_batch_ms cfg global = 0" "wf_poll cfg" "idx < length (dc_poll_groups cfg)"
    and "poll_one cfg global env k idx (e, h) = (effs, (e', h'), ex)" "ev_read env 0 = Inr readings"
    and "spec \<in> set (pg_signals (dc_poll_groups cfg ! idx))" "by_id readings (sg_tag_path spec) = Some r" "rd_quality r = Good"
    and "\<And>n. \<exists>u. fst (ev_sink env n) = Inr u"
  shows "bus (hist @ effs) (sg_tag_path spec) =
    (if should_publish (bus hist (sg_tag_path spec)) (rd_value r) Good (modes cfg global ! idx) (sg_deadband spec)
     then Some (rd_value r) else bus hist (sg_tag_path spec))"
proof -
  let ?g = "dc_poll_groups cfg ! idx" and ?t = "sg_tag_path spec"
  have g: "?g \<in> set (dc_poll_groups cfg)" using assms(4) by simp
  have inv: "tracks (bus hist) (\<lambda>_. []) e" "unbatched e" using assms(1,2) by (auto simp: engine_inv_def)
  from assms(5,6) show ?thesis
  proof (rule poll_one_ok)
    fix h2 pubs e3 h3 effs1 m
    assume p: "process_group ?g (modes cfg global ! idx) (effective_batch_ms cfg global) readings
        (ev_now2 env 0) (ev_server_ts env 0) (e, h2) = (pubs, e3, h3)"
      and dl: "deliver_all cfg global (publish_mode_str (modes cfg global ! idx)) False (ev_sink env) k pubs (e3, h3) = (effs1, e', h')"
      and eq: "effs = [ReadGroup (map sg_tag_path (pg_signals ?g))] @ effs1 @ [m]" and m: "\<not> is_publish m"
    note p' = p [unfolded process_group_def assms(2)]
    have known: "find_signal cfg (pb_signal_id q) \<noteq> None" if "q \<in> set pubs" for q
    proof -
      have "pb_signal_id q \<in> sg_tag_path ` set (pg_signals ?g)" using process_signals_ids [OF p'] that by auto
      then show ?thesis using find_group_signal [OF g] by auto
    qed
    have "confirmed effs ?t = out_samples pubs ?t"
      using deliver_all_sent [OF dl assms(10) known, of ?t] m by (simp add: eq confirmed_none)
    with process_signals_now [OF p' group_distinct [OF assms(3) g] assms(7,8)] tracks_gate [OF inv] assms(9)
    show ?thesis by (simp add: bus_append published_def sample_of_def)
  qed
qed

lemma reachable_loop_inv:
  assumes "reachable (loop_init cfg global) (loop_step cfg global) (hist, d, ex)" "wf_poll cfg"
  shows "loop_inv cfg global hist d"
  using poll_loop.reachable_inv [OF assms(1)] assms(2) by (simp add: loop_ok_def)

lemma tick_bus:
  assumes "loop_inv cfg global hist d" "wf_poll cfg"
    and "effective_batch_ms cfg global = 0" "\<not> dr_paused d" "earliest_due (ev_now env) (dr_deadlines d) = Some idx"
    and "ev_read env 0 = Inr readings" "spec \<in> set (pg_signals (dc_poll_groups cfg ! idx))"
    and "by_id readings (sg_tag_path spec) = Some r" "rd_quality r = Good" "\<And>n. \<exists>u. fst (ev_sink env n) = Inr u"
    and "poll_step cfg global (WkTick, env) d = (effs, d', ex)"
  shows "ex = None \<and> bus (hist @ effs) (sg_tag_path spec) =
    (if should_publish (bus hist (sg_tag_path spec)) (rd_value r) Good (modes cfg global ! idx) (sg_deadband spec)
     then Some (rd_value r) else bus hist (sg_tag_path spec))"
proof -
  note inv = assms(1)
  have e: "engine_inv cfg global hist (dr_engine d)" "unbatched (dr_engine d)"
    using inv assms(3) by (auto simp: loop_inv_def engine_inv_def)
  have idx: "idx < length (dc_poll_groups cfg)" using earliest_due_Some [OF assms(5)] inv by (simp add: loop_inv_def)
  obtain effs1 e' h' ex1 where p: "poll_one cfg global env 0 idx (dr_engine d, dr_health d) = (effs1, (e', h'), ex1)"
    by (metis prod_cases3 surj_pair)
  have ex1: "ex1 = None" by (rule poll_one_ok [OF p assms(6)])
  have t: "tick_running cfg global env d =
      (effs1, with_eh (d\<lparr>dr_deadlines := rearm (ev_now env) (intervals cfg global) idx (dr_deadlines d)\<rparr>) (e', h'), None)"
    using p ex1 assms(5) by (simp add: tick_running_def take_due_unbatched [OF e(2)] deliver_all_def)
  obtain effs2 where "ex = None" "effs = effs1 @ effs2" "set effs2 \<subseteq> {MetricsEmitted}"
    using assms(4,11) t emit_metrics_keeps [of cfg global env]
    by (auto simp: poll_step_def poll_tick_def split: prod.splits)
  moreover from this have "list_all (\<lambda>x. \<not> is_publish x) effs2" by (auto simp: list_all_iff)
  ultimately have "ex = None" "effs = effs1 @ effs2" "bus (hist @ effs1 @ effs2) = bus (hist @ effs1)"
    using bus_quiet [of effs2 "hist @ effs1"] by simp_all
  with poll_one_bus [OF e(1) assms(3,2) idx p assms(6-10)] show ?thesis by simp
qed

section \<open>Properties\<close>

text \<open>
  C10. Whatever the control messages, the answers of the device and the outcomes of the publishes have been,
  the committed baseline of every signal is the last good value whose publish was confirmed, its pending
  baseline the last good value in its open window, and a window is open exactly while it holds samples:
  a failed publish never becomes the baseline the next reading is compared with.
\<close>

theorem baselines_track_bus:
  assumes "reachable (loop_init cfg global) (loop_step cfg global) (hist, d, ex)" "wf_poll cfg"
    and "en_state (dr_engine d) i = Some st"
  shows "ss_committed st = last_good (confirmed hist i) \<and> ss_pending st = last_good (ba_buffer (ss_batcher st)) \<and>
    (ba_window_open (ss_batcher st) = None \<longleftrightarrow> ba_buffer (ss_batcher st) = [])"
proof -
  have "tracks (bus hist) (\<lambda>_. []) (dr_engine d)"
    using reachable_loop_inv [OF assms(1,2)] by (simp add: loop_inv_def engine_inv_def)
  then have "tracks_state (bus hist i) [] st" using assms(3) by (auto simp: tracks_def split: option.splits dest: spec [of _ i])
  then show ?thesis by (simp add: tracks_state_def bus_def)
qed

text \<open>
  C11. With batching off and a sink that accepts, one poll of a group brings the bus up to date: a good reading
  is on the bus after the iteration exactly when the gate passes it against what the bus showed before,
  and otherwise the bus keeps its value.
\<close>

theorem poll_cycle_reaches_bus:
  assumes "reachable (loop_init cfg global) (loop_step cfg global) (hist, d, None)" "wf_poll cfg"
    and "effective_batch_ms cfg global = 0" "\<not> dr_paused d" "earliest_due (ev_now env) (dr_deadlines d) = Some idx"
    and "ev_read env 0 = Inr readings" "spec \<in> set (pg_signals (dc_poll_groups cfg ! idx))"
    and "by_id readings (sg_tag_path spec) = Some r" "rd_quality r = Good" "\<And>n. \<exists>u. fst (ev_sink env n) = Inr u"
    and "poll_step cfg global (WkTick, env) d = (effs, d', ex)"
  shows "bus (hist @ effs) (sg_tag_path spec) =
    (if should_publish (bus hist (sg_tag_path spec)) (rd_value r) Good (modes cfg global ! idx) (sg_deadband spec)
     then Some (rd_value r) else bus hist (sg_tag_path spec))"
  using tick_bus [OF reachable_loop_inv [OF assms(1,2)] assms(2-11)] by blast

text \<open>
  C12. A paused instance publishes nothing: from a paused state, whatever happens short of a resume - ticks,
  reads and writes on demand, repeated pauses, repolls - the run attempts no publish and stays paused.
\<close>

theorem paused_silent:
  assumes "dr_paused d" "\<forall>inp \<in> set inps. \<not> is_resume (fst inp)"
    and "poll_until_disconnected cfg global inps d = (effs, d', ex)"
  shows "dr_paused d' \<and> (\<forall>i ss sent. Published i ss sent \<notin> set effs)"
  using paused_run [OF assms(3,1,2)] by (auto simp: list_all_iff)

text \<open>
  C13. The schedule is fair: while the link holds, a group that is due is read within \<open>2 n - 1\<close> wake-ups of the
  loop, with \<open>n\<close> the number of groups, however short the intervals of the others are.
\<close>

theorem poll_fair:
  assumes "reachable (loop_init cfg global) (loop_step cfg global) (hist, d, None)" "wf_poll cfg"
    and "\<not> dr_paused d" "j < length (dc_poll_groups cfg)" "\<forall>env \<in> set envs. dr_deadlines d ! j \<le> ev_now env"
    and "2 * length (dc_poll_groups cfg) \<le> length envs + 1"
    and "poll_until_disconnected cfg global (map (\<lambda>env. (WkTick, env)) envs) d = (effs, d', None)"
  shows "ReadGroup (map sg_tag_path (pg_signals (dc_poll_groups cfg ! j))) \<in> set effs"
  using served_in_time [OF _ assms(3-7)] reachable_loop_inv [OF assms(1,2)] by (simp add: loop_inv_def)

section \<open>A concrete run\<close>

definition example_reading :: reading where
  "example_reading = \<lparr>rd_signal_id = ascii ''R'', rd_name = None, rd_value = JBool True, rd_quality = Good,
     rd_quality_raw = None, rd_observed_type = None\<rparr>"

definition example_env :: "instant \<Rightarrow> rstr list \<Rightarrow> step_env" where
  "example_env now order =
     \<lparr>ev_now = now, ev_now2 = (\<lambda>_. now), ev_server_ts = (\<lambda>_. []), ev_elapsed = 0, ev_order = order,
      ev_read = (\<lambda>_. Inr [example_reading]), ev_write = Inr (), ev_probe = Inr (), ev_browse = Inl (Unsupported []),
      ev_sink = (\<lambda>_. (Inr (), 0))\<rparr>"

definition example_start :: driver where
  "example_start = driver_init example_poll global_config_default 0 health_default"

lemma example_reach: "reachable (loop_init example_poll global_config_default) (loop_step example_poll global_config_default)
    ([], example_start, None)"
  by (rule reach_init) (auto simp: loop_init_def example_start_def)

lemmas example_run_defs = example_start_def driver_init_def intervals_def modes_def effective_poll_ms_def
  effective_publish_mode_def effective_batch_ms_def global_config_default_def example_defs engine_new_def health_default_def
  BUILTIN_BATCH_MS_def BUILTIN_PUBLISH_MODE_def from_millis_def or_else_def unwrap_or_def

lemma example_settings [simp]:
  "effective_batch_ms example_poll global_config_default = 0" "dr_paused example_start = False"
  "dr_deadlines example_start = [100000000]" "length (dc_poll_groups example_poll) = 1"
  "pg_signals (dc_poll_groups example_poll ! 0) = [example_signal ''S'' EipReal, example_signal ''R'' EipBool]"
  "modes example_poll global_config_default ! 0 = OnChange" "wf_order (example_env now []) example_start"
  by (simp_all add: example_run_defs wf_order_def example_env_def)

lemma example_due: "100000000 \<le> now \<Longrightarrow> earliest_due now (dr_deadlines example_start) = Some 0"
  by (simp add: earliest_due_def keep_min_def)

lemma example_tick:
  assumes "poll_step example_poll global_config_default (WkTick, example_env 100000000 []) example_start = (effs, d', ex)"
  shows "ex = None \<and> bus effs (ascii ''R'') = Some (JBool True)"
proof -
  have s: "example_signal ''R'' EipBool \<in> set (pg_signals (dc_poll_groups example_poll ! 0))" by simp
  have r: "by_id [example_reading] (sg_tag_path (example_signal ''R'' EipBool)) = Some example_reading"
    by (simp add: by_id_def example_reading_def example_signal_def)
  have e: "ev_now (example_env 100000000 []) = 100000000" "ev_read (example_env 100000000 []) 0 = Inr [example_reading]"
    "rd_quality example_reading = Good" "\<And>n. \<exists>u. fst (ev_sink (example_env 100000000 []) n) = Inr u"
    by (simp_all add: example_env_def example_reading_def)
  have inv: "loop_inv example_poll global_config_default [] example_start"
    using reachable_loop_inv [OF example_reach wf_poll_example] .
  have due: "earliest_due (ev_now (example_env 100000000 [])) (dr_deadlines example_start) = Some 0"
    unfolding e(1) by (rule example_due) simp
  have p: "\<not> dr_paused example_start" by simp
  have "sg_tag_path (example_signal ''R'' EipBool) = ascii ''R''" "rd_value example_reading = JBool True"
    by (simp_all add: example_signal_def example_reading_def)
  with tick_bus [OF inv wf_poll_example example_settings(1) p due e(2) s r e(3,4) assms] show ?thesis
    by (simp add: bus_def should_publish_def)
qed

text \<open>Witnesses: the first poll of the example.\<close>

theorem poll_cycle_reaches_bus_witness:
  "\<exists>effs d'. poll_step example_poll global_config_default (WkTick, example_env 100000000 []) example_start = (effs, d', None) \<and>
     bus effs (ascii ''R'') = Some (JBool True)"
proof -
  let ?env = "example_env 100000000 []"
  obtain effs d' ex where s: "poll_step example_poll global_config_default (WkTick, ?env) example_start = (effs, d', ex)"
    by (metis prod_cases3)
  have h: "\<not> dr_paused example_start" "earliest_due (ev_now ?env) (dr_deadlines example_start) = Some 0"
    "ev_read ?env 0 = Inr [example_reading]" "example_signal ''R'' EipBool \<in> set (pg_signals (dc_poll_groups example_poll ! 0))"
    "by_id [example_reading] (sg_tag_path (example_signal ''R'' EipBool)) = Some example_reading"
    "rd_quality example_reading = Good" "\<And>n. \<exists>u. fst (ev_sink ?env n) = Inr u"
    by (simp_all only: example_settings example_due example_env_def)
      (simp_all add: earliest_due_def keep_min_def by_id_def example_reading_def example_signal_def)
  have "sg_tag_path (example_signal ''R'' EipBool) = ascii ''R''" "rd_value example_reading = JBool True"
    by (simp_all add: example_signal_def example_reading_def)
  with poll_cycle_reaches_bus [OF example_reach wf_poll_example example_settings(1) h s] s example_tick [OF s]
  show ?thesis by (auto simp: bus_def should_publish_def)
qed

theorem baselines_track_bus_witness:
  "\<exists>hist d st. reachable (loop_init example_poll global_config_default) (loop_step example_poll global_config_default) (hist, d, None) \<and>
     en_state (dr_engine d) (ascii ''R'') = Some st \<and> ss_committed st = Some (JBool True) \<and> ba_window_open (ss_batcher st) = None"
proof -
  let ?env = "example_env 100000000 []"
  obtain effs d' ex where s: "poll_step example_poll global_config_default (WkTick, ?env) example_start = (effs, d', ex)"
    by (metis prod_cases3)
  have r: "reachable (loop_init example_poll global_config_default) (loop_step example_poll global_config_default) (effs, d', None)"
    by (rule reach_step [OF example_reach]) (use loop_stepI [OF _ s, of "[]"] example_tick [OF s] in auto)
  have inv: "loop_inv example_poll global_config_default effs d'" using reachable_loop_inv [OF r wf_poll_example] .
  have b: "bus effs (ascii ''R'') = Some (JBool True)" using example_tick [OF s] by simp
  then obtain st where st: "en_state (dr_engine d') (ascii ''R'') = Some st"
    using inv by (auto simp: loop_inv_def engine_inv_def tracks_def split: option.splits dest: spec [of _ "ascii ''R''"])
  have "unbatched (dr_engine d')" using inv by (simp add: loop_inv_def engine_inv_def)
  then have "ba_buffer (ss_batcher st) = []" using st by (auto simp: unbatched_def)
  with baselines_track_bus [OF r wf_poll_example st] b r st show ?thesis by (auto simp: bus_def)
qed

theorem paused_silent_witness:
  "\<exists>effs d' ex. poll_until_disconnected example_poll global_config_default
       [(WkTick, example_env 100000000 []), (WkControl (Some (CtlRepoll 7)), example_env 100000001 [])]
       (example_start\<lparr>dr_paused := True\<rparr>) = (effs, d', ex) \<and> dr_paused d' \<and> (\<forall>i ss sent. Published i ss sent \<notin> set effs)"
proof -
  let ?inps = "[(WkTick, example_env 100000000 []), (WkControl (Some (CtlRepoll 7)), example_env 100000001 [])]"
  obtain effs d' ex where s: "poll_until_disconnected example_poll global_config_default ?inps
      (example_start\<lparr>dr_paused := True\<rparr>) = (effs, d', ex)" by (metis prod_cases3)
  from paused_silent [OF _ _ s] s show ?thesis by (simp add: is_resume_def)
qed

theorem poll_fair_witness:
  "\<exists>effs d'. poll_until_disconnected example_poll global_config_default [(WkTick, example_env 100000000 [])] example_start =
       (effs, d', None) \<and> ReadGroup [ascii ''S'', ascii ''R''] \<in> set effs"
proof -
  obtain effs d' ex where s: "poll_step example_poll global_config_default (WkTick, example_env 100000000 []) example_start =
      (effs, d', ex)" by (metis prod_cases3)
  have r: "poll_until_disconnected example_poll global_config_default
      (map (\<lambda>env. (WkTick, env)) [example_env 100000000 []]) example_start = (effs, d', None)"
    using s example_tick [OF s] by simp
  have "ReadGroup (map sg_tag_path (pg_signals (dc_poll_groups example_poll ! 0))) \<in> set effs"
    by (rule poll_fair [OF example_reach wf_poll_example _ _ _ _ r]) (simp_all add: example_env_def)
  with r show ?thesis by (simp add: example_signal_def)
qed

end
