(* ===== verification/Push_Driver.thy ===== *)
theory Push_Driver
  imports Delivery Io_Queue Step_System
begin

text \<open>
  The push side: the translation of an accepted assembly frame into readings (\<^verbatim>\<open>eip/push.rs\<close>) and the consume
  loop (\<^verbatim>\<open>push_driver.rs\<close>), one iteration of its select as a step. As in the poll loop, what is awaited is an
  input and what is done is logged; the class 1 counters of the metrics are part of the state, since the loop
  branches on them.
\<close>

section \<open>From a frame to readings\<close>

definition reading_of_field :: "io_field_spec \<Rightarrow> u16 \<Rightarrow> cip_value \<Rightarrow> bool \<Rightarrow> reading" where
  "reading_of_field field assembly_inst v run_mode =
     (let (val, q, raw) =
        (case decode_value v (if_eip_type field) (if_scale field) (if_value_offset field) of
           Inr d \<Rightarrow>
             if dd_non_finite d then (JNull, Uncertain, ascii ''NON_FINITE_AFTER_SCALE'')
             else if run_mode then (dd_value d, Good, ascii ''0x00'')
             else (dd_value d, Uncertain, ascii ''IDLE'')
         | Inl e \<Rightarrow> (JNull, Bad, ascii (decode_error_quality_raw e)))
      in \<lparr>rd_signal_id = field_signal_id field assembly_inst, rd_name = Some (if_name field), rd_value = val,
          rd_quality = q, rd_quality_raw = Some raw, rd_observed_type = None\<rparr>)"

definition assembly_to_readings :: "assembly_layout \<Rightarrow> io_field_spec list \<Rightarrow> u16 \<Rightarrow> bytes \<Rightarrow> bool \<Rightarrow> reading list" where
  "assembly_to_readings layout flds assembly_inst data run_mode =
     (case assembly_decode layout data of
        Inl _ \<Rightarrow> []
      | Inr decoded \<Rightarrow>
          List.map_filter (\<lambda>(key, v).
            if key < length flds then Some (reading_of_field (flds ! key) assembly_inst v run_mode) else None) decoded)"

fun lost_reason_detail :: "lost_reason \<Rightarrow> string" where
  "lost_reason_detail LostTimeout = ''class-1 inactivity watchdog timeout''"
| "lost_reason_detail ClosedByPeer = ''peer closed the class-1 connection''"
| "lost_reason_detail LostIo = ''class-1 socket error''"

definition map_lost_reason :: "lost_reason \<Rightarrow> device_error" where
  "map_lost_reason reason = Transient (ascii (lost_reason_detail reason))"

section \<open>State and inputs of the loop\<close>

datatype push_exit = PushLinkLost | PushReconnect reply_to | PushStopped

datatype push_woke = WokeControl "device_control option" | WokeUpdate "seam_io_update option" | WokeTick | WokeCancelled

record push_driver =
  pd_engine :: engine
  pd_since_health :: instant
  pd_paused :: bool
  pd_health :: health
  pd_io :: io_counters

record push_env =
  pe_now :: instant
  pe_frame_now :: instant
  pe_server_ts :: rstr
  pe_order :: "rstr list"
  pe_last_input :: "input_snapshot option"
  pe_set_output :: "device_error + unit"
  pe_io_stats :: "io_link_stats option"
  pe_sink :: "nat \<Rightarrow> sink_result"

definition push_driver_init :: "instant \<Rightarrow> health \<Rightarrow> io_counters \<Rightarrow> push_driver" where
  "push_driver_init start h io =
     \<lparr>pd_engine = engine_new start, pd_since_health = start, pd_paused = h_paused h, pd_health = h, pd_io = io\<rparr>"

text \<open>The lookups by stable identifier: collecting into a hash map keeps the last of equal keys.\<close>

definition input_fields :: "io_config \<Rightarrow> rstr \<Rightarrow> io_field_spec option" where
  "input_fields io =
     map_of (rev (map (\<lambda>f. (field_signal_id f (ia_input (ic_assemblies io)), f)) (ii_signals (ic_input io))))"

definition input_ids :: "io_config \<Rightarrow> rstr list" where
  "input_ids io = remdups (map (\<lambda>f. field_signal_id f (ia_input (ic_assemblies io))) (ii_signals (ic_input io)))"

definition input_deadbands :: "io_config \<Rightarrow> rstr \<Rightarrow> deadband_spec option" where
  "input_deadbands io i = map_option (\<lambda>f. unwrap_or (if_deadband f) deadband_default) (input_fields io i)"

definition push_next_wake :: "device_config \<Rightarrow> global_config \<Rightarrow> rstr list \<Rightarrow> push_driver \<Rightarrow> instant" where
  "push_next_wake cfg global order d =
     (let w = pd_since_health d + unat (max (gc_metrics_interval_secs global) 1) * 1000000000 in
      if pd_paused d then w
      else case next_batch_deadline order (effective_batch_ms cfg global) (pd_engine d) of
             Some t \<Rightarrow> min w t
           | None \<Rightarrow> w)"

definition publish_field ::
    "io_config \<Rightarrow> string \<Rightarrow> bool \<Rightarrow> (nat \<Rightarrow> sink_result) \<Rightarrow> nat \<Rightarrow> rstr \<Rightarrow> sample list \<Rightarrow> health \<Rightarrow>
     bool \<times> effect list \<times> health" where
  "publish_field io mode from_batch sink k i samples h =
     (case input_fields io i of
        None \<Rightarrow> (False, [], h)
      | Some field \<Rightarrow> publish_result (field_signal_id field (ia_input (ic_assemblies io))) samples mode from_batch (sink k) h)"

section \<open>The arms of the select\<close>

text \<open>A transition emission drains the class 1 pairs and the interval counters of the health record.\<close>

definition push_emitted :: "push_driver \<Rightarrow> push_driver" where
  "push_emitted d = d\<lparr>pd_io := snd (io_drain (pd_io d)), pd_health := drain_health (pd_health d)\<rparr>"

definition push_control ::
    "device_config \<Rightarrow> push_env \<Rightarrow> device_control \<Rightarrow> push_driver \<Rightarrow> effect list \<times> push_driver \<times> push_exit option" where
  "push_control cfg env ctl d =
     (let h = pd_health d in
      case ctl of
        CtlSnapshot r \<Rightarrow> ([Replied r (RepSnapshot (pe_last_input env))], d, None)
      | CtlWriteOutput f v r \<Rightarrow>
          (case pe_set_output env of
             Inr _ \<Rightarrow> ([Replied r (RepWrite (Inr ()))], d, None)
           | Inl err \<Rightarrow>
               ([Replied r (RepWrite (Inl (device_error_display err)))],
                d\<lparr>pd_health := h\<lparr>h_write_errors := h_write_errors h + 1\<rparr>\<rparr>, None))
      | CtlPause who r \<Rightarrow>
          (let (changed, evs, h1) = apply_pause cfg True who h;
               d1 = d\<lparr>pd_health := h1\<rparr>;
               d2 = (if changed then push_emitted d1 else d1);
               (dropped, e1) = discard_open_batches (pe_order env) 0 (pd_engine d2)
           in ((if changed then [MetricsEmitted] else []) @ map Evented evs @ [Replied r (RepChanged changed)],
               d2\<lparr>pd_engine := e1, pd_paused := True\<rparr>, None))
      | CtlResume r \<Rightarrow>
          (let (changed, evs, h1) = apply_pause cfg False None h;
               d1 = d\<lparr>pd_health := h1\<rparr>;
               d2 = (if changed then push_emitted d1 else d1);
               pairs = (if changed
                        then (case pe_last_input env of
                                Some snap \<Rightarrow> map (\<lambda>x. (rd_signal_id x, rd_value x)) (is_readings snap)
                              | None \<Rightarrow> [])
                        else [])
           in ((if changed then [MetricsEmitted] else []) @ map Evented evs @
                 [Rebased pairs, Replied r (RepChanged changed)],
               d2\<lparr>pd_engine := rebase_from pairs (pe_now env) (pd_engine d2), pd_paused := False\<rparr>, None))
      | CtlReconnect r \<Rightarrow> ([], d, Some (PushReconnect r))
      | CtlReadNow specs r \<Rightarrow>
          ([Replied r (RepReadings (Inl (ascii ''push instance - reads answer from the input snapshot'')))], d, None)
      | CtlWrite sig v r \<Rightarrow>
          ([Replied r (RepWrite (Inl (ascii ''push instance - writes target the output assembly'')))], d, None)
      | CtlRepoll r \<Rightarrow> ([Replied r (RepRepoll (Inl (ascii ''push instance - data arrives cyclically'')))], d, None)
      | CtlBrowse cursor mx r \<Rightarrow> ([Replied r (RepBrowse (Inl BrowseUnsupported))], d, None))"

definition push_up :: "device_config \<Rightarrow> rstr \<Rightarrow> u32 \<Rightarrow> u32 \<Rightarrow> push_driver \<Rightarrow> effect list \<times> push_driver" where
  "push_up cfg adapter o2t t2o d =
     (let d1 = push_emitted (d\<lparr>pd_health := set_link Online (pd_health d), pd_io := on_io_up o2t t2o (pd_io d)\<rparr>);
          ctx = [json_field ''instance'' (JString (dc_id cfg)), json_field ''adapter'' (JString adapter),
                 json_field ''o2tApiMs'' (json_of_u64 (ucast o2t)), json_field ''t2oApiMs'' (json_of_u64 (ucast t2o))] @
                json_opt ''identity'' (map_option identity_json (h_identity (pd_health d1)))
      in ([MetricsEmitted, Evented (Emit Info ''device-connected'' ctx), Evented (ClearAlarm Critical ''device-unreachable'')], d1))"

definition push_data ::
    "device_config \<Rightarrow> global_config \<Rightarrow> io_config \<Rightarrow> push_env \<Rightarrow> reading list \<Rightarrow> u16 \<Rightarrow> bool \<Rightarrow> instant \<Rightarrow> push_driver \<Rightarrow>
     effect list \<times> push_driver \<times> nat" where
  "push_data cfg global io env readings seq run_mode received_at d =
     (let d1 = d\<lparr>pd_health := (pd_health d)\<lparr>h_frames_consumed := h_frames_consumed (pd_health d) + 1\<rparr>,
                 pd_io := record_frame_consumed seq received_at run_mode (pd_io d)\<rparr>
      in if pd_paused d1 then ([], d1, 0)
         else
           let mode = push_publish_mode cfg global;
               (pubs, e1, h1) = process_frame readings (input_deadbands io) mode (ii_sample_ms (ic_input io))
                 (effective_batch_ms cfg global) (pe_frame_now env) (pe_server_ts env) (pd_engine d1, pd_health d1);
               (effs, e2, h2) = deliver_with (publish_field io (publish_mode_str mode) False (pe_sink env)) 0 pubs (e1, h1)
           in (effs, d1\<lparr>pd_engine := e2, pd_health := h2\<rparr>, length pubs))"

definition push_lost :: "push_driver \<Rightarrow> push_driver" where
  "push_lost d = d\<lparr>pd_health := (pd_health d)\<lparr>h_read_errors := h_read_errors (pd_health d) + 1\<rparr>, pd_io := on_io_lost (pd_io d)\<rparr>"

text \<open>What follows an update or a wake-up: the flush of the windows that closed, then the metrics.\<close>

definition push_flush ::
    "device_config \<Rightarrow> global_config \<Rightarrow> io_config \<Rightarrow> push_env \<Rightarrow> nat \<Rightarrow> push_driver \<Rightarrow> effect list \<times> push_driver" where
  "push_flush cfg global io env k d =
     (if pd_paused d then ([], d)
      else
        let (pubs, e1) = take_due (pe_order env) (effective_batch_ms cfg global) (pe_now env) (pd_engine d);
            (effs, e2, h2) = deliver_with (publish_field io (publish_mode_str (push_publish_mode cfg global)) True (pe_sink env))
              k pubs (e1, pd_health d)
        in (effs, d\<lparr>pd_engine := e2, pd_health := h2\<rparr>))"

definition push_metrics ::
    "global_config \<Rightarrow> io_config \<Rightarrow> push_env \<Rightarrow> push_driver \<Rightarrow> effect list \<times> push_driver" where
  "push_metrics global io env d =
     (if saturating_duration_since (pe_now env) (pd_since_health d) \<ge> unat (max (gc_metrics_interval_secs global) 1) * 1000000000
      then
        let stale = (if pd_paused d then 0
              else engine_count_stale (input_ids io) (ht_stale_signal_secs (gc_health_thresholds global)) (pe_now env) (pd_engine d));
            d1 = d\<lparr>pd_health := (pd_health d)\<lparr>h_stale_signals := of_nat stale\<rparr>\<rparr>;
            (evs, d2) =
              (case pe_io_stats env of
                 Some stats \<Rightarrow>
                   (let (fresh, io1) = record_io_stats stats (pd_io d1) in
                    (if fresh
                     then [Evented (Emit Warning ''io-redirect-refused''
                             [json_field ''refusedRedirects'' (json_of_u64 (ls_refused_redirects stats))])]
                     else [],
                     d1\<lparr>pd_io := io1\<rparr>))
               | None \<Rightarrow> ([], d1))
        in (evs @ [MetricsEmitted], (push_emitted d2)\<lparr>pd_since_health := pe_now env\<rparr>)
      else ([], d))"

definition push_tail ::
    "device_config \<Rightarrow> global_config \<Rightarrow> io_config \<Rightarrow> push_env \<Rightarrow> nat \<Rightarrow> push_driver \<Rightarrow> effect list \<times> push_driver" where
  "push_tail cfg global io env k d =
     (let (effs1, d1) = push_flush cfg global io env k d; (effs2, d2) = push_metrics global io env d1
      in (effs1 @ effs2, d2))"

definition consume_step ::
    "device_config \<Rightarrow> global_config \<Rightarrow> rstr \<Rightarrow> io_config \<Rightarrow> push_woke \<times> push_env \<Rightarrow> push_driver \<Rightarrow>
     effect list \<times> push_driver \<times> push_exit option" where
  "consume_step cfg global adapter io inp d =
     (case inp of (woke, env) \<Rightarrow>
      case woke of
        WokeCancelled \<Rightarrow> ([], d, Some PushStopped)
      | WokeControl None \<Rightarrow> ([], d, Some PushStopped)
      | WokeControl (Some ctl) \<Rightarrow> push_control cfg env ctl d
      | WokeUpdate (Some (IoUp o2t t2o)) \<Rightarrow>
          (let (effs1, d1) = push_up cfg adapter o2t t2o d; (effs2, d2) = push_tail cfg global io env 0 d1
           in (effs1 @ effs2, d2, None))
      | WokeUpdate (Some (IoData readings seq run_mode received_at)) \<Rightarrow>
          (let (effs1, d1, k) = push_data cfg global io env readings seq run_mode received_at d;
               (effs2, d2) = push_tail cfg global io env k d1
           in (effs1 @ effs2, d2, None))
      | WokeUpdate (Some (IoLost err)) \<Rightarrow> ([], push_lost d, Some PushLinkLost)
      | WokeUpdate None \<Rightarrow> ([], push_lost d, Some PushLinkLost)
      | WokeTick \<Rightarrow> (let (effs, d1) = push_tail cfg global io env 0 d in (effs, d1, None)))"

text \<open>The loop, over the inputs of its iterations; a device without a class 1 block counts as lost at once.\<close>

fun consume_loop ::
    "device_config \<Rightarrow> global_config \<Rightarrow> rstr \<Rightarrow> io_config \<Rightarrow> (push_woke \<times> push_env) list \<Rightarrow> push_driver \<Rightarrow>
     effect list \<times> push_driver \<times> push_exit option" where
  "consume_loop cfg global adapter io [] d = ([], d, None)"
| "consume_loop cfg global adapter io (inp # inps) d =
     (case consume_step cfg global adapter io inp d of
        (effs, d1, Some exit) \<Rightarrow> (effs, d1, Some exit)
      | (effs, d1, None) \<Rightarrow>
          let (rest, d2, exit) = consume_loop cfg global adapter io inps d1 in (effs @ rest, d2, exit))"

definition consume_push ::
    "device_config \<Rightarrow> global_config \<Rightarrow> rstr \<Rightarrow> (push_woke \<times> push_env) list \<Rightarrow> push_driver \<Rightarrow>
     effect list \<times> push_driver \<times> push_exit option" where
  "consume_push cfg global adapter inps d =
     (case dc_io cfg of
        None \<Rightarrow> ([], d, Some PushLinkLost)
      | Some io \<Rightarrow> consume_loop cfg global adapter io inps d)"

section \<open>The publish routine of the loop\<close>

lemma input_fields_id: "input_fields io i = Some f \<Longrightarrow> field_signal_id f (ia_input (ic_assemblies io)) = i"
  by (auto simp: input_fields_def dest!: map_of_SomeD)

lemma publish_field_effects:
  assumes "publish_field io mode fb sink k i ss h = (sent, effs, h')"
  shows "confirmed effs j = (if sent \<and> j = i then ss else [])" "h_paused h' = h_paused h"
    "list_all is_delivery effs" "input_fields io i \<noteq> None \<Longrightarrow> sent = (\<exists>u. fst (sink k) = Inr u)"
  using assms input_fields_id [of io i] publish_result_effects [of i ss mode fb "sink k" h sent effs h' j]
  by (auto simp: publish_field_def split: option.splits)

interpretation push_pub: publisher "publish_field io mode from_batch sink"
  for io mode from_batch sink
  by unfold_locales (simp_all only: publish_field_effects)

section \<open>The reference values\<close>

text \<open>
  The value a signal is compared with: the last good one whose publish was confirmed, or the one of the
  snapshot at the last resume, whichever came later.
\<close>

definition ref_step :: "(rstr \<Rightarrow> json option) \<Rightarrow> effect \<Rightarrow> rstr \<Rightarrow> json option" where
  "ref_step base x i =
     (case x of
        Rebased pairs \<Rightarrow> (case map_of (rev pairs) i of Some v \<Rightarrow> Some v | None \<Rightarrow> base i)
      | _ \<Rightarrow> advance base [x] i)"

definition reference :: "effect list \<Rightarrow> rstr \<Rightarrow> json option" where
  "reference hist = foldl ref_step (\<lambda>_. None) hist"

lemma ref_step_calm: "\<not> is_rebase x \<Longrightarrow> ref_step base x = advance base [x]"
  by (cases x) (auto simp: ref_step_def fun_eq_iff)

lemma reference_calm: "list_all (\<lambda>x. \<not> is_rebase x) effs \<Longrightarrow> reference (hist @ effs) = advance (reference hist) effs"
proof (induction effs arbitrary: hist)
  case Nil
  then show ?case by (simp add: advance_quiet)
next
  case (Cons x effs)
  have "reference (hist @ [x]) = advance (reference hist) [x]" using Cons.prems by (simp add: reference_def ref_step_calm)
  with Cons.IH [of "hist @ [x]"] Cons.prems advance_append [of "reference hist" "[x]" effs] show ?case by simp
qed

lemma reference_quiet:
  "list_all (\<lambda>x. \<not> is_publish x \<and> \<not> is_rebase x) effs \<Longrightarrow> reference (hist @ effs) = reference hist"
  by (subst reference_calm) (auto simp: list_all_iff advance_quiet)

lemma reference_rebased:
  "reference (hist @ [Rebased pairs]) i = (case map_of (rev pairs) i of Some v \<Rightarrow> Some v | None \<Rightarrow> reference hist i)"
  unfolding reference_def by (simp add: ref_step_def)

lemma tracks_rebase_from:
  assumes "tracks base (\<lambda>_. []) e" "unbatched e"
  shows "tracks (\<lambda>i. case map_of (rev pairs) i of Some v \<Rightarrow> Some v | None \<Rightarrow> base i) (\<lambda>_. []) (rebase_from pairs now e) \<and>
    unbatched (rebase_from pairs now e)"
  using assms
proof (induction pairs arbitrary: base e)
  case (Cons iv pairs)
  obtain i v where iv: "iv = (i, v)" by fastforce
  let ?st = "(entry_or_default e i)\<lparr>ss_committed := Some v, ss_pending := None, ss_last_good := Some now\<rparr>"
  have "tracks_state (base i) [] (entry_or_default e i)" using tracks_entry [OF Cons.prems(1), of i] .
  moreover have b: "ba_buffer (ss_batcher (entry_or_default e i)) = []" using unbatched_entry [OF Cons.prems(2)] .
  ultimately have "tracks_state (Some v) [] ?st" by (simp add: tracks_state_def)
  from tracks_put [OF Cons.prems(1) this, of i] have t: "tracks (base(i := Some v)) (\<lambda>_. []) (put_state i ?st e)"
    by (simp add: fun_upd_idem)
  have u: "unbatched (put_state i ?st e)" using Cons.prems(2) b by (auto simp: unbatched_def)
  have eq: "(case map_of (rev pairs) j of Some v \<Rightarrow> Some v | None \<Rightarrow> (base(i := Some v)) j) =
      (case map_of (rev (iv # pairs)) j of Some v \<Rightarrow> Some v | None \<Rightarrow> base j)" for j
    by (auto simp: iv map_add_def split: option.splits)
  from Cons.IH [OF t u] show ?case unfolding eq by (simp add: iv)
qed simp

section \<open>The invariant of the loop\<close>

definition frame_inv :: "device_config \<Rightarrow> global_config \<Rightarrow> effect list \<Rightarrow> engine \<Rightarrow> bool" where
  "frame_inv cfg global hist e \<longleftrightarrow>
     tracks (reference hist) (\<lambda>_. []) e \<and> (effective_batch_ms cfg global = 0 \<longrightarrow> unbatched e)"

definition push_inv :: "device_config \<Rightarrow> global_config \<Rightarrow> effect list \<Rightarrow> push_driver \<Rightarrow> bool" where
  "push_inv cfg global hist d \<longleftrightarrow>
     frame_inv cfg global hist (pd_engine d) \<and> h_paused (pd_health d) = pd_paused d \<and>
     (pd_paused d \<longrightarrow> unbatched (pd_engine d))"

text \<open>What a step may assume of its input: the walk order is one of the state's signals, a frame names each field once.\<close>

definition wf_push_input :: "push_woke \<times> push_env \<Rightarrow> push_driver \<Rightarrow> bool" where
  "wf_push_input inp d \<longleftrightarrow>
     distinct (pe_order (snd inp)) \<and>
     (case fst inp of
        WokeControl _ \<Rightarrow> set (pe_order (snd inp)) = dom (en_state (pd_engine d))
      | WokeUpdate (Some (IoData readings _ _ _)) \<Rightarrow> distinct (map rd_signal_id readings)
      | _ \<Rightarrow> True)"

lemma process_frame_out:
  assumes "process_frame rs dbs mode sample_ms batch_ms now ts (e, h) = (pubs, e', h')"
  shows "(\<forall>p \<in> set pubs. pb_samples p \<noteq> []) \<and> h_paused h' = h_paused h"
  using assms
proof (induction rs arbitrary: e h pubs e' h')
  case (Cons r rs)
  let ?i = "rd_signal_id r"
  obtain o1 st h1 where r: "push_reading mode sample_ms batch_ms now ts
      (case dbs ?i of Some d \<Rightarrow> d | None \<Rightarrow> deadband_default) r (entry_or_default e ?i) h = (o1, st, h1)" by (metis prod_cases3)
  obtain ps e2 h2 where p: "process_frame rs dbs mode sample_ms batch_ms now ts (put_state ?i st e, h1) = (ps, e2, h2)"
    by (metis prod_cases3)
  have "pubs = publish_now ?i o1 @ ps" "e' = e2" "h' = h2" using Cons.prems r p by (auto simp: Let_def)
  with Cons.IH [OF p] push_reading_out [OF r] show ?case by (auto simp: publish_now_def split: option.splits)
qed simp

lemma drain_keeps_pause [simp]: "h_paused (drain_health h) = h_paused h" "h_paused (set_link l h) = h_paused h"
  by (simp_all add: drain_health_def set_link_def)

lemma push_emitted_keeps [simp]:
  "pd_engine (push_emitted d) = pd_engine d" "pd_paused (push_emitted d) = pd_paused d"
  "h_paused (pd_health (push_emitted d)) = h_paused (pd_health d)"
  by (simp_all add: push_emitted_def)

lemma frame_delivered:
  assumes "frame_inv cfg global hist e" "distinct (map rd_signal_id rs)"
    and "process_frame rs dbs mode sample_ms (effective_batch_ms cfg global) now ts (e, h) = (pubs, e1, h1)"
    and "deliver_with (publish_field io m b sink) k pubs (e1, h1) = (effs, e2, h2)"
  shows "frame_inv cfg global (hist @ effs) e2 \<and> h_paused h2 = h_paused h"
proof -
  have t: "tracks (reference hist) (out_samples pubs) e1" "effective_batch_ms cfg global = 0 \<longrightarrow> unbatched e1"
    "distinct (map pb_signal_id pubs)"
    using tracks_process_frame [OF assms(3), of "reference hist" "\<lambda>_. []"] assms(1,2) by (auto simp: frame_inv_def)
  have ne: "\<forall>p \<in> set pubs. pb_samples p \<noteq> []" "h_paused h1 = h_paused h" using process_frame_out [OF assms(3)] by auto
  from push_pub.deliver_tracks [OF assms(4) t(1,3) ne(1)] t(2) ne(2) reference_calm [OF delivery_calm [OF push_pub.deliver_only [OF assms(4)]]]
  show ?thesis by (simp add: frame_inv_def)
qed

lemma flush_delivered:
  assumes "frame_inv cfg global hist e" "distinct order"
    and "take_due order (effective_batch_ms cfg global) now e = (pubs, e1)"
    and "deliver_with (publish_field io m b sink) k pubs (e1, h) = (effs, e2, h2)"
  shows "frame_inv cfg global (hist @ effs) e2 \<and> h_paused h2 = h_paused h"
proof -
  have t: "tracks (reference hist) (out_samples pubs) e1" "distinct (map pb_signal_id pubs)"
    "\<forall>p \<in> set pubs. pb_samples p \<noteq> []" "unbatched e \<longrightarrow> unbatched e1"
    using tracks_take_due [OF assms(3), of "reference hist" "\<lambda>_. []"] assms(1,2) by (auto simp: frame_inv_def)
  from push_pub.deliver_tracks [OF assms(4) t(1-3)] t(4) assms(1) reference_calm [OF delivery_calm [OF push_pub.deliver_only [OF assms(4)]]]
  show ?thesis by (auto simp: frame_inv_def)
qed

lemma push_control_inv:
  assumes "push_inv cfg global hist d" "distinct (pe_order env)" "set (pe_order env) = dom (en_state (pd_engine d))"
    and "push_control cfg env ctl d = (effs, d', ex)"
  shows "push_inv cfg global (hist @ effs) d'"
proof -
  have same: "push_inv cfg global (hist @ effs2) d2" if "list_all (\<lambda>x. \<not> is_publish x \<and> \<not> is_rebase x) effs2"
    "pd_engine d2 = pd_engine d" "h_paused (pd_health d2) = h_paused (pd_health d)" "pd_paused d2 = pd_paused d" for effs2 d2
    using that assms(1) by (simp add: push_inv_def frame_inv_def reference_quiet)
  have inv: "tracks (reference hist) (\<lambda>_. []) (pd_engine d)" using assms(1) by (simp add: push_inv_def frame_inv_def)
  show ?thesis
  proof (cases ctl)
    case (CtlPause who r)
    obtain n e1 where dsc: "discard_open_batches (pe_order env) 0 (pd_engine d) = (n, e1)" by (metis surj_pair)
    note td = tracks_discard [OF dsc inv]
    have t: "tracks (reference hist) (\<lambda>_. []) e1" using td by (rule conjunct1)
    have "dom (en_state e1) = set (pe_order env)" using td assms(3) by simp
    moreover have "\<forall>i \<in> set (pe_order env). \<forall>st. en_state e1 i = Some st \<longrightarrow> ba_buffer (ss_batcher st) = []" using td by blast
    ultimately have u: "unbatched e1" unfolding unbatched_def by (metis domI)
    have q: "list_all (\<lambda>x. \<not> is_publish x \<and> \<not> is_rebase x) effs"
      using assms(4) CtlPause dsc by (auto simp: push_control_def apply_pause_def Let_def list_all_iff split: if_splits)
    from t u q assms(1,4) CtlPause dsc show ?thesis
      by (auto simp: push_control_def apply_pause_def Let_def push_inv_def frame_inv_def reference_quiet split: if_splits)
  next
    case (CtlResume r)
    define pairs where "pairs = (if h_paused (pd_health d)
      then (case pe_last_input env of Some snap \<Rightarrow> map (\<lambda>x. (rd_signal_id x, rd_value x)) (is_readings snap) | None \<Rightarrow> []) else [])"
    obtain pre post where eq: "effs = pre @ [Rebased pairs] @ post" "list_all (\<lambda>x. \<not> is_publish x \<and> \<not> is_rebase x) pre"
      "list_all (\<lambda>x. \<not> is_publish x \<and> \<not> is_rebase x) post" "pd_engine d' = rebase_from pairs (pe_now env) (pd_engine d)"
      "h_paused (pd_health d') = pd_paused d'" "\<not> pd_paused d'"
    proof -
      let ?pre = "(if h_paused (pd_health d) then [MetricsEmitted] else []) @ map Evented (fst (snd (apply_pause cfg False None (pd_health d))))"
      show ?thesis
        by (rule that [of ?pre "[Replied r (RepChanged (h_paused (pd_health d)))]"])
          (use assms(4) CtlResume in \<open>auto simp: push_control_def apply_pause_def Let_def pairs_def split: if_splits\<close>)
    qed
    have ref: "reference (hist @ effs) = (\<lambda>i. case map_of (rev pairs) i of Some v \<Rightarrow> Some v | None \<Rightarrow> reference hist i)"
      using reference_quiet [OF eq(3), of "hist @ pre @ [Rebased pairs]"] reference_quiet [OF eq(2), of hist]
        reference_rebased [of "hist @ pre" pairs] by (intro ext) (simp add: eq(1) split: option.split)
    show ?thesis
    proof (cases "unbatched (pd_engine d)")
      case True
      from tracks_rebase_from [OF inv True, of pairs "pe_now env"] eq(4-6) show ?thesis
        by (simp add: push_inv_def frame_inv_def ref)
    next
      case False
      then have "pairs = []" using assms(1) by (auto simp: push_inv_def pairs_def)
      with assms(1) eq(4-6) show ?thesis by (simp add: push_inv_def frame_inv_def ref)
    qed
  next
    case (CtlReconnect r)
    with assms(1,4) show ?thesis by (auto simp: push_control_def Let_def)
  qed (use assms(4) in \<open>auto intro!: same simp: push_control_def Let_def split: sum.splits\<close>)
qed

lemma push_tail_inv:
  assumes "push_inv cfg global hist d" "distinct (pe_order env)" "push_tail cfg global io env k d = (effs, d')"
  shows "push_inv cfg global (hist @ effs) d'"
proof -
  have flush: "push_inv cfg global (hist @ effs1) d1" if f: "push_flush cfg global io env k d = (effs1, d1)" for effs1 d1
  proof (cases "pd_paused d")
    case True
    with f assms(1) show ?thesis by (simp add: push_flush_def)
  next
    case False
    obtain pubs e1 where t: "take_due (pe_order env) (effective_batch_ms cfg global) (pe_now env) (pd_engine d) = (pubs, e1)"
      by (metis surj_pair)
    obtain effs2 e2 h2 where dl: "deliver_with (publish_field io (publish_mode_str (push_publish_mode cfg global)) True (pe_sink env))
        k pubs (e1, pd_health d) = (effs2, e2, h2)" by (metis prod_cases3)
    from flush_delivered [OF _ assms(2) t dl, of hist] f False t dl assms(1) show ?thesis
      by (auto simp: push_flush_def push_inv_def)
  qed
  have met: "push_inv cfg global (hist @ effs1 @ effs2) d2"
    if m: "push_metrics global io env d1 = (effs2, d2)" and i: "push_inv cfg global (hist @ effs1) d1" for effs1 effs2 d1 d2
  proof -
    have "list_all (\<lambda>x. \<not> is_publish x \<and> \<not> is_rebase x) effs2" "pd_engine d2 = pd_engine d1"
      "h_paused (pd_health d2) = h_paused (pd_health d1)" "pd_paused d2 = pd_paused d1"
      using m by (auto simp: push_metrics_def Let_def split: if_splits option.splits prod.splits)
    with i reference_quiet [of effs2 "hist @ effs1"] show ?thesis by (simp add: push_inv_def frame_inv_def)
  qed
  obtain effs1 d1 where f: "push_flush cfg global io env k d = (effs1, d1)" by (metis surj_pair)
  obtain effs2 d2 where m: "push_metrics global io env d1 = (effs2, d2)" by (metis surj_pair)
  have "effs = effs1 @ effs2" "d' = d2" using assms(3) f m by (auto simp: push_tail_def)
  with met [OF m flush [OF f]] show ?thesis by simp
qed

lemma push_data_inv:
  assumes "push_inv cfg global hist d" "distinct (map rd_signal_id readings)"
    and "push_data cfg global io env readings seq run_mode rcvd d = (effs, d', k)"
  shows "push_inv cfg global (hist @ effs) d'"
proof (cases "pd_paused d")
  case True
  with assms(1,3) show ?thesis by (auto simp: push_data_def push_inv_def)
next
  case False
  let ?m = "push_publish_mode cfg global"
  let ?h = "(pd_health d)\<lparr>h_frames_consumed := h_frames_consumed (pd_health d) + 1\<rparr>"
  obtain pubs e1 h1 where p: "process_frame readings (input_deadbands io) ?m (ii_sample_ms (ic_input io))
      (effective_batch_ms cfg global) (pe_frame_now env) (pe_server_ts env) (pd_engine d, ?h) = (pubs, e1, h1)"
    by (metis prod_cases3)
  obtain effs1 e2 h2 where dl: "deliver_with (publish_field io (publish_mode_str ?m) False (pe_sink env)) 0 pubs (e1, h1) =
      (effs1, e2, h2)" by (metis prod_cases3)
  from frame_delivered [OF _ assms(2) p dl, of hist] assms(1,3) False p dl show ?thesis
    by (auto simp: push_data_def push_inv_def)
qed

lemma push_up_inv:
  assumes "push_inv cfg global hist d" "push_up cfg adapter o2t t2o d = (effs, d')"
  shows "push_inv cfg global (hist @ effs) d'"
  using assms by (auto simp: push_up_def Let_def push_inv_def frame_inv_def reference_quiet)

section \<open>Reachable states\<close>

type_synonym push_loop_state = "effect list \<times> push_driver \<times> push_exit option"

inductive push_loop_step ::
    "device_config \<Rightarrow> global_config \<Rightarrow> rstr \<Rightarrow> io_config \<Rightarrow> push_loop_state \<Rightarrow> push_woke \<times> push_env \<Rightarrow> push_loop_state \<Rightarrow> bool"
  for cfg global adapter io where
  push_loop_stepI: "wf_push_input inp d \<Longrightarrow> consume_step cfg global adapter io inp d = (effs, d', ex) \<Longrightarrow>
    push_loop_step cfg global adapter io (hist, d, None) inp (hist @ effs, d', ex)"

inductive_cases push_loop_stepE: "push_loop_step cfg global adapter io s inp s'"

definition push_loop_init :: "push_loop_state \<Rightarrow> bool" where
  "push_loop_init s \<longleftrightarrow> (\<exists>start h c. s = ([], push_driver_init start h c, None))"

lemma consume_step_inv:
  assumes "push_inv cfg global hist d" "wf_push_input inp d" "consume_step cfg global adapter io inp d = (effs, d', ex)"
  shows "push_inv cfg global (hist @ effs) d'"
proof -
  obtain woke env where inp: "inp = (woke, env)" by (metis surj_pair)
  have ord: "distinct (pe_order env)" using assms(2) inp by (simp add: wf_push_input_def)
  have keep: ?thesis if "effs = []" "d' = d \<or> d' = push_lost d"
    using that assms(1) by (auto simp: push_lost_def push_inv_def)
  show ?thesis
  proof (cases woke)
    case (WokeControl m)
    then show ?thesis
      using assms inp keep ord push_control_inv [OF assms(1) ord]
      by (cases m) (auto simp: consume_step_def wf_push_input_def)
  next
    case (WokeUpdate u)
    show ?thesis
    proof (cases u)
      case (Some up)
      show ?thesis
      proof (cases up)
        case (IoUp o2t t2o)
        obtain effs1 d1 where a: "push_up cfg adapter o2t t2o d = (effs1, d1)" by (metis surj_pair)
        obtain effs2 d2 where b: "push_tail cfg global io env 0 d1 = (effs2, d2)" by (metis surj_pair)
        from push_tail_inv [OF push_up_inv [OF assms(1) a] ord b] assms(3) inp WokeUpdate Some IoUp a b
        show ?thesis by (simp add: consume_step_def)
      next
        case (IoData readings seq run_mode rcvd)
        obtain effs1 d1 k where a: "push_data cfg global io env readings seq run_mode rcvd d = (effs1, d1, k)" by (metis prod_cases3)
        obtain effs2 d2 where b: "push_tail cfg global io env k d1 = (effs2, d2)" by (metis surj_pair)
        have "distinct (map rd_signal_id readings)" using assms(2) inp WokeUpdate Some IoData by (simp add: wf_push_input_def)
        from push_tail_inv [OF push_data_inv [OF assms(1) this a] ord b] assms(3) inp WokeUpdate Some IoData a b
        show ?thesis by (simp add: consume_step_def)
      next
        case (IoLost err)
        with assms(3) inp WokeUpdate Some show ?thesis by (intro keep) (auto simp: consume_step_def)
      qed
    next
      case None
      with assms(3) inp WokeUpdate show ?thesis by (intro keep) (auto simp: consume_step_def)
    qed
  next
    case WokeTick
    obtain effs1 d1 where t: "push_tail cfg global io env 0 d = (effs1, d1)" by (metis surj_pair)
    from push_tail_inv [OF assms(1) ord t] assms(3) inp WokeTick t show ?thesis by (simp add: consume_step_def)
  next
    case WokeCancelled
    with assms(3) inp show ?thesis by (intro keep) (auto simp: consume_step_def)
  qed
qed

definition push_ok :: "device_config \<Rightarrow> global_config \<Rightarrow> push_loop_state \<Rightarrow> bool" where
  "push_ok cfg global s \<longleftrightarrow> push_inv cfg global (fst s) (fst (snd s))"

interpretation push_loop: invariant_system push_loop_init "push_loop_step cfg global adapter io" "push_ok cfg global"
  for cfg global adapter io
proof
  fix s
  assume "push_loop_init s"
  then show "push_ok cfg global s"
    using tracks_new
    by (auto simp: push_loop_init_def push_ok_def push_inv_def frame_inv_def push_driver_init_def reference_def
        unbatched_def engine_new_def)
next
  fix s inp s'
  assume "push_ok cfg global s" "push_loop_step cfg global adapter io s inp s'"
  then show "push_ok cfg global s'" by (auto simp: push_ok_def elim!: push_loop_stepE intro: consume_step_inv)
qed

section \<open>Paused runs\<close>

fun is_push_resume :: "push_woke \<Rightarrow> bool" where
  "is_push_resume (WokeControl (Some (CtlResume _))) = True"
| "is_push_resume _ = False"

fun is_frame :: "push_woke \<Rightarrow> bool" where
  "is_frame (WokeUpdate (Some (IoData _ _ _ _))) = True"
| "is_frame _ = False"

lemma frames_kept [simp]:
  "h_frames_consumed (drain_health h) = h_frames_consumed h" "h_frames_consumed (set_link l h) = h_frames_consumed h"
  "h_frames_consumed (pd_health (push_emitted d)) = h_frames_consumed (pd_health d)"
  by (simp_all add: drain_health_def set_link_def push_emitted_def)

lemma paused_tail:
  assumes "push_tail cfg global io env k d = (effs, d')" "pd_paused d"
  shows "pd_paused d' \<and> list_all (\<lambda>x. \<not> is_publish x) effs \<and> h_frames_consumed (pd_health d') = h_frames_consumed (pd_health d)"
  using assms by (auto simp: push_tail_def push_flush_def push_metrics_def Let_def split: if_splits option.splits prod.splits)

lemma paused_control:
  assumes "push_control cfg env ctl d = (effs, d', ex)" "pd_paused d" "\<not> is_push_resume (WokeControl (Some ctl))"
  shows "pd_paused d' \<and> list_all (\<lambda>x. \<not> is_publish x) effs \<and> h_frames_consumed (pd_health d') = h_frames_consumed (pd_health d)"
  using assms
  by (cases ctl) (auto simp: push_control_def apply_pause_def Let_def list_all_iff split: sum.splits prod.splits if_splits)

lemma paused_consume_step:
  assumes "consume_step cfg global adapter io inp d = (effs, d', ex)" "pd_paused d" "\<not> is_push_resume (fst inp)"
  shows "pd_paused d' \<and> list_all (\<lambda>x. \<not> is_publish x) effs \<and>
    h_frames_consumed (pd_health d') = h_frames_consumed (pd_health d) + of_bool (is_frame (fst inp))"
proof -
  obtain woke env where inp: "inp = (woke, env)" by (metis surj_pair)
  have up: "pd_paused (snd (push_up cfg adapter o2t t2o d))" "list_all (\<lambda>x. \<not> is_publish x) (fst (push_up cfg adapter o2t t2o d))"
    "h_frames_consumed (pd_health (snd (push_up cfg adapter o2t t2o d))) = h_frames_consumed (pd_health d)" for o2t t2o
    using assms(2) by (simp_all add: push_up_def Let_def)
  consider m where "woke = WokeControl m" | o2t t2o where "woke = WokeUpdate (Some (IoUp o2t t2o))"
    | rs seq run rcvd where "woke = WokeUpdate (Some (IoData rs seq run rcvd))"
    | "woke = WokeCancelled \<or> woke = WokeUpdate None \<or> (\<exists>err. woke = WokeUpdate (Some (IoLost err)))" | "woke = WokeTick"
    by (metis push_woke.exhaust seam_io_update.exhaust option.exhaust)
  then show ?thesis
  proof cases
    case (1 m)
    with assms inp paused_control [of cfg env _ d effs d' ex] show ?thesis by (cases m) (auto simp: consume_step_def)
  next
    case (2 o2t t2o)
    obtain effs1 d1 where a: "push_up cfg adapter o2t t2o d = (effs1, d1)" by (metis surj_pair)
    obtain effs2 d2 where b: "push_tail cfg global io env 0 d1 = (effs2, d2)" by (metis surj_pair)
    from paused_tail [OF b] up [of o2t t2o] a b assms(1) inp 2 show ?thesis by (auto simp: consume_step_def)
  next
    case (3 rs seq run rcvd)
    let ?d = "d\<lparr>pd_health := (pd_health d)\<lparr>h_frames_consumed := h_frames_consumed (pd_health d) + 1\<rparr>,
      pd_io := record_frame_consumed seq rcvd run (pd_io d)\<rparr>"
    obtain effs2 d2 where b: "push_tail cfg global io env 0 ?d = (effs2, d2)" by (metis surj_pair)
    from paused_tail [OF b] b assms(1,2) inp 3 show ?thesis by (auto simp: consume_step_def push_data_def)
  next
    case 4
    with assms inp show ?thesis by (auto simp: consume_step_def push_lost_def)
  next
    case 5
    with assms inp paused_tail [of cfg global io env 0 d] show ?thesis by (auto simp: consume_step_def split: prod.splits)
  qed
qed

lemma paused_consume_run:
  assumes "consume_loop cfg global adapter io inps d = (effs, d', None)" "pd_paused d"
    and "\<forall>inp \<in> set inps. \<not> is_push_resume (fst inp)"
  shows "pd_paused d' \<and> list_all (\<lambda>x. \<not> is_publish x) effs \<and>
    h_frames_consumed (pd_health d') = h_frames_consumed (pd_health d) + of_nat (length (filter (is_frame \<circ> fst) inps))"
  using assms
proof (induction inps arbitrary: d effs)
  case (Cons inp inps)
  obtain effs1 d1 rest where s: "consume_step cfg global adapter io inp d = (effs1, d1, None)"
    "consume_loop cfg global adapter io inps d1 = (rest, d', None)" "effs = effs1 @ rest"
    using Cons.prems(1) by (auto split: prod.splits option.splits)
  have p: "pd_paused d1 \<and> list_all (\<lambda>x. \<not> is_publish x) effs1 \<and>
      h_frames_consumed (pd_health d1) = h_frames_consumed (pd_health d) + of_bool (is_frame (fst inp))"
    using paused_consume_step [OF s(1) Cons.prems(2)] Cons.prems(3) by simp
  from Cons.IH [OF s(2)] p Cons.prems(3) show ?case by (simp add: s(3) add.assoc)
qed simp

section \<open>The readings of a frame\<close>

lemma process_frame_ids:
  assumes "process_frame rs dbs mode sample_ms batch_ms now ts (e, h) = (pubs, e', h')"
  shows "pb_signal_id ` set pubs \<subseteq> rd_signal_id ` set rs"
  using assms
proof (induction rs arbitrary: e h pubs)
  case (Cons r rs)
  obtain o1 st h1 where r: "push_reading mode sample_ms batch_ms now ts
      (case dbs (rd_signal_id r) of Some d \<Rightarrow> d | None \<Rightarrow> deadband_default) r (entry_or_default e (rd_signal_id r)) h = (o1, st, h1)"
    by (metis prod_cases3)
  obtain ps where p: "process_frame rs dbs mode sample_ms batch_ms now ts (put_state (rd_signal_id r) st e, h1) = (ps, e', h')"
    "pubs = publish_now (rd_signal_id r) o1 @ ps" using Cons.prems r by (auto simp: Let_def split: prod.splits)
  from Cons.IH [OF p(1)] p(2) show ?case by (auto simp: publish_now_def split: option.splits)
qed simp

text \<open>A frame of the configured size gives one reading for each configured field, in order.\<close>

lemma readings_ids:
  assumes "wf_io io" "input_layout io = Inr layout" "length data = ii_size_bytes (ic_input io)" "length data \<le> isize_max"
  shows "map rd_signal_id (assembly_to_readings layout (ii_signals (ic_input io)) inst data run_mode) =
    map (\<lambda>f. field_signal_id f inst) (ii_signals (ic_input io))"
proof -
  let ?ins = "ii_signals (ic_input io)" and ?n = "ii_size_bytes (ic_input io)"
  have n: "?n \<le> usize_max" "?n \<le> isize_max" using assms(3,4) by (auto simp: isize_max_def usize_max_def)
  have "assembly_new (enip_fields ?ins) ?n = Inr layout"
    using assms(2) by (auto simp: input_layout_def build_layout_def map_err_Inr_iff)
  note tot = assembly_decode_total [OF this n(2), of data]
  obtain kvs where kvs: "assembly_decode layout data = Inr kvs" "list_all2 (\<lambda>f kv. fst kv = fs_key f) (enip_fields ?ins) kvs"
  proof (cases "assembly_decode layout data")
    case (Inr kvs)
    with tot have "list_all2 (\<lambda>f kv. fst kv = fs_key f) (enip_fields ?ins) kvs" by (auto elim!: list_all2_mono)
    with Inr that show ?thesis by blast
  qed (use tot assms(3) in simp)
  have len: "length kvs = length ?ins" using list_all2_lengthD [OF kvs(2)] by (simp add: enip_fields_nth)
  have key: "fst (kvs ! k) = k" if "k < length ?ins" for k
    using list_all2_nthD [OF kvs(2), of k] that by (simp add: enip_fields_nth to_enip_field_def)
  have filt: "List.map_filter (\<lambda>(key, v). if key < length ?ins then Some (reading_of_field (?ins ! key) inst v run_mode) else None) kvs =
      map (\<lambda>(key, v). reading_of_field (?ins ! key) inst v run_mode) kvs"
  proof -
    have "\<forall>kv \<in> set kvs. fst kv < length ?ins" using key len by (metis in_set_conv_nth)
    then show ?thesis by (induction kvs) (auto simp: map_filter_simps)
  qed
  have id: "rd_signal_id (reading_of_field f inst v run_mode) = field_signal_id f inst" for f v
    by (simp add: reading_of_field_def Let_def split: prod.splits)
  show ?thesis
    unfolding assembly_to_readings_def kvs(1) sum.case filt by (rule nth_equalityI) (simp_all add: len key id split_def)
qed

lemma reachable_push_inv:
  assumes "reachable push_loop_init (push_loop_step cfg global adapter io) (hist, d, ex)"
  shows "push_inv cfg global hist d"
  using push_loop.reachable_inv [OF assms] by (simp add: push_ok_def)

section \<open>A frame against the references\<close>

text \<open>With batching off, a frame publishes a reading exactly when it clears the floor and the gate.\<close>

lemma push_reading_now:
  assumes "push_reading mode sample_ms 0 now ts db r st h = (out, st', h')"
  shows "out = (if \<not> below_floor sample_ms now (rd_quality r) st \<and> gate_passes st (rd_value r) (rd_quality r) mode db
    then Some [sample_of (rd_value r) (rd_quality r) (rd_quality_raw r) (Some ts)] else None)"
proof -
  have "gate_passes (note_good q now st) = gate_passes st" "below_floor sample_ms now q (note_good q' now st) = below_floor sample_ms now q st"
    for q q' by (auto intro!: ext simp: gate_passes_def note_good_def below_floor_def)
  with assms show ?thesis
    by (auto simp: push_reading_def Let_def split: prod.splits if_splits dest!: accept_out)
qed

lemma process_frame_now:
  assumes "process_frame rs dbs mode sample_ms 0 now ts (e, h) = (pubs, e', h')"
    and "distinct (map rd_signal_id rs)" "r \<in> set rs"
  shows "out_samples pubs (rd_signal_id r) =
    (if \<not> below_floor sample_ms now (rd_quality r) (entry_or_default e (rd_signal_id r)) \<and>
        gate_passes (entry_or_default e (rd_signal_id r)) (rd_value r) (rd_quality r) mode
          (case dbs (rd_signal_id r) of Some d \<Rightarrow> d | None \<Rightarrow> deadband_default)
     then [sample_of (rd_value r) (rd_quality r) (rd_quality_raw r) (Some ts)] else [])"
  using assms
proof (induction rs arbitrary: e h pubs)
  case (Cons x rs)
  let ?i = "rd_signal_id x"
  obtain o1 st h1 where x: "push_reading mode sample_ms 0 now ts
      (case dbs ?i of Some d \<Rightarrow> d | None \<Rightarrow> deadband_default) x (entry_or_default e ?i) h = (o1, st, h1)" by (metis prod_cases3)
  obtain ps where p: "process_frame rs dbs mode sample_ms 0 now ts (put_state ?i st e, h1) = (ps, e', h')"
    "pubs = publish_now ?i o1 @ ps" using Cons.prems(1) x by (auto simp: Let_def split: prod.splits)
  have sub: "pb_signal_id ` set ps \<subseteq> rd_signal_id ` set rs" by (rule process_frame_ids [OF p(1)])
  show ?case
  proof (cases "r = x")
    case True
    have "out_samples ps ?i = []" using sub Cons.prems(2) by (intro out_samples_notin) auto
    with True push_reading_now [OF x] show ?thesis by (auto simp: p(2) out_samples_now)
  next
    case False
    with Cons.prems(3) have r: "r \<in> set rs" by simp
    then have "rd_signal_id r \<in> rd_signal_id ` set rs" by (rule imageI)
    moreover have "?i \<notin> rd_signal_id ` set rs" using Cons.prems(2) by simp
    ultimately have ne: "rd_signal_id r \<noteq> ?i" by metis
    from Cons.IH [OF p(1) _ r] Cons.prems(2) ne show ?thesis
      by (simp add: p(2) out_samples_now entry_or_default_def put_state_def)
  qed
qed simp

lemma gate_reference:
  assumes "frame_inv cfg global hist e" "unbatched e"
  shows "gate_passes (entry_or_default e i) v q mode db = should_publish (reference hist i) v q mode db"
proof -
  have "tracks_state (reference hist i) [] (entry_or_default e i)"
    using tracks_entry [of "reference hist" "\<lambda>_. []" e i] assms(1) by (simp add: frame_inv_def)
  moreover have "ba_buffer (ss_batcher (entry_or_default e i)) = []" using unbatched_entry [OF assms(2)] .
  ultimately have "ss_committed (entry_or_default e i) = reference hist i" "ss_pending (entry_or_default e i) = None"
    by (simp_all add: tracks_state_def)
  then show ?thesis by (simp add: gate_passes_def should_publish_def)
qed

lemma push_data_bus:
  assumes "push_inv cfg global hist d" "effective_batch_ms cfg global = 0" "\<not> pd_paused d"
    and "distinct (map rd_signal_id readings)" "set (map rd_signal_id readings) \<subseteq> dom (input_fields io)"
    and "r \<in> set readings" "rd_quality r = Good" "ii_sample_ms (ic_input io) = 0" "\<And>n. \<exists>u. fst (pe_sink env n) = Inr u"
    and "push_data cfg global io env readings seq run_mode rcvd d = (effs, d', k)"
  shows "bus (hist @ effs) (rd_signal_id r) =
    (if should_publish (reference hist (rd_signal_id r)) (rd_value r) Good (push_publish_mode cfg global)
          (case input_deadbands io (rd_signal_id r) of Some db \<Rightarrow> db | None \<Rightarrow> deadband_default)
     then Some (rd_value r) else bus hist (rd_signal_id r))"
proof -
  let ?m = "push_publish_mode cfg global" and ?i = "rd_signal_id r"
  let ?h = "(pd_health d)\<lparr>h_frames_consumed := h_frames_consumed (pd_health d) + 1\<rparr>"
  have inv: "frame_inv cfg global hist (pd_engine d)" "unbatched (pd_engine d)"
    using assms(1,2) by (auto simp: push_inv_def frame_inv_def)
  obtain pubs e1 h1 where p: "process_frame readings (input_deadbands io) ?m (ii_sample_ms (ic_input io))
      (effective_batch_ms cfg global) (pe_frame_now env) (pe_server_ts env) (pd_engine d, ?h) = (pubs, e1, h1)"
    by (metis prod_cases3)
  obtain effs1 e2 h2 where dl: "deliver_with (publish_field io (publish_mode_str ?m) False (pe_sink env)) 0 pubs (e1, h1) =
      (effs1, e2, h2)" by (metis prod_cases3)
  have eq: "effs = effs1" using assms(3,10) p dl by (auto simp: push_data_def)
  have sent: "fst (publish_field io (publish_mode_str ?m) False (pe_sink env) k (pb_signal_id q) (pb_samples q) h)"
    if "q \<in> set pubs" for q k h
  proof -
    have "pb_signal_id q \<in> set (map rd_signal_id readings)" using process_frame_ids [OF p] that by auto
    then have "input_fields io (pb_signal_id q) \<noteq> None" using assms(5) by blast
    with publish_field_effects(4) assms(9) show ?thesis by (metis fst_conv prod_cases3)
  qed
  have nf: "\<not> below_floor (ii_sample_ms (ic_input io)) now q st" for now q st using assms(8) by (simp add: below_floor_def)
  have "confirmed effs ?i = out_samples pubs ?i" unfolding eq by (rule push_pub.deliver_confirms_all [OF dl sent])
  with process_frame_now [OF p [unfolded assms(2)] assms(4,6)] nf gate_reference [OF inv] assms(7) show ?thesis
    by (simp add: bus_append published_def sample_of_def)
qed

section \<open>Properties\<close>



text \<open>
  A paused instance keeps consuming and publishes nothing: over any inputs short of a resume, no publish
  is attempted, it stays paused, and the frames counted are exactly the frames that arrived.
\<close>

theorem push_paused_consumes:
  assumes "pd_paused d" "\<forall>inp \<in> set inps. \<not> is_push_resume (fst inp)"
    and "consume_loop cfg global adapter io inps d = (effs, d', None)"
  shows "pd_paused d' \<and> (\<forall>i ss sent. Published i ss sent \<notin> set effs) \<and>
    h_frames_consumed (pd_health d') = h_frames_consumed (pd_health d) + of_nat (length (filter (is_frame \<circ> fst) inps))"
  using paused_consume_run [OF assms(3,1,2)] by (auto simp: list_all_iff)

section \<open>A concrete run\<close>

definition example_push_env :: push_env where
  "example_push_env = \<lparr>pe_now = 5, pe_frame_now = 4, pe_server_ts = [], pe_order = [], pe_last_input = None,
     pe_set_output = Inr (), pe_io_stats = None, pe_sink = (\<lambda>_. (Inr (), 0))\<rparr>"

definition example_push_start :: push_driver where
  "example_push_start = push_driver_init 0 health_default io_default"

lemma example_push_reach:
  "reachable push_loop_init (push_loop_step example_push global_config_default adapter example_io) ([], example_push_start, None)"
  by (rule reach_init) (auto simp: push_loop_init_def example_push_start_def)

lemma example_push_settings [simp]:
  "effective_batch_ms example_push global_config_default = 0" "ii_sample_ms (ic_input example_io) = 0"
  "pd_paused example_push_start = False" "ii_size_bytes (ic_input example_io) = 4" "ia_input (ic_assemblies example_io) = 100"
  "length (ii_signals (ic_input example_io)) = 1"
  by (simp_all add: example_defs effective_batch_ms_def global_config_default_def unwrap_or_def or_else_def BUILTIN_BATCH_MS_def
      example_push_start_def push_driver_init_def health_default_def)

definition example_layout :: assembly_layout where
  "example_layout = \<lparr>al_fields = enip_fields (ii_signals (ic_input example_io)), al_data_size = 4\<rparr>"

lemma example_input_layout: "input_layout example_io = Inr example_layout"
  using wf_io_example build_layout_iff [of 4 "ii_signals (ic_input example_io)" "''io.input''" example_layout]
  by (simp add: input_layout_def example_layout_def wf_io_def usize_max_def)

definition example_frame :: "reading list" where
  "example_frame = assembly_to_readings example_layout (ii_signals (ic_input example_io)) 100 [1, 2, 3, 4] True"

lemma example_layout_decode: "assembly_decode example_layout [1, 2, 3, 4] = Inr [(0, VDint 67305985)]"
proof -
  have f: "enip_fields (ii_signals (ic_input example_io)) = [\<lparr>fs_key = 0, fs_offset = 0, fs_ty = TDint, fs_bit = None, fs_count = 1\<rparr>]"
    by (simp add: enip_fields_def example_io_def to_enip_field_def)
  have v: "valid_field (length [1 :: u8, 2, 3, 4]) \<lparr>fs_key = 0, fs_offset = 0, fs_ty = TDint, fs_bit = None, fs_count = 1\<rparr>"
    by (simp add: valid_field_def is_elementary_def field_span_def)
  have d: "cip_value_decode TDint [1, 2, 3, 4] = Inr (VDint 67305985)"
    using value_decode_encode [of "VDint 67305985" "[1, 2, 3, 4]"]
    by (simp add: is_elementary_def scalar_of_def writer_defs le_bytes_unfold isize_max_def)
  show ?thesis
    using extract_field_eq [OF v] d
    by (simp add: assembly_decode_def example_layout_def f field_bytes_def field_span_def isize_max_def)
qed

lemma example_frame_eq:
  "\<exists>r. example_frame = [r] \<and> rd_value r = JNumber (PosInt 67305985) \<and> rd_quality r = Good"
proof -
  have "decode_value (VDint 67305985) EipDint None None = Inr \<lparr>dd_value = JNumber (PosInt 67305985), dd_non_finite = False\<rparr>"
    by (simp add: decode_value_def decode_scalar_def json_of_i64_def)
  then show ?thesis
    by (simp add: example_frame_def assembly_to_readings_def example_layout_decode map_filter_simps reading_of_field_def) (simp add: example_io_def)
qed

lemma example_data_step:
  "\<exists>effs d'. consume_step cfg global adapter io (WokeUpdate (Some (IoData rs seq run rcvd)), env) d = (effs, d', None)"
  by (auto simp: consume_step_def split: prod.splits)


theorem push_paused_consumes_witness:
  "\<exists>effs d'. consume_loop example_push global_config_default (ascii ''ethernet-ip'') example_io
       [(WokeUpdate (Some (IoData example_frame 1 True 3)), example_push_env)] (example_push_start\<lparr>pd_paused := True\<rparr>) =
       (effs, d', None) \<and> h_frames_consumed (pd_health d') = 1"
proof -
  let ?inps = "[(WokeUpdate (Some (IoData example_frame 1 True 3)), example_push_env)]"
  obtain effs d' where s: "consume_loop example_push global_config_default (ascii ''ethernet-ip'') example_io ?inps
      (example_push_start\<lparr>pd_paused := True\<rparr>) = (effs, d', None)"
    using example_data_step [of example_push global_config_default "ascii ''ethernet-ip''" example_io example_frame 1 True 3
      example_push_env "example_push_start\<lparr>pd_paused := True\<rparr>"] by auto
  from push_paused_consumes [OF _ _ s] s show ?thesis
    by (simp add: example_push_start_def push_driver_init_def health_default_def)
qed

definition example_paused_start :: push_driver where
  "example_paused_start = push_driver_init 0 (health_default\<lparr>h_paused := True\<rparr>) io_default"

definition example_resume_env :: push_env where
  "example_resume_env = example_push_env\<lparr>pe_last_input := Some \<lparr>is_readings = [\<lparr>rd_signal_id = ascii ''x'', rd_name = None,
     rd_value = JBool True, rd_quality = Good, rd_quality_raw = None, rd_observed_type = None\<rparr>], is_received_at = 0,
     is_run_mode = True\<rparr>\<rparr>"


end
