(* ===== verification/Reconnect.thy ===== *)
theory Reconnect
  imports Poll_Driver Push_Driver
begin

text \<open>
  The connect ladders (\<^verbatim>\<open>reconnect.rs\<close>) and the wait between two attempts (\<^verbatim>\<open>serve_control_disconnected\<close> of
  \<^verbatim>\<open>app.rs\<close>): connect, drive until the link breaks, back off while still answering the control channel. A
  round of a ladder is one pass of its loop over the inputs the pass awaits; the engine loops are those of
  theories \<open>Poll_Driver\<close> and \<open>Push_Driver\<close>. A run whose inputs end inside a loop has not returned.
\<close>

section \<open>Inputs, state, effects\<close>

record session_security =
  se_tls :: bool
  se_peer_verified :: bool
  se_client_cert_expiry_days :: "int option"

datatype connect_outcome =
    Connected "seam_identity option" "session_security option"
  | ConnectError device_error
  | ConnectElapsed

datatype ladder_effect =
    Drv effect
  | MConnectAttempt
  | MConnected u64
  | MCertExpiry int
  | MConnectFailure
  | MTlsHandshakeFailure
  | MDropped
  | AskedReconnect reply_to

text \<open>\<open>AskedReconnect\<close> marks the point at which a ladder takes over the reply of a reconnect request.\<close>

record ladder =
  ld_attempt :: u32
  ld_pending :: "reply_to option"
  ld_health :: health
  ld_tls_failing :: bool
  ld_io :: io_counters

datatype ladder_status = Continue | Returned | StillDriving | StillWaiting

text \<open>The backend of an adapter token; an unknown token launches nothing.\<close>

datatype backend_kind = SimBackend | EipBackend

definition backend_for :: "rstr \<Rightarrow> backend_kind option" where
  "backend_for adapter =
     (if adapter = ascii ''sim'' then Some SimBackend else if adapter = ascii ''ethernet-ip'' then Some EipBackend else None)"

section \<open>The wait between attempts\<close>

datatype disconnected_wait = WaitElapsed | WaitReconnect reply_to | WaitStopped

datatype wait_event = WeCancelled | WeControl "device_control option" | WeSlept

definition connect_reason :: "connect_outcome \<Rightarrow> duration \<Rightarrow> rstr" where
  "connect_reason outcome connect_timeout =
     (case outcome of
        ConnectError e \<Rightarrow> device_error_display e
      | _ \<Rightarrow> ascii ''connect timed out after '' @ dec_digits (connect_timeout div 1000000) @ ascii '' ms'')"

definition emit_drained :: "device_config \<Rightarrow> health \<times> io_counters \<Rightarrow> health \<times> io_counters" where
  "emit_drained cfg s = (drain_health (fst s), if dc_mode cfg = Push then snd (io_drain (snd s)) else snd s)"

definition wait_pause ::
    "device_config \<Rightarrow> bool \<Rightarrow> rstr option \<Rightarrow> reply_to \<Rightarrow> health \<times> io_counters \<Rightarrow> effect list \<times> health \<times> io_counters" where
  "wait_pause cfg paused who r s =
     (let (changed, evs, h1) = apply_pause cfg paused who (fst s);
          s1 = (h1, snd s);
          s2 = (if changed then emit_drained cfg s1 else s1)
      in ((if changed then [MetricsEmitted] else []) @ map Evented evs @ [Replied r (RepChanged changed)], s2))"

fun serve_control_disconnected ::
    "device_config \<Rightarrow> instant \<Rightarrow> (instant \<times> wait_event) list \<Rightarrow> health \<times> io_counters \<Rightarrow>
     effect list \<times> (health \<times> io_counters) \<times> disconnected_wait option" where
  "serve_control_disconnected cfg deadline [] s = ([], s, None)"
| "serve_control_disconnected cfg deadline ((now, ev) # rest) s =
     (let again = (\<lambda>(effs, s1).
            let (more, s2, res) = serve_control_disconnected cfg deadline rest s1 in (effs @ more, s2, res));
          gone = ascii ''device is disconnected''
      in if saturating_duration_since deadline now = 0 then ([], s, Some WaitElapsed)
         else case ev of
           WeCancelled \<Rightarrow> ([], s, Some WaitStopped)
         | WeSlept \<Rightarrow> ([], s, Some WaitElapsed)
         | WeControl None \<Rightarrow> ([], s, Some WaitStopped)
         | WeControl (Some ctl) \<Rightarrow>
             (case ctl of
                CtlReconnect r \<Rightarrow> ([], s, Some (WaitReconnect r))
              | CtlPause who r \<Rightarrow> again (wait_pause cfg True who r s)
              | CtlResume r \<Rightarrow> again (wait_pause cfg False None r s)
              | CtlSnapshot r \<Rightarrow> again ([Replied r (RepSnapshot None)], s)
              | CtlReadNow specs r \<Rightarrow> again ([Replied r (RepReadings (Inl gone))], s)
              | CtlWrite sig v r \<Rightarrow> again ([Replied r (RepWrite (Inl gone))], s)
              | CtlWriteOutput f v r \<Rightarrow> again ([Replied r (RepWrite (Inl gone))], s)
              | CtlRepoll r \<Rightarrow> again ([Replied r (RepRepoll (Inl gone))], s)
              | CtlBrowse cursor mx r \<Rightarrow> again ([Replied r (RepBrowse (Inl (BrowseFailed gone)))], s)))"

section \<open>The poll ladder\<close>

record poll_round =
  pr_cancelled :: bool
  pr_outcome :: connect_outcome
  pr_latency_ms :: u64
  pr_start :: instant
  pr_inputs :: "(wake \<times> step_env) list"
  pr_jitter :: f64
  pr_wait_from :: instant
  pr_wait :: "(instant \<times> wait_event) list"

definition connect_timeout :: "global_config \<Rightarrow> duration" where
  "connect_timeout global = from_millis (unat (max (to_connect_ms (gc_timeouts global)) 1))"

definition answer_pending :: "rstr + unit \<Rightarrow> ladder \<Rightarrow> ladder_effect list \<times> ladder" where
  "answer_pending res s =
     (case ld_pending s of
        Some r \<Rightarrow> ([Drv (Replied r (RepReconnect res))], s\<lparr>ld_pending := None\<rparr>)
      | None \<Rightarrow> ([], s))"

text \<open>What both ladders do after the wait was entered with the delay \<open>wait\<close>.\<close>

definition wait_out ::
    "device_config \<Rightarrow> duration \<Rightarrow> instant \<Rightarrow> (instant \<times> wait_event) list \<Rightarrow> ladder \<Rightarrow> ladder_effect list \<times> ladder \<times> ladder_status" where
  "wait_out cfg wait from_now evs s =
     (let (effs, (h, io), res) = serve_control_disconnected cfg (from_now + wait) evs (ld_health s, ld_io s);
          s1 = s\<lparr>ld_health := h, ld_io := io\<rparr>
      in case res of
           None \<Rightarrow> (map Drv effs, s1, StillWaiting)
         | Some WaitStopped \<Rightarrow> (map Drv effs, s1, Returned)
         | Some (WaitReconnect r) \<Rightarrow> (map Drv effs @ [AskedReconnect r], s1\<lparr>ld_pending := Some r\<rparr>, Continue)
         | Some WaitElapsed \<Rightarrow> (map Drv effs, s1, Continue))"

definition saturating_inc_u32 :: "u32 \<Rightarrow> u32" where
  "saturating_inc_u32 n = (if n = - 1 then n else n + 1)"

definition is_permanent :: "connect_outcome \<Rightarrow> bool" where
  "is_permanent outcome = (case outcome of ConnectError e \<Rightarrow> \<not> device_error_is_transient e | _ \<Rightarrow> False)"

definition failure_wait :: "global_config \<Rightarrow> connect_outcome \<Rightarrow> u32 \<Rightarrow> f64 \<Rightarrow> duration" where
  "failure_wait global outcome attempt jitter =
     (let b = backoff_from_timeouts (gc_timeouts global) in
      if is_permanent outcome then from_millis (unat (bo_max_ms b)) else backoff_delay b attempt jitter)"

definition connected_events :: "device_config \<Rightarrow> rstr \<Rightarrow> seam_identity option \<Rightarrow> session_security option \<Rightarrow> ladder_effect list" where
  "connected_events cfg kind identity security =
     (case security of
        Some sec \<Rightarrow>
          if \<not> se_peer_verified sec \<and> se_tls sec
          then [Drv (Evented (Emit Warning ''tls-peer-unverified'' [json_field ''instance'' (JString (dc_id cfg))]))] else []
      | None \<Rightarrow> []) @
     [Drv (Evented (Emit Info ''device-connected''
        ([json_field ''instance'' (JString (dc_id cfg)), json_field ''adapter'' (JString kind)] @
         json_opt ''identity'' (map_option identity_json identity) @
         json_opt ''security'' (map_option (\<lambda>sec. JString (ascii (if se_tls sec then ''tls'' else ''plaintext''))) security)))),
      Drv (Evented (ClearAlarm Critical ''device-unreachable''))]"

definition unreachable_alarm :: "device_config \<Rightarrow> effect" where
  "unreachable_alarm cfg =
     Evented (RaiseAlarm Critical ''device-unreachable'' [json_field ''instance'' (JString (dc_id cfg))])"

text \<open>A connected session, up to the driver.\<close>

definition on_session ::
    "device_config \<Rightarrow> rstr \<Rightarrow> poll_round \<Rightarrow> seam_identity option \<Rightarrow> session_security option \<Rightarrow> ladder \<Rightarrow>
     ladder_effect list \<times> ladder" where
  "on_session cfg kind ro identity security s =
     (let days = (case Option.bind security se_client_cert_expiry_days of Some n \<Rightarrow> [MCertExpiry n] | None \<Rightarrow> []);
          h = drain_health (set_link Online (set_identity identity (ld_health s)));
          (reply, s1) = answer_pending (Inr ()) (s\<lparr>ld_attempt := 0, ld_tls_failing := False, ld_health := h\<rparr>)
      in ([MConnected (pr_latency_ms ro)] @ days @ [Drv MetricsEmitted] @ connected_events cfg kind identity security @ reply, s1))"

definition link_lost ::
    "device_config \<Rightarrow> global_config \<Rightarrow> f64 \<Rightarrow> instant \<Rightarrow> (instant \<times> wait_event) list \<Rightarrow> ladder \<Rightarrow>
     ladder_effect list \<times> ladder \<times> ladder_status" where
  "link_lost cfg global jitter from_now evs s =
     (let h0 = set_link Backoff (ld_health s);
          (h1, io1) = emit_drained cfg (h0\<lparr>h_reconnects := h_reconnects h0 + 1\<rparr>, ld_io s);
          wait = backoff_delay (backoff_from_timeouts (gc_timeouts global)) (ld_attempt s) jitter;
          (effs, s1, status) = wait_out cfg wait from_now evs (s\<lparr>ld_health := h1, ld_io := io1\<rparr>)
      in ([Drv MetricsEmitted, Drv (unreachable_alarm cfg)] @ effs,
          if status = Continue then s1\<lparr>ld_attempt := saturating_inc_u32 (ld_attempt s1)\<rparr> else s1, status))"

definition connect_failed ::
    "device_config \<Rightarrow> global_config \<Rightarrow> bool \<Rightarrow> poll_round \<Rightarrow> ladder \<Rightarrow> ladder_effect list \<times> ladder \<times> ladder_status" where
  "connect_failed cfg global tls_instance ro s =
     (let reason = connect_reason (pr_outcome ro) (connect_timeout global);
          (reply, s1) = answer_pending (Inl reason) (s\<lparr>ld_health := set_link Backoff (ld_health s)\<rparr>);
          handshake = tls_instance \<and> is_permanent (pr_outcome ro);
          tls = (if handshake
                 then [MTlsHandshakeFailure, Drv MetricsEmitted] @
                   (if ld_tls_failing s1 then []
                    else [Drv (Evented (Emit Warning ''tls-handshake-failed''
                            [json_field ''instance'' (JString (dc_id cfg)), json_field ''security'' (JString (ascii ''tls''))]))])
                 else []);
          s2 = (if handshake then s1\<lparr>ld_tls_failing := True, ld_health := drain_health (ld_health s1)\<rparr> else s1);
          wait = failure_wait global (pr_outcome ro) (ld_attempt s2) (pr_jitter ro);
          (effs, s3, status) = wait_out cfg wait (pr_wait_from ro) (pr_wait ro)
            (s2\<lparr>ld_attempt := saturating_inc_u32 (ld_attempt s2)\<rparr>)
      in ([MConnectFailure] @ reply @ tls @ effs, s3, status))"

definition run_device_round ::
    "device_config \<Rightarrow> global_config \<Rightarrow> bool \<Rightarrow> rstr \<Rightarrow> poll_round \<Rightarrow> ladder \<Rightarrow> ladder_effect list \<times> ladder \<times> ladder_status" where
  "run_device_round cfg global tls_instance kind ro s =
     (if pr_cancelled ro then ([MConnectAttempt], s, Returned)
      else case pr_outcome ro of
        Connected identity security \<Rightarrow>
          (let (effs1, s1) = on_session cfg kind ro identity security s;
               (effs2, d, exit) = poll_until_disconnected cfg global (pr_inputs ro)
                 (driver_init cfg global (pr_start ro) (ld_health s1));
               pre = [MConnectAttempt] @ effs1 @ map Drv effs2
           in case exit of
                None \<Rightarrow> (pre, s1\<lparr>ld_health := dr_health d\<rparr>, StillDriving)
              | Some ex \<Rightarrow>
                  let s2 = s1\<lparr>ld_health := set_identity None (dr_health d)\<rparr>; pre2 = pre @ [MDropped] in
                  case ex of
                    Stopped \<Rightarrow> (pre2, s2, Returned)
                  | LinkLost \<Rightarrow>
                      let (effs3, s3, status) = link_lost cfg global (pr_jitter ro) (pr_wait_from ro) (pr_wait ro) s2
                      in (pre2 @ effs3, s3, status)
                  | Reconnect r \<Rightarrow>
                      (pre2 @ [AskedReconnect r],
                       s2\<lparr>ld_health := set_link Connecting (ld_health s2), ld_pending := Some r\<rparr>, Continue))
      | _ \<Rightarrow>
          let (effs, s1, status) = connect_failed cfg global tls_instance ro s in ([MConnectAttempt] @ effs, s1, status))"

text \<open>The ladder over its rounds.\<close>

fun run_device ::
    "device_config \<Rightarrow> global_config \<Rightarrow> bool \<Rightarrow> rstr \<Rightarrow> poll_round list \<Rightarrow> ladder \<Rightarrow> ladder_effect list \<times> ladder \<times> ladder_status" where
  "run_device cfg global tls_instance kind [] s = ([], s, Continue)"
| "run_device cfg global tls_instance kind (ro # ros) s =
     (case run_device_round cfg global tls_instance kind ro s of
        (effs, s1, Continue) \<Rightarrow>
          let (rest, s2, status) = run_device cfg global tls_instance kind ros s1 in (effs @ rest, s2, status)
      | other \<Rightarrow> other)"

section \<open>The push ladder\<close>

record push_round =
  ph_cancelled :: bool
  ph_outcome :: connect_outcome
  ph_latency_ms :: u64
  ph_start :: instant
  ph_inputs :: "(push_woke \<times> push_env) list"
  ph_jitter :: f64
  ph_wait_from :: instant
  ph_wait :: "(instant \<times> wait_event) list"

definition run_push_round ::
    "device_config \<Rightarrow> global_config \<Rightarrow> rstr \<Rightarrow> push_round \<Rightarrow> ladder \<Rightarrow> ladder_effect list \<times> ladder \<times> ladder_status" where
  "run_push_round cfg global kind ro s0 =
     (let s = s0\<lparr>ld_health := set_link Connecting (ld_health s0)\<rparr> in
      if ph_cancelled ro then ([MConnectAttempt], s, Returned)
      else case ph_outcome ro of
        Connected identity security \<Rightarrow>
          (let (reply, s1) = answer_pending (Inr ())
                 (s\<lparr>ld_attempt := 0, ld_io := on_forward_open True (ld_io s), ld_health := set_identity identity (ld_health s)\<rparr>);
               (effs2, d, exit) = consume_push cfg global kind (ph_inputs ro)
                 (push_driver_init (ph_start ro) (ld_health s1) (ld_io s1));
               pre = [MConnectAttempt, MConnected (ph_latency_ms ro)] @ reply @ map Drv effs2
           in case exit of
                None \<Rightarrow> (pre, s1\<lparr>ld_health := pd_health d, ld_io := pd_io d\<rparr>, StillDriving)
              | Some ex \<Rightarrow>
                  let s2 = s1\<lparr>ld_health := set_identity None (pd_health d), ld_io := pd_io d\<rparr>;
                      pre2 = pre @ [Drv SessionClosed, MDropped]
                  in case ex of
                    PushStopped \<Rightarrow> (pre2, s2, Returned)
                  | PushLinkLost \<Rightarrow>
                      let (effs3, s3, status) = link_lost cfg global (ph_jitter ro) (ph_wait_from ro) (ph_wait ro) s2
                      in (pre2 @ effs3, s3, status)
                  | PushReconnect r \<Rightarrow>
                      (pre2 @ [AskedReconnect r],
                       s2\<lparr>ld_health := set_link Connecting (ld_health s2), ld_io := on_io_link_replaced (ld_io s2),
                          ld_pending := Some r\<rparr>, Continue))
      | _ \<Rightarrow>
          (let reason = connect_reason (ph_outcome ro) (connect_timeout global);
               (reply, s1) = answer_pending (Inl reason)
                 (s\<lparr>ld_health := set_link Backoff (ld_health s), ld_io := on_forward_open False (ld_io s)\<rparr>);
               wait = failure_wait global (ph_outcome ro) (ld_attempt s1) (ph_jitter ro);
               (effs, s2, status) = wait_out cfg wait (ph_wait_from ro) (ph_wait ro)
                 (s1\<lparr>ld_attempt := saturating_inc_u32 (ld_attempt s1)\<rparr>)
           in ([MConnectAttempt, MConnectFailure] @ reply @ effs, s2, status)))"

fun run_push_rounds ::
    "device_config \<Rightarrow> global_config \<Rightarrow> rstr \<Rightarrow> push_round list \<Rightarrow> ladder \<Rightarrow> ladder_effect list \<times> ladder \<times> ladder_status" where
  "run_push_rounds cfg global kind [] s = ([], s, Continue)"
| "run_push_rounds cfg global kind (ro # ros) s =
     (case run_push_round cfg global kind ro s of
        (effs, s1, Continue) \<Rightarrow>
          let (rest, s2, status) = run_push_rounds cfg global kind ros s1 in (effs @ rest, s2, status)
      | other \<Rightarrow> other)"

definition run_push ::
    "device_config \<Rightarrow> global_config \<Rightarrow> rstr \<Rightarrow> push_round list \<Rightarrow> ladder \<Rightarrow> ladder_effect list \<times> ladder \<times> ladder_status" where
  "run_push cfg global kind ros s = (case dc_io cfg of None \<Rightarrow> ([], s, Returned) | Some _ \<Rightarrow> run_push_rounds cfg global kind ros s)"

definition ladder_init :: "health \<Rightarrow> io_counters \<Rightarrow> ladder" where
  "ladder_init h io = \<lparr>ld_attempt = 0, ld_pending = None, ld_health = h, ld_tls_failing = False, ld_io = io\<rparr>"

section \<open>What the engine loops leave to the ladder\<close>

text \<open>No engine loop and no wait answers a reconnect request or raises an alarm.\<close>

fun plain :: "effect \<Rightarrow> bool" where
  "plain (Replied _ (RepReconnect _)) = False"
| "plain (Evented (RaiseAlarm _ _ _)) = False"
| "plain _ = True"

lemma plain_delivery: "list_all is_delivery effs \<Longrightarrow> list_all plain effs"
proof -
  have "is_delivery x \<Longrightarrow> plain x" for x by (cases x) auto
  then show "list_all is_delivery effs \<Longrightarrow> list_all plain effs" by (auto simp: list_all_iff)
qed

lemma plain_pause: "apply_pause cfg b who h = (changed, evs, h') \<Longrightarrow> list_all plain (map Evented evs) \<and> h_link h' = h_link h"
  by (auto simp: apply_pause_def split: if_splits)

lemma plain_deliver_all: "deliver_all cfg global fb b sink k pubs (e, h) = (effs, e', h') \<Longrightarrow> list_all plain effs"
  unfolding deliver_all_def by (rule plain_delivery [OF poll_pub.deliver_only])

lemma plain_poll_one: "poll_one cfg global env k idx eh = (effs, eh', ex) \<Longrightarrow> list_all plain effs"
proof (cases "ev_read env 0")
  case (Inl err)
  assume "poll_one cfg global env k idx eh = (effs, eh', ex)"
  with Inl show ?thesis by (cases eh) (auto simp: poll_one_def Let_def)
next
  case (Inr readings)
  assume p: "poll_one cfg global env k idx eh = (effs, eh', ex)"
  obtain e h e' h' where eh: "eh = (e, h)" "eh' = (e', h')" by (metis surj_pair)
  have m: "is_cycle m \<Longrightarrow> plain m" for m by (cases m) auto
  show ?thesis by (rule poll_one_ok [OF p [unfolded eh] Inr]) (use plain_deliver_all m in auto)
qed

lemma plain_repoll: "repoll_groups cfg global env k idx gs polled eh = (effs, eh', res) \<Longrightarrow> list_all plain effs"
proof (induction gs arbitrary: k idx polled eh effs eh' res)
  case (Cons g gs)
  obtain e h where eh: "eh = (e, h)" by (metis surj_pair)
  show ?case
  proof (cases "ev_read env idx")
    case (Inl err)
    with Cons.prems eh show ?thesis by auto
  next
    case (Inr readings)
    obtain pubs e2 h2 where p: "process_group g (modes cfg global ! idx) (effective_batch_ms cfg global) readings (ev_now2 env idx)
        (ev_server_ts env idx) (e, record_observed readings h) = (pubs, e2, h2)" by (metis prod_cases3)
    obtain effs1 e3 h3 where dl: "deliver_all cfg global (publish_mode_str (modes cfg global ! idx)) False (ev_sink env) k pubs (e2, h2) =
        (effs1, e3, h3)" by (metis prod_cases3)
    obtain rest eh4 res' where r: "repoll_groups cfg global env (k + length pubs) (Suc idx) gs
        (polled + of_nat (length (pg_signals g))) (e3, h3) = (rest, eh4, res')" by (metis prod_cases3)
    have "effs = ReadGroup (map sg_tag_path (pg_signals g)) # effs1 @ rest" using Cons.prems eh Inr p dl r by (auto simp: Let_def)
    with plain_deliver_all [OF dl] Cons.IH [OF r] show ?thesis by simp
  qed
qed simp

lemma plain_poll_control: "poll_control cfg global env ctl d = (effs, d', ex) \<Longrightarrow> list_all plain effs"
proof (cases ctl)
  case (CtlRepoll r)
  assume "poll_control cfg global env ctl d = (effs, d', ex)"
  with CtlRepoll plain_repoll show ?thesis
    by (cases "repoll_groups cfg global env 0 0 (dc_poll_groups cfg) 0 (dr_engine d, dr_health d)")
      (auto simp: poll_control_def Let_def split: if_splits sum.splits)
qed (auto simp: poll_control_def apply_pause_def Let_def split: sum.splits device_error.splits if_splits prod.splits)

lemma plain_poll_tick: "poll_tick cfg global env d = (effs, d', ex) \<Longrightarrow> list_all plain effs"
proof -
  assume a: "poll_tick cfg global env d = (effs, d', ex)"
  have em: "list_all plain (fst (emit_metrics cfg global env d1))" for d1 by (simp add: emit_metrics_def Let_def)
  have ti: "list_all plain effs1" if "(if dr_paused d then tick_paused global env d else tick_running cfg global env d) = (effs1, d1, ex1)"
    for effs1 d1 ex1
  proof (cases "dr_paused d")
    case True
    with that show ?thesis by (auto simp: tick_paused_def Let_def split: if_splits sum.splits)
  next
    case False
    obtain pubs e1 where td: "take_due (ev_order env) (effective_batch_ms cfg global) (ev_now env) (dr_engine d) = (pubs, e1)"
      by (metis surj_pair)
    obtain effs2 e2 h2 where dl: "deliver_all cfg global (publish_mode_str OnChange) True (ev_sink env) 0 pubs (e1, dr_health d) =
        (effs2, e2, h2)" by (metis prod_cases3)
    show ?thesis
      using that False td dl plain_deliver_all [OF dl] plain_poll_one
      by (auto simp: tick_running_def split: option.splits prod.splits)
  qed
  from a show ?thesis
    using ti em by (auto simp: poll_tick_def split: prod.splits option.splits) (metis fst_conv)+
qed

lemma plain_poll_step: "poll_step cfg global inp d = (effs, d', ex) \<Longrightarrow> list_all plain effs"
  by (cases inp; cases "fst inp")
    (auto simp: poll_step_def dest: plain_poll_control plain_poll_tick split: option.splits)

lemma plain_poll_run: "poll_until_disconnected cfg global inps d = (effs, d', ex) \<Longrightarrow> list_all plain effs"
proof (induction inps arbitrary: d effs d' ex)
  case (Cons inp inps)
  obtain effs1 d1 ex1 where s: "poll_step cfg global inp d = (effs1, d1, ex1)" by (metis prod_cases3)
  obtain rest d2 ex2 where r: "poll_until_disconnected cfg global inps d1 = (rest, d2, ex2)" by (metis prod_cases3)
  from Cons.prems s r plain_poll_step [OF s] Cons.IH [OF r] show ?case by (cases ex1) auto
qed simp

lemma plain_push_tail: "push_tail cfg global io env k d = (effs, d') \<Longrightarrow> list_all plain effs"
proof -
  assume a: "push_tail cfg global io env k d = (effs, d')"
  have f: "list_all plain (fst (push_flush cfg global io env k d))"
  proof (cases "pd_paused d")
    case False
    obtain pubs e1 where t: "take_due (pe_order env) (effective_batch_ms cfg global) (pe_now env) (pd_engine d) = (pubs, e1)"
      by (metis surj_pair)
    obtain effs2 e2 h2 where dl: "deliver_with (publish_field io (publish_mode_str (push_publish_mode cfg global)) True (pe_sink env))
        k pubs (e1, pd_health d) = (effs2, e2, h2)" by (metis prod_cases3)
    from plain_delivery [OF push_pub.deliver_only [OF dl]] False t dl show ?thesis by (simp add: push_flush_def)
  qed (simp add: push_flush_def)
  have m: "list_all plain (fst (push_metrics global io env d1))" for d1
    by (auto simp: push_metrics_def Let_def split: option.splits prod.splits)
  from a f m show ?thesis by (auto simp: push_tail_def split: prod.splits) (metis fst_conv)
qed

lemma plain_push_data: "push_data cfg global io env rs seq run rcvd d = (effs, d', k) \<Longrightarrow> list_all plain effs"
proof (cases "pd_paused d")
  case False
  assume a: "push_data cfg global io env rs seq run rcvd d = (effs, d', k)"
  obtain pubs e1 h1 where p: "process_frame rs (input_deadbands io) (push_publish_mode cfg global) (ii_sample_ms (ic_input io))
      (effective_batch_ms cfg global) (pe_frame_now env) (pe_server_ts env)
      (pd_engine d, (pd_health d)\<lparr>h_frames_consumed := h_frames_consumed (pd_health d) + 1\<rparr>) = (pubs, e1, h1)"
    by (metis prod_cases3)
  obtain effs2 e2 h2 where dl: "deliver_with (publish_field io (publish_mode_str (push_publish_mode cfg global)) False (pe_sink env))
      0 pubs (e1, h1) = (effs2, e2, h2)" by (metis prod_cases3)
  from plain_delivery [OF push_pub.deliver_only [OF dl]] a False p dl show ?thesis by (simp add: push_data_def)
qed (simp add: push_data_def)

lemma plain_push_control: "push_control cfg env ctl d = (effs, d', ex) \<Longrightarrow> list_all plain effs"
  by (cases ctl) (auto simp: push_control_def apply_pause_def Let_def split: sum.splits if_splits prod.splits)

lemma plain_consume_step: "consume_step cfg global adapter io inp d = (effs, d', ex) \<Longrightarrow> list_all plain effs"
proof -
  assume a: "consume_step cfg global adapter io inp d = (effs, d', ex)"
  obtain woke env where inp: "inp = (woke, env)" by (metis surj_pair)
  have up: "list_all plain (fst (push_up cfg adapter o2t t2o d))" for o2t t2o by (simp add: push_up_def Let_def)
  consider m where "woke = WokeControl m" | o2t t2o where "woke = WokeUpdate (Some (IoUp o2t t2o))"
    | rs seq run rcvd where "woke = WokeUpdate (Some (IoData rs seq run rcvd))"
    | "woke = WokeCancelled \<or> woke = WokeUpdate None \<or> (\<exists>err. woke = WokeUpdate (Some (IoLost err)))" | "woke = WokeTick"
    by (metis push_woke.exhaust seam_io_update.exhaust option.exhaust)
  then show ?thesis
  proof cases
    case (1 m)
    with a inp plain_push_control show ?thesis by (cases m) (auto simp: consume_step_def)
  next
    case (2 o2t t2o)
    with a inp up [of o2t t2o] plain_push_tail show ?thesis by (auto simp: consume_step_def split: prod.splits)
  next
    case (3 rs seq run rcvd)
    with a inp plain_push_data plain_push_tail show ?thesis by (auto simp: consume_step_def split: prod.splits)
  next
    case 4
    with a inp show ?thesis by (auto simp: consume_step_def)
  next
    case 5
    with a inp plain_push_tail show ?thesis by (auto simp: consume_step_def split: prod.splits)
  qed
qed

lemma plain_consume_loop: "consume_loop cfg global adapter io inps d = (effs, d', ex) \<Longrightarrow> list_all plain effs"
proof (induction inps arbitrary: d effs d' ex)
  case (Cons inp inps)
  obtain effs1 d1 ex1 where s: "consume_step cfg global adapter io inp d = (effs1, d1, ex1)" by (metis prod_cases3)
  obtain rest d2 ex2 where r: "consume_loop cfg global adapter io inps d1 = (rest, d2, ex2)" by (metis prod_cases3)
  from Cons.prems s r plain_consume_step [OF s] Cons.IH [OF r] show ?case by (cases ex1) auto
qed simp

lemma plain_consume_push: "consume_push cfg global adapter inps d = (effs, d', ex) \<Longrightarrow> list_all plain effs"
  by (auto simp: consume_push_def dest: plain_consume_loop split: option.splits)

text \<open>A wait changes neither, clears no alarm, and leaves the link state alone.\<close>

definition calm_wait :: "effect list \<Rightarrow> bool" where
  "calm_wait effs \<longleftrightarrow> list_all plain effs \<and> (\<forall>sev t. Evented (ClearAlarm sev t) \<notin> set effs)"

lemma calm_wait_simps [simp]: "calm_wait []" "calm_wait (xs @ ys) \<longleftrightarrow> calm_wait xs \<and> calm_wait ys"
  by (auto simp: calm_wait_def)

lemma wait_pause_calm:
  "wait_pause cfg b who r s = (effs, s') \<Longrightarrow> calm_wait effs \<and> h_link (fst s') = h_link (fst s)"
  by (auto simp: wait_pause_def apply_pause_def emit_drained_def drain_health_def calm_wait_def Let_def split: if_splits)

definition serve_again ::
    "device_config \<Rightarrow> instant \<Rightarrow> (instant \<times> wait_event) list \<Rightarrow> effect list \<times> health \<times> io_counters \<Rightarrow>
     effect list \<times> (health \<times> io_counters) \<times> disconnected_wait option" where
  "serve_again cfg deadline rest p =
     (let (more, s2, res) = serve_control_disconnected cfg deadline rest (snd p) in (fst p @ more, s2, res))"

text \<open>A wait either ends at once with nothing said, or answers one message and goes on.\<close>

lemma serve_cases:
  "(\<exists>res. serve_control_disconnected cfg deadline ((now, ev) # rest) s = ([], s, Some res)) \<or>
   (now < deadline \<and> (\<exists>p. calm_wait (fst p) \<and> h_link (fst (snd p)) = h_link (fst s) \<and>
      serve_control_disconnected cfg deadline ((now, ev) # rest) s = serve_again cfg deadline rest p))"
proof (cases "saturating_duration_since deadline now = 0")
  case False
  then have lt: "now < deadline" by (simp add: saturating_duration_since_def split: if_splits)
  have one: ?thesis if "serve_control_disconnected cfg deadline ((now, ev) # rest) s = serve_again cfg deadline rest ([x], s)"
    "plain x" "\<And>sev t. x \<noteq> Evented (ClearAlarm sev t)" for x
    using that lt by (intro disjI2 conjI exI [of _ "([x], s)"]) (auto simp: calm_wait_def)
  have pse: ?thesis if "serve_control_disconnected cfg deadline ((now, ev) # rest) s = serve_again cfg deadline rest (wait_pause cfg b who r s)"
    for b who r
    using that lt wait_pause_calm [of cfg b who r s] by (cases "wait_pause cfg b who r s") auto
  show ?thesis
  proof (cases ev)
    case (WeControl m)
    show ?thesis
    proof (cases m)
      case (Some ctl)
      note defs = False WeControl Some serve_again_def Let_def split_def
      show ?thesis
      proof (cases ctl)
        case (CtlPause who r)
        then show ?thesis by (intro pse [of True who r]) (simp add: defs)
      next
        case (CtlResume r)
        then show ?thesis by (intro pse [of False None r]) (simp add: defs)
      next
        case (CtlReconnect r)
        then show ?thesis by (simp add: defs)
      next
        case (CtlSnapshot r)
        then show ?thesis by (intro one [of "Replied r (RepSnapshot None)"]) (simp_all add: defs)
      next
        case (CtlReadNow specs r)
        then show ?thesis by (intro one [of "Replied r (RepReadings (Inl (ascii ''device is disconnected'')))"]) (simp_all add: defs)
      next
        case (CtlWrite sig v r)
        then show ?thesis by (intro one [of "Replied r (RepWrite (Inl (ascii ''device is disconnected'')))"]) (simp_all add: defs)
      next
        case (CtlWriteOutput f v r)
        then show ?thesis by (intro one [of "Replied r (RepWrite (Inl (ascii ''device is disconnected'')))"]) (simp_all add: defs)
      next
        case (CtlRepoll r)
        then show ?thesis by (intro one [of "Replied r (RepRepoll (Inl (ascii ''device is disconnected'')))"]) (simp_all add: defs)
      next
        case (CtlBrowse cursor mx r)
        then show ?thesis
          by (intro one [of "Replied r (RepBrowse (Inl (BrowseFailed (ascii ''device is disconnected''))))"]) (simp_all add: defs)
      qed
    qed (simp add: False WeControl)
  qed (simp_all add: False)
qed simp

lemma wait_calm:
  "serve_control_disconnected cfg deadline evs s = (effs, s', res) \<Longrightarrow> calm_wait effs \<and> h_link (fst s') = h_link (fst s)"
proof (induction evs arbitrary: s effs)
  case (Cons nev evs)
  obtain now ev where nev: "nev = (now, ev)" by (metis surj_pair)
  from serve_cases [of cfg deadline now ev evs s] show ?case
  proof (elim disjE exE conjE)
    fix p
    assume p: "calm_wait (fst p)" "h_link (fst (snd p)) = h_link (fst s)"
      "serve_control_disconnected cfg deadline ((now, ev) # evs) s = serve_again cfg deadline evs p"
    obtain more where m: "serve_control_disconnected cfg deadline evs (snd p) = (more, s', res)" "effs = fst p @ more"
      using Cons.prems p(3) unfolding nev by (auto simp: serve_again_def split: prod.splits)
    from Cons.IH [OF m(1)] p(1,2) m(2) show ?thesis by simp
  qed (use Cons.prems nev in simp)
qed simp

lemma wait_ends:
  assumes "(now, ev) \<in> set evs" "deadline \<le> now"
  shows "\<exists>effs s' r. serve_control_disconnected cfg deadline evs s = (effs, s', Some r)"
  using assms(1)
proof (induction evs arbitrary: s)
  case (Cons nev evs)
  obtain t x where nev: "nev = (t, x)" by (metis surj_pair)
  from serve_cases [of cfg deadline t x evs s] show ?case
  proof (elim disjE exE conjE)
    fix p
    assume p: "t < deadline" "serve_control_disconnected cfg deadline ((t, x) # evs) s = serve_again cfg deadline evs p"
    then have "(now, ev) \<in> set evs" using Cons.prems assms(2) nev by auto
    from Cons.IH [OF this, of "snd p"] p(2) show ?thesis unfolding nev by (auto simp: serve_again_def)
  qed (use nev in auto)
qed simp

section \<open>Requests, answers and the alarm\<close>

definition asked :: "ladder_effect list \<Rightarrow> reply_to list" where
  "asked effs = concat (map (\<lambda>x. case x of AskedReconnect r \<Rightarrow> [r] | _ \<Rightarrow> []) effs)"

definition answered :: "ladder_effect list \<Rightarrow> (reply_to \<times> (rstr + unit)) list" where
  "answered effs = concat (map (\<lambda>x. case x of Drv (Replied r (RepReconnect res)) \<Rightarrow> [(r, res)] | _ \<Rightarrow> []) effs)"

definition alarm_step :: "bool \<Rightarrow> ladder_effect \<Rightarrow> bool" where
  "alarm_step b x =
     (case x of Drv (Evented (RaiseAlarm _ _ _)) \<Rightarrow> True | Drv (Evented (ClearAlarm _ _)) \<Rightarrow> False | _ \<Rightarrow> b)"

definition alarm_state :: "bool \<Rightarrow> ladder_effect list \<Rightarrow> bool" where
  "alarm_state b effs = foldl alarm_step b effs"

definition outstanding :: "ladder \<Rightarrow> reply_to list" where
  "outstanding s = (case ld_pending s of Some r \<Rightarrow> [r] | None \<Rightarrow> [])"

lemma ledger_append [simp]:
  "asked (xs @ ys) = asked xs @ asked ys" "answered (xs @ ys) = answered xs @ answered ys"
  "alarm_state b (xs @ ys) = alarm_state (alarm_state b xs) ys"
  by (simp_all add: asked_def answered_def alarm_state_def)

lemma ledger_simps [simp]:
  "asked [] = []" "answered [] = []" "alarm_state b [] = b"
  "asked (x # xs) = (case x of AskedReconnect r \<Rightarrow> [r] | _ \<Rightarrow> []) @ asked xs"
  "answered (x # xs) = (case x of Drv (Replied r (RepReconnect res)) \<Rightarrow> [(r, res)] | _ \<Rightarrow> []) @ answered xs"
  "alarm_state b (x # xs) = alarm_state (alarm_step b x) xs"
  by (simp_all add: asked_def answered_def alarm_state_def)

lemma asked_Drv [simp]: "asked (map Drv effs) = []"
  by (induction effs) auto

lemma answered_plain: "list_all plain effs \<Longrightarrow> answered (map Drv effs) = []"
  by (induction effs) (auto split: effect.splits reply.splits)

lemma alarm_plain: "list_all plain effs \<Longrightarrow> \<not> alarm_state False (map Drv effs)"
proof (induction effs)
  case (Cons x effs)
  then have "\<not> alarm_step False (Drv x)" by (auto simp: alarm_step_def split: effect.splits event.splits)
  with Cons show ?case by simp
qed simp

lemma alarm_calm: "calm_wait effs \<Longrightarrow> alarm_state b (map Drv effs) = b"
proof (induction effs)
  case (Cons x effs)
  then have "alarm_step b (Drv x) = b" by (auto simp: alarm_step_def calm_wait_def split: effect.splits event.splits)
  moreover have "calm_wait effs" using Cons.prems by (auto simp: calm_wait_def)
  ultimately show ?case using Cons.IH by simp
qed simp

lemma answer_pending_eq:
  "answer_pending res s = (map (\<lambda>r. Drv (Replied r (RepReconnect res))) (outstanding s), s\<lparr>ld_pending := None\<rparr>)"
  by (cases s) (auto simp: answer_pending_def outstanding_def split: option.splits)

lemma ledger_answer [simp]:
  "asked (map (\<lambda>r. Drv (Replied r (RepReconnect res))) rs) = []"
  "answered (map (\<lambda>r. Drv (Replied r (RepReconnect res))) rs) = map (\<lambda>r. (r, res)) rs"
  "alarm_state b (map (\<lambda>r. Drv (Replied r (RepReconnect res))) rs) = b"
  by (induction rs) (auto simp: alarm_step_def)

lemma wait_out_ledger:
  assumes "wait_out cfg wait t evs s = (effs, s', st)" "ld_pending s = None"
  shows "answered effs = [] \<and> asked effs = outstanding s' \<and> alarm_state b effs = b \<and>
    h_link (ld_health s') = h_link (ld_health s) \<and> st \<noteq> StillDriving"
proof -
  obtain effs1 h io res where w: "serve_control_disconnected cfg (t + wait) evs (ld_health s, ld_io s) = (effs1, (h, io), res)"
    by (metis prod_cases3 surj_pair)
  have c: "calm_wait effs1" "h_link h = h_link (ld_health s)" using wait_calm [OF w] by auto
  then have "answered (map Drv effs1) = []" "alarm_state b (map Drv effs1) = b"
    using answered_plain alarm_calm by (auto simp: calm_wait_def)
  with c assms w show ?thesis
    by (auto simp: wait_out_def Let_def outstanding_def alarm_step_def split: option.splits disconnected_wait.splits)
qed

lemma link_lost_ledger:
  assumes "link_lost cfg global j t evs s = (effs, s', st)" "ld_pending s = None"
  shows "answered effs = [] \<and> asked effs = outstanding s' \<and> alarm_state b effs \<and> h_link (ld_health s') = Backoff \<and> st \<noteq> StillDriving"
proof -
  let ?h = "set_link Backoff (ld_health s)"
  let ?he = "emit_drained cfg (?h\<lparr>h_reconnects := h_reconnects ?h + 1\<rparr>, ld_io s)"
  let ?s = "s\<lparr>ld_health := fst ?he, ld_io := snd ?he\<rparr>"
  obtain effs1 s1 st1 where w: "wait_out cfg (backoff_delay (backoff_from_timeouts (gc_timeouts global)) (ld_attempt s) j) t evs ?s =
      (effs1, s1, st1)" by (metis prod_cases3)
  have l: "h_link (ld_health ?s) = Backoff" by (simp add: emit_drained_def drain_health_def set_link_def)
  have eq: "effs = [Drv MetricsEmitted, Drv (unreachable_alarm cfg)] @ effs1" "st = st1"
    "s' = (if st1 = Continue then s1\<lparr>ld_attempt := saturating_inc_u32 (ld_attempt s1)\<rparr> else s1)"
    using assms(1) w by (auto simp: link_lost_def Let_def split_def)
  from wait_out_ledger [OF w, of True] wait_out_ledger [OF w, of b] assms(2) l eq show ?thesis
    by (auto simp: unreachable_alarm_def alarm_step_def outstanding_def)
qed

definition connect_result :: "global_config \<Rightarrow> connect_outcome \<Rightarrow> rstr + unit" where
  "connect_result global outcome =
     (case outcome of Connected _ _ \<Rightarrow> Inr () | _ \<Rightarrow> Inl (connect_reason outcome (connect_timeout global)))"

lemma on_session_ledger:
  assumes "on_session cfg kind ro identity security s = (effs, s')"
  shows "answered effs = map (\<lambda>r. (r, Inr ())) (outstanding s) \<and> asked effs = [] \<and> \<not> alarm_state b effs \<and> ld_pending s' = None \<and>
    ld_attempt s' = 0"
proof -
  have "answered (connected_events cfg kind identity security) = []" "asked (connected_events cfg kind identity security) = []"
    "\<not> alarm_state c (connected_events cfg kind identity security)" for c
    by (auto simp: connected_events_def alarm_step_def split: option.splits)
  with assms show ?thesis
    by (auto simp: on_session_def Let_def answer_pending_eq outstanding_def alarm_step_def split: option.splits)
qed

lemma connect_failed_ledger:
  assumes "connect_failed cfg global tls ro s = (effs, s', st)"
  shows "answered effs = map (\<lambda>r. (r, Inl (connect_reason (pr_outcome ro) (connect_timeout global)))) (outstanding s) \<and>
    asked effs = outstanding s' \<and> alarm_state b effs = b \<and> h_link (ld_health s') = Backoff \<and> st \<noteq> StillDriving"
proof -
  let ?hs = "tls \<and> is_permanent (pr_outcome ro)"
  let ?s1 = "s\<lparr>ld_health := set_link Backoff (ld_health s), ld_pending := None\<rparr>"
  let ?s2 = "(if ?hs then ?s1\<lparr>ld_tls_failing := True, ld_health := drain_health (ld_health ?s1)\<rparr> else ?s1)"
  obtain effs1 s1 st1 where w: "wait_out cfg (failure_wait global (pr_outcome ro) (ld_attempt ?s2) (pr_jitter ro)) (pr_wait_from ro) (pr_wait ro)
      (?s2\<lparr>ld_attempt := saturating_inc_u32 (ld_attempt ?s2)\<rparr>) = (effs1, s1, st1)" by (metis prod_cases3)
  have l: "h_link (ld_health ?s2) = Backoff" "ld_pending ?s2 = None" by (simp_all add: drain_health_def set_link_def)
  have o: "outstanding (s\<lparr>ld_health := set_link Backoff (ld_health s)\<rparr>) = outstanding s" by (simp add: outstanding_def)
  obtain tl where eq: "effs = [MConnectFailure] @ map (\<lambda>r. Drv (Replied r (RepReconnect (Inl (connect_reason (pr_outcome ro) (connect_timeout global)))))) (outstanding s) @ tl @ effs1"
    "s' = s1" "st = st1" "answered tl = []" "asked tl = []" "alarm_state b tl = b"
    using assms w o by (auto simp: connect_failed_def Let_def answer_pending_eq split_def alarm_step_def split: if_splits)
  from wait_out_ledger [OF w, of b] l eq show ?thesis by (auto simp: alarm_step_def)
qed

text \<open>One round of the poll ladder.\<close>

lemma poll_round_ledger:
  assumes "run_device_round cfg global tls kind ro s = (effs, s', st)" "\<not> pr_cancelled ro"
  shows "answered effs = map (\<lambda>r. (r, connect_result global (pr_outcome ro))) (outstanding s) \<and> asked effs = outstanding s' \<and>
    (alarm_state b effs \<longrightarrow> h_link (ld_health s') = Backoff \<and> st \<noteq> StillDriving)"
proof (cases "\<exists>identity security. pr_outcome ro = Connected identity security")
  case True
  then obtain identity security where o: "pr_outcome ro = Connected identity security" by blast
  obtain effs1 s1 where se: "on_session cfg kind ro identity security s = (effs1, s1)" by (metis surj_pair)
  obtain effs2 d ex where dr: "poll_until_disconnected cfg global (pr_inputs ro) (driver_init cfg global (pr_start ro) (ld_health s1)) =
      (effs2, d, ex)" by (metis prod_cases3)
  note l1 = on_session_ledger [OF se] and pl = plain_poll_run [OF dr]
  let ?pre = "[MConnectAttempt] @ effs1 @ map Drv effs2" and ?s2 = "s1\<lparr>ld_health := set_identity None (dr_health d)\<rparr>"
  have pre: "answered ?pre = map (\<lambda>r. (r, Inr ())) (outstanding s)" "asked ?pre = []" "\<not> alarm_state b ?pre"
    using l1 answered_plain [OF pl] alarm_plain [OF pl] by (auto simp: alarm_step_def)
  have res: "connect_result global (pr_outcome ro) = Inr ()" by (simp add: connect_result_def o)
  show ?thesis
  proof (cases ex)
    case None
    have eq: "effs = ?pre" "s' = s1\<lparr>ld_health := dr_health d\<rparr>"
      using assms o se dr None by (auto simp: run_device_round_def)
    from pre res l1 show ?thesis unfolding eq by (simp add: outstanding_def)
  next
    case (Some e)
    show ?thesis
    proof (cases e)
      case LinkLost
      obtain effs3 s3 st3 where ll: "link_lost cfg global (pr_jitter ro) (pr_wait_from ro) (pr_wait ro) ?s2 = (effs3, s3, st3)"
        by (metis prod_cases3)
      have eq: "effs = ?pre @ [MDropped] @ effs3" "s' = s3" "st = st3"
        using assms o se dr Some LinkLost ll by (auto simp: run_device_round_def)
      from link_lost_ledger [OF ll] l1 pre res show ?thesis unfolding eq by simp
    next
      case (Reconnect r)
      have eq: "effs = ?pre @ [MDropped, AskedReconnect r]" "ld_pending s' = Some r"
        using assms o se dr Some Reconnect by (auto simp: run_device_round_def)
      from pre res eq(2) show ?thesis unfolding eq(1) by (simp add: outstanding_def alarm_step_def)
    next
      case Stopped
      have eq: "effs = ?pre @ [MDropped]" "s' = ?s2"
        using assms o se dr Some Stopped by (auto simp: run_device_round_def)
      from pre res l1 show ?thesis unfolding eq by (simp add: outstanding_def alarm_step_def)
    qed
  qed
next
  case False
  obtain effs1 s1 st1 where f: "connect_failed cfg global tls ro s = (effs1, s1, st1)" by (metis prod_cases3)
  have eq: "effs = [MConnectAttempt] @ effs1" "s' = s1" "st = st1"
    using assms f False by (auto simp: run_device_round_def split: connect_outcome.splits)
  have res: "connect_result global (pr_outcome ro) = Inl (connect_reason (pr_outcome ro) (connect_timeout global))"
    using False by (auto simp: connect_result_def split: connect_outcome.splits)
  from connect_failed_ledger [OF f] show ?thesis unfolding eq res by (simp add: alarm_step_def)
qed

lemma poll_cancelled_ledger:
  "pr_cancelled ro \<Longrightarrow> run_device_round cfg global tls kind ro s = ([MConnectAttempt], s, Returned)"
  by (simp add: run_device_round_def)

lemma run_device_ledger:
  assumes "run_device cfg global tls kind ros s = (effs, s', st)" "b \<longrightarrow> h_link (ld_health s) = Backoff"
  shows "outstanding s @ asked effs = map fst (answered effs) @ outstanding s' \<and>
    (alarm_state b effs \<longrightarrow> h_link (ld_health s') = Backoff \<and> st \<noteq> StillDriving)"
  using assms
proof (induction ros arbitrary: s b effs)
  case (Cons ro ros)
  obtain effs1 s1 st1 where r: "run_device_round cfg global tls kind ro s = (effs1, s1, st1)" by (metis prod_cases3)
  have one: "outstanding s @ asked effs1 = map fst (answered effs1) @ outstanding s1 \<and>
      (alarm_state b effs1 \<longrightarrow> h_link (ld_health s1) = Backoff \<and> st1 \<noteq> StillDriving)"
  proof (cases "pr_cancelled ro")
    case True
    with r Cons.prems(2) show ?thesis by (auto simp: poll_cancelled_ledger alarm_step_def)
  next
    case False
    from poll_round_ledger [OF r False, of b] show ?thesis by (auto simp: comp_def)
  qed
  show ?case
  proof (cases "st1 = Continue")
    case True
    obtain rest where q: "run_device cfg global tls kind ros s1 = (rest, s', st)" "effs = effs1 @ rest"
      using Cons.prems(1) r True by (auto split: prod.splits)
    have "alarm_state b effs1 \<longrightarrow> h_link (ld_health s1) = Backoff" using one by blast
    note ih = Cons.IH [OF q(1) this]
    have "outstanding s @ asked effs1 @ asked rest = map fst (answered effs1) @ map fst (answered rest) @ outstanding s'"
      using ih one by (metis append.assoc)
    with ih show ?thesis unfolding q(2) by simp
  next
    case False
    with Cons.prems(1) r have "effs = effs1" "s' = s1" "st = st1" by (cases st1; simp)+
    with one show ?thesis by simp
  qed
qed simp

text \<open>One round of the push ladder.\<close>

lemma push_round_ledger:
  assumes "run_push_round cfg global kind ro s = (effs, s', st)" "\<not> ph_cancelled ro"
  shows "answered effs = map (\<lambda>r. (r, connect_result global (ph_outcome ro))) (outstanding s) \<and> asked effs = outstanding s'"
proof (cases "\<exists>identity security. ph_outcome ro = Connected identity security")
  case True
  then obtain identity security where o: "ph_outcome ro = Connected identity security" by blast
  let ?s = "s\<lparr>ld_attempt := 0, ld_io := on_forward_open True (ld_io s), ld_health := set_identity identity (set_link Connecting (ld_health s)),
    ld_pending := None\<rparr>"
  obtain effs2 d ex where dr: "consume_push cfg global kind (ph_inputs ro) (push_driver_init (ph_start ro) (ld_health ?s) (ld_io ?s)) =
      (effs2, d, ex)" by (metis prod_cases3)
  let ?pre = "[MConnectAttempt, MConnected (ph_latency_ms ro)] @ map (\<lambda>r. Drv (Replied r (RepReconnect (Inr ())))) (outstanding s) @ map Drv effs2"
  let ?s2 = "?s\<lparr>ld_health := set_identity None (pd_health d), ld_io := pd_io d\<rparr>"
  have pre: "answered ?pre = map (\<lambda>r. (r, Inr ())) (outstanding s)" "asked ?pre = []"
    using answered_plain [OF plain_consume_push [OF dr]] by auto
  have res: "connect_result global (ph_outcome ro) = Inr ()" by (simp add: connect_result_def o)
  have so: "outstanding (s\<lparr>ld_attempt := 0, ld_io := on_forward_open True (ld_io s),
      ld_health := set_identity identity (set_link Connecting (ld_health s))\<rparr>) = outstanding s" by (simp add: outstanding_def)
  note defs = run_push_round_def Let_def answer_pending_eq so
  show ?thesis
  proof (cases ex)
    case None
    with assms o dr pre res show ?thesis by (auto simp: defs) (simp_all add: outstanding_def)
  next
    case (Some e)
    show ?thesis
    proof (cases e)
      case PushLinkLost
      obtain effs3 s3 st3 where ll: "link_lost cfg global (ph_jitter ro) (ph_wait_from ro) (ph_wait ro) ?s2 = (effs3, s3, st3)"
        by (metis prod_cases3)
      have eq: "effs = ?pre @ [Drv SessionClosed, MDropped] @ effs3" "s' = s3"
        using assms o dr Some PushLinkLost ll by (auto simp: defs)
      from link_lost_ledger [OF ll] pre res show ?thesis unfolding eq by simp
    next
      case (PushReconnect r)
      have eq: "effs = ?pre @ [Drv SessionClosed, MDropped, AskedReconnect r]" "ld_pending s' = Some r"
        using assms o dr Some PushReconnect by (auto simp: defs)
      from pre res eq(2) show ?thesis unfolding eq(1) by (simp add: outstanding_def)
    next
      case PushStopped
      have eq: "effs = ?pre @ [Drv SessionClosed, MDropped]" "ld_pending s' = None"
        using assms o dr Some PushStopped by (auto simp: defs)
      from pre res eq(2) show ?thesis unfolding eq(1) by (simp add: outstanding_def)
    qed
  qed
next
  case False
  let ?s = "s\<lparr>ld_health := set_link Backoff (set_link Connecting (ld_health s)), ld_io := on_forward_open False (ld_io s), ld_pending := None\<rparr>"
  obtain effs1 s1 st1 where w: "wait_out cfg (failure_wait global (ph_outcome ro) (ld_attempt ?s) (ph_jitter ro)) (ph_wait_from ro) (ph_wait ro)
      (?s\<lparr>ld_attempt := saturating_inc_u32 (ld_attempt ?s)\<rparr>) = (effs1, s1, st1)" by (metis prod_cases3)
  have so: "outstanding (s\<lparr>ld_health := set_link Backoff (set_link Connecting (ld_health s)), ld_io := on_forward_open False (ld_io s)\<rparr>) =
      outstanding s" by (simp add: outstanding_def)
  let ?reason = "connect_reason (ph_outcome ro) (connect_timeout global)"
  have eq: "effs = [MConnectAttempt, MConnectFailure] @ map (\<lambda>r. Drv (Replied r (RepReconnect (Inl ?reason)))) (outstanding s) @ effs1"
    "s' = s1"
    using assms w False so by (auto simp: run_push_round_def Let_def answer_pending_eq split: connect_outcome.splits)
  have res: "connect_result global (ph_outcome ro) = Inl ?reason"
    using False by (auto simp: connect_result_def split: connect_outcome.splits)
  from wait_out_ledger [OF w] show ?thesis unfolding eq res by simp
qed

lemma run_push_ledger:
  assumes "run_push_rounds cfg global kind ros s = (effs, s', st)"
  shows "outstanding s @ asked effs = map fst (answered effs) @ outstanding s'"
  using assms
proof (induction ros arbitrary: s effs)
  case (Cons ro ros)
  obtain effs1 s1 st1 where r: "run_push_round cfg global kind ro s = (effs1, s1, st1)" by (metis prod_cases3)
  have one: "outstanding s @ asked effs1 = map fst (answered effs1) @ outstanding s1"
  proof (cases "ph_cancelled ro")
    case True
    with r show ?thesis by (auto simp: run_push_round_def outstanding_def)
  next
    case False
    from push_round_ledger [OF r False] show ?thesis by (auto simp: comp_def)
  qed
  show ?case
  proof (cases "st1 = Continue")
    case True
    obtain rest where q: "run_push_rounds cfg global kind ros s1 = (rest, s', st)" "effs = effs1 @ rest"
      using Cons.prems(1) r True by (auto split: prod.splits)
    have "outstanding s @ asked effs1 @ asked rest = map fst (answered effs1) @ map fst (answered rest) @ outstanding s'"
      using Cons.IH [OF q(1)] one by (metis append.assoc)
    then show ?thesis unfolding q(2) by simp
  next
    case False
    with Cons.prems(1) r have "effs = effs1" "s' = s1" by (cases st1; simp)+
    with one show ?thesis by simp
  qed
qed simp

section \<open>Properties\<close>

text \<open>
  C34. Every reconnect request that a ladder takes over is answered exactly once and in order, by the outcome of
  the next connect attempt, and none is overwritten: at every point the requests taken are the answers given,
  followed by at most the one still waiting for its attempt. This holds for the poll and the push ladder,
  whatever the engine loops and the waits in between do.
\<close>

theorem reconnect_answered_once:
  assumes "run_device cfg global tls kind ros (ladder_init h io) = (effs, s, st)"
    and "run_push cfg' global' kind' ros' (ladder_init h' io') = (effs', s', st')"
  shows "asked effs = map fst (answered effs) @ outstanding s \<and> asked effs' = map fst (answered effs') @ outstanding s'"
proof -
  have z: "outstanding (ladder_init h io) = []" "outstanding (ladder_init h' io') = []"
    by (simp_all add: ladder_init_def outstanding_def)
  have "asked effs' = map fst (answered effs') @ outstanding s'"
  proof (cases "dc_io cfg'")
    case None
    with assms(2) z show ?thesis by (simp add: run_push_def)
  next
    case (Some x)
    with assms(2) have "run_push_rounds cfg' global' kind' ros' (ladder_init h' io') = (effs', s', st')" by (simp add: run_push_def)
    from run_push_ledger [OF this] z show ?thesis by simp
  qed
  with run_device_ledger [OF assms(1), of False] z show ?thesis by simp
qed

text \<open>
  C35. The unreachable alarm follows the link: after any run of the poll ladder, the alarm stands only while the
  link is in backoff, and never while a session is being driven.
\<close>

theorem alarm_follows_link:
  assumes "run_device cfg global tls kind ros (ladder_init h io) = (effs, s, st)" "alarm_state False effs"
  shows "h_link (ld_health s) = Backoff \<and> st \<noteq> StillDriving"
  using run_device_ledger [OF assms(1), of False] assms(2) by simp

lemma failure_wait_le:
  assumes "unat (bo_max_ms (backoff_from_timeouts (gc_timeouts global))) \<le> 2 ^ 53"
  shows "failure_wait global outcome attempt jitter \<le> from_millis (unat (bo_max_ms (backoff_from_timeouts (gc_timeouts global))))"
  using backoff_bounded [OF assms, of attempt jitter]
  by (auto simp: failure_wait_def Let_def from_millis_def intro: order.trans)

lemma wait_out_ends:
  assumes "(now, ev) \<in> set evs" "t + wait \<le> now" "wait_out cfg wait t evs s = (effs, s', st)"
  shows "st = Continue \<or> st = Returned"
proof -
  obtain effs1 h io r where "serve_control_disconnected cfg (t + wait) evs (ld_health s, ld_io s) = (effs1, (h, io), Some r)"
    using wait_ends [OF assms(1,2), of cfg "(ld_health s, ld_io s)"] by auto
  with assms(3) show ?thesis by (cases r) (auto simp: wait_out_def Let_def)
qed

text \<open>
  C36. No traffic on the control channel holds a reconnect back: after a failed connect, the round ends - the next
  attempt starts or the instance stops - at the latest when the configured backoff ceiling has passed, however
  many messages are answered in the meantime.
\<close>

theorem failed_connect_retried:
  assumes "unat (bo_max_ms (backoff_from_timeouts (gc_timeouts global))) \<le> 2 ^ 53" "\<not> pr_cancelled ro"
    and "pr_outcome ro = ConnectElapsed \<or> pr_outcome ro = ConnectError e" "(now, ev) \<in> set (pr_wait ro)"
    and "pr_wait_from ro + from_millis (unat (bo_max_ms (backoff_from_timeouts (gc_timeouts global)))) \<le> now"
    and "run_device_round cfg global tls kind ro s = (effs, s', st)"
  shows "st = Continue \<or> st = Returned"
proof -
  obtain effs1 where f: "connect_failed cfg global tls ro s = (effs1, s', st)"
    using assms(2,3,6) by (auto simp: run_device_round_def split: prod.splits)
  obtain att s2 effs2 where w: "wait_out cfg (failure_wait global (pr_outcome ro) att (pr_jitter ro)) (pr_wait_from ro) (pr_wait ro) s2 =
      (effs2, s', st)"
    using f by (auto simp: connect_failed_def Let_def split: prod.splits)
  have "pr_wait_from ro + failure_wait global (pr_outcome ro) att (pr_jitter ro) \<le> now"
    using failure_wait_le [OF assms(1), of "pr_outcome ro" att "pr_jitter ro"] assms(5) by simp
  from wait_out_ends [OF assms(4) this w] show ?thesis .
qed

section \<open>A concrete run\<close>

definition example_round :: "connect_outcome \<Rightarrow> (instant \<times> wait_event) list \<Rightarrow> poll_round" where
  "example_round outcome evs =
     \<lparr>pr_cancelled = False, pr_outcome = outcome, pr_latency_ms = 3, pr_start = 0, pr_inputs = [], pr_jitter = f64_one,
      pr_wait_from = 0, pr_wait = evs\<rparr>"

lemma example_backoff: "bo_max_ms (backoff_from_timeouts (gc_timeouts global_config_default)) = 60000"
  by (simp add: backoff_from_timeouts_def global_config_default_def timeouts_default_def)

definition example_ladder :: ladder where
  "example_ladder = ladder_init health_default io_default"

text \<open>A refused connect, a pause and a reconnect request during the wait, then a connect that succeeds.\<close>

definition example_rounds :: "poll_round list" where
  "example_rounds =
     [example_round (ConnectError (Permanent [])) [(1, WeControl (Some (CtlPause None 4))), (2, WeControl (Some (CtlReconnect 5)))],
      example_round (Connected None None) []]"

theorem reconnect_answered_once_witness:
  "\<exists>effs s st. run_device example_poll global_config_default False (ascii ''ethernet-ip'') example_rounds example_ladder = (effs, s, st) \<and>
     asked effs = map fst (answered effs) @ outstanding s"
proof -
  obtain effs s st where r: "run_device example_poll global_config_default False (ascii ''ethernet-ip'') example_rounds example_ladder =
      (effs, s, st)" by (metis prod_cases3)
  obtain effs' s' st' where p: "run_push example_push global_config_default (ascii ''ethernet-ip'') [] (ladder_init health_default io_default) =
      (effs', s', st')" by (metis prod_cases3)
  from reconnect_answered_once [OF r [unfolded example_ladder_def] p] r show ?thesis by blast
qed

theorem failed_connect_retried_witness:
  "\<exists>effs s st. run_device_round example_poll global_config_default False (ascii ''ethernet-ip'')
       (example_round ConnectElapsed [(60000000000, WeSlept)]) example_ladder = (effs, s, st) \<and> (st = Continue \<or> st = Returned)"
proof -
  let ?ro = "example_round ConnectElapsed [(60000000000, WeSlept)]"
  obtain effs s st where r: "run_device_round example_poll global_config_default False (ascii ''ethernet-ip'') ?ro example_ladder =
      (effs, s, st)" by (metis prod_cases3)
  have "st = Continue \<or> st = Returned"
    by (rule failed_connect_retried [OF _ _ _ _ _ r, where now = 60000000000 and ev = WeSlept])
      (simp_all add: example_round_def example_backoff from_millis_def)
  with r show ?thesis by blast
qed

text \<open>A session that is lost at its first read.\<close>

definition example_lost_round :: poll_round where
  "example_lost_round =
     (example_round (Connected None None) [(1, WeSlept)])
       \<lparr>pr_inputs := [(WkTick, (example_env 100000000 [])\<lparr>ev_read := (\<lambda>_. Inl (Transient []))\<rparr>)]\<rparr>"

lemma lost_round_alarm:
  assumes "\<not> pr_cancelled ro" "pr_outcome ro = Connected identity security" "on_session cfg kind ro identity security s = (effs1, s1)"
    and "poll_until_disconnected cfg global (pr_inputs ro) (driver_init cfg global (pr_start ro) (ld_health s1)) = (effs2, d, Some LinkLost)"
    and "run_device_round cfg global tls kind ro s = (effs, s', st)"
  shows "alarm_state b effs"
proof -
  let ?s2 = "s1\<lparr>ld_health := set_identity None (dr_health d)\<rparr>"
  obtain effs3 s3 st3 where ll: "link_lost cfg global (pr_jitter ro) (pr_wait_from ro) (pr_wait ro) ?s2 = (effs3, s3, st3)"
    by (metis prod_cases3)
  have "effs = ([MConnectAttempt] @ effs1 @ map Drv effs2 @ [MDropped]) @ effs3"
    using assms ll by (auto simp: run_device_round_def)
  moreover have "ld_pending ?s2 = None" using on_session_ledger [OF assms(3)] by simp
  ultimately show ?thesis using link_lost_ledger [OF ll] by (simp only: ledger_append)
qed

lemma example_lost_driver:
  assumes "\<not> h_paused h"
  shows "\<exists>effs d. poll_until_disconnected example_poll global_config_default (pr_inputs example_lost_round)
    (driver_init example_poll global_config_default 0 h) = (effs, d, Some LinkLost)"
proof -
  let ?d = "driver_init example_poll global_config_default 0 h"
  have "dr_deadlines ?d = dr_deadlines example_start" "dr_paused ?d = h_paused h" "dr_engine ?d = engine_new 0"
    by (simp_all add: driver_init_def example_start_def)
  with assms example_due [of 100000000] show ?thesis
    by (auto simp: example_lost_round_def example_round_def example_env_def poll_step_def poll_tick_def tick_running_def
        poll_one_def Let_def deliver_all_def simp del: example_settings split: prod.splits)
qed

theorem alarm_follows_link_witness:
  "\<exists>effs s st. run_device example_poll global_config_default False (ascii ''ethernet-ip'') [example_lost_round] example_ladder =
       (effs, s, st) \<and> alarm_state False effs \<and> h_link (ld_health s) = Backoff \<and> st \<noteq> StillDriving"
proof -
  obtain effs s st where r: "run_device example_poll global_config_default False (ascii ''ethernet-ip'') [example_lost_round] example_ladder =
      (effs, s, st)" by (metis prod_cases3)
  have a: "alarm_state False effs"
  proof -
    obtain effs1 s1 where se: "on_session example_poll (ascii ''ethernet-ip'') example_lost_round None None example_ladder = (effs1, s1)"
      by (metis surj_pair)
    have "\<not> h_paused (ld_health s1)"
      using se by (auto simp: on_session_def Let_def answer_pending_eq example_ladder_def ladder_init_def health_default_def
          drain_health_def set_link_def set_identity_def)
    then obtain effs2 d where dr: "poll_until_disconnected example_poll global_config_default (pr_inputs example_lost_round)
        (driver_init example_poll global_config_default 0 (ld_health s1)) = (effs2, d, Some LinkLost)"
      using example_lost_driver by blast
    obtain effs3 s3 st3 where ro: "run_device_round example_poll global_config_default False (ascii ''ethernet-ip'') example_lost_round
        example_ladder = (effs3, s3, st3)" by (metis prod_cases3)
    have "effs = effs3" using r ro by (cases st3) auto
    with lost_round_alarm [OF _ _ se _ ro] dr show ?thesis by (simp add: example_lost_round_def example_round_def)
  qed
  from alarm_follows_link [OF r [unfolded example_ladder_def] a] r a show ?thesis by blast
qed

end
