(* ===== verification/Spec2Isabelle.thy ===== *)
theory Spec2Isabelle
  imports Prelude Wire Encap Cip_Status Encap_Codec Cpf Cip_Types Epath Message Assembly Cm Logix Step_System Session
    Io_Frame Io_Queue Io_Connection Io_Manager Io_Open Discovery Explicit Keepalive Client F64 Json Value_Codec Security_Config Config Device Publish
    Metrics Delivery Poll_Driver Push_Driver Reconnect
begin

text \<open>
  A verification of the EtherNet/IP stack and adapter of this repository: the protocol crate
  \<^verbatim>\<open>src/crates/enip\<close> and the adapter crate \<^verbatim>\<open>src/crates/ethernet-ip-adapter\<close>.

  \<^bold>\<open>The program.\<close> The protocol crate talks to industrial controllers in two ways. Explicit messaging
  sends a CIP request inside an encapsulation frame over TCP and waits for the reply; one task, the
  session actor, owns the stream, and a client handle submits requests to it, unconnected or over a
  class 3 connection that a keepalive protects. Implicit I/O opens a class 1 connection over the same
  session and then exchanges cyclic UDP datagrams, driven by one socket task for all connections,
  which hands samples to consumers through bounded queues. The adapter crate runs one task per device:
  a connect ladder that opens a session and retries with backoff, and inside it a loop that polls tags
  or consumes class 1 frames, gates the readings by quality, deadband and publish mode, publishes them
  singly or in batches, and answers control requests. Counters of all of it go to a metric service.

  \<^bold>\<open>Theories and sources\<close>, in the order of the imports:
  \<^item> \<open>Prelude\<close>: machine integers at their widths, checked arithmetic, error results, bytes, text, time.
    Durations and instants are nanoseconds with the limits of the Rust types written out.
  \<^item> \<open>Wire\<close> (\<^verbatim>\<open>wire.rs\<close>): the cursor and the writer. The locales \<open>wire_decoder\<close>, \<open>wire_item\<close> and
    \<open>wire_item_exact\<close> state what a decoder promises; every format is an interpretation.
  \<^item> \<open>Encap\<close>, \<open>Encap_Codec\<close> (\<^verbatim>\<open>encap/\<close>), \<open>Cip_Status\<close> (\<^verbatim>\<open>cip/status.rs\<close>, \<^verbatim>\<open>error.rs\<close>), \<open>Cpf\<close> (\<^verbatim>\<open>cpf.rs\<close>),
    \<open>Cip_Types\<close> (\<^verbatim>\<open>cip/types.rs\<close>), \<open>Epath\<close> (\<^verbatim>\<open>cip/epath.rs\<close>), \<open>Message\<close> (\<^verbatim>\<open>cip/message.rs\<close>,
    \<^verbatim>\<open>cip/services.rs\<close>), \<open>Assembly\<close> (\<^verbatim>\<open>assembly.rs\<close>), \<open>Cm\<close> (\<^verbatim>\<open>cm.rs\<close>): the formats. Decoding is exact
    (a buffer decodes to a value if and only if the value encodes to that buffer), the stream codec
    does not depend on how the stream is cut, and layouts read back what is written to them.
  \<^item> \<open>Logix\<close> (\<^verbatim>\<open>logix.rs\<close>): tag reads and writes with fragmentation and tag enumeration, over an
    arbitrary peer. Reads end, return only consistent fragments, and return the whole value of a
    conforming peer.
  \<^item> \<open>Step_System\<close>: the locale \<open>invariant_system\<close>, reachability and invariants of a step relation.
  \<^item> \<open>Session\<close> (\<^verbatim>\<open>client/session.rs\<close>): the actor, as a function of what arrives on the stream, of
    the outcomes of its writes and of the clock. No reply is delivered to another request, and a silent
    peer ends the session.
  \<^item> \<open>Io_Frame\<close>, \<open>Io_Queue\<close>, \<open>Io_Connection\<close>, \<open>Io_Manager\<close>, \<open>Io_Open\<close> (\<^verbatim>\<open>io.rs\<close>): class 1. The queue
    refines a latest-wins specification (locale \<open>latest_wins_queue\<close>); a connection accepts only newer
    frames and its arithmetic catch-up equals the tick loop; the socket task keeps its tables in
    agreement and never ends a connection in silence; an open that fails after the target's success
    tears the connection down.
  \<^item> \<open>Discovery\<close> (\<^verbatim>\<open>discovery.rs\<close>), \<open>Explicit\<close>, \<open>Keepalive\<close>, \<open>Client\<close> (\<^verbatim>\<open>client/mod.rs\<close>,
    \<^verbatim>\<open>client/connected.rs\<close>, \<^verbatim>\<open>client/io_service.rs\<close>, \<^verbatim>\<open>client/keepalive.rs\<close>): the client over the
    session actor. The no-cross-delivery property is lifted to it, with the sequence counts of class 3.
  \<^item> \<open>F64\<close>, \<open>Json\<close>: floating-point numbers as values with their rounding, and JSON values with the
    equality and accessors of the library the adapter uses.
  \<^item> \<open>Value_Codec\<close> (\<^verbatim>\<open>eip/types.rs\<close>): reads and writes between CIP and JSON values. An accepted write
    is in range and never clamped, an integer survives the round trip, and packed booleans unpack as
    their positional reference says.
  \<^item> \<open>Security_Config\<close>, \<open>Config\<close> (\<^verbatim>\<open>config.rs\<close>, the configuration parts of \<^verbatim>\<open>eip/tls.rs\<close> and
    \<^verbatim>\<open>eip/est.rs\<close>): the records of the configuration, the precedence chains and the startup
    validation, with what an accepted configuration guarantees.
  \<^item> \<open>Device\<close> (\<^verbatim>\<open>device.rs\<close>, \<^verbatim>\<open>app.rs\<close>): readings, health, backoff, control messages, the pause.
  \<^item> \<open>Publish\<close> (\<^verbatim>\<open>publish.rs\<close>, \<^verbatim>\<open>poll.rs\<close>, \<^verbatim>\<open>push.rs\<close>): the gate, the batch window, the engine.
  \<^item> \<open>Metrics\<close> (\<^verbatim>\<open>metrics.rs\<close>): schema, counters, emissions. Emissions conform to the schema, counts
    are neither lost nor repeated.
  \<^item> \<open>Delivery\<close>: the effects of a driver and its delivery of what the engine hands out. The locale
    \<open>publisher\<close> states what both drivers rely on; each driver's publish is an interpretation.
  \<^item> \<open>Poll_Driver\<close>, \<open>Push_Driver\<close> (\<^verbatim>\<open>poll_driver.rs\<close>; \<^verbatim>\<open>push_driver.rs\<close>, \<^verbatim>\<open>eip/push.rs\<close>): the two
    loops, each arm of the select as a step. In every reachable state a baseline is what the bus was
    last confirmed to show; a poll or a frame brings the bus up to date; a paused instance publishes
    nothing; every group is polled in turn.
  \<^item> \<open>Reconnect\<close> (\<^verbatim>\<open>reconnect.rs\<close>, \<^verbatim>\<open>app.rs\<close>): the ladders around the loops. Reconnect requests are
    answered once each, the alarm follows the link, a failed connect is retried within the ceiling.

  \<^bold>\<open>Modelling conventions.\<close> A struct is a record, an enum a datatype, an error a value of \<open>enip_error\<close>
  in a sum. Every await on the outside world is an input: arrivals, write outcomes, the verdict of a
  timeout, instants, random identifiers. Theorems hold for all of them. Atomic counters are the fields
  of a record, since each update is one atomic operation, and wrap at 64 bits as in the source. The
  peer of the request-level services is an \<open>exchange\<close>, an arbitrary function on an arbitrary state.

  \<^bold>\<open>Bounds.\<close> Buffers are at most \<open>isize_max\<close> bytes, the limit of a Rust allocation; the loops over
  buffers terminate by their lengths, the reply loop by the bytes pending, the fragmented read by the
  cap on the value. The fragmented write is a partial function, shown to return. No fuel is used.

  \<^bold>\<open>Not modelled.\<close> TLS sessions, certificates and their rotation, and enrollment exchanges, which are
  calls into libraries and file access; parsing of JSON text and of configuration records, done by a
  derive; the command surface, reload and supervision, which wire tasks and the messaging library; log
  lines, rendering for humans, the test harness, the simulator and the fuzz targets.
\<close>

end
